(* ===== verification/Prelude.thy ===== *)
theory Prelude
  imports Main "HOL-Library.AList" "HOL-Library.Multiset"
begin

text \<open>
  Shared ground of the development: the names of the model's basic types, the collections
  of rewrite rules the component proofs draw on, generic facts on lists and on
  association lists, and the contracts (locales) that several components implement.

  A Python \<^verbatim>\<open>dict\<close> is an association list: \<^const>\<open>AList.update\<close> overwrites the value of
  a key in place and appends a new key at the end, which is exactly the insertion order a
  \<^verbatim>\<open>dict\<close> keeps; \<^const>\<open>AList.delete\<close> is \<^verbatim>\<open>pop\<close>. A table of the database is an
  association list from its primary key to the remaining columns.
\<close>

named_theorems dict_simps "rewrite rules for dictionaries and tables kept as association lists"
named_theorems op_defs "definitions of the operations of a component"

type_synonym device_id = string
type_synonym uuid = int
type_synonym millis = int
type_synonym micros = int
type_synonym bytes = string

subsection \<open>Dictionaries and tables\<close>

abbreviation keys :: "('k \<times> 'v) list \<Rightarrow> 'k list" where
  "keys d \<equiv> map fst d"

lemma map_of_update [dict_simps, simp]:
  "map_of (AList.update k v d) = (map_of d)(k \<mapsto> v)"
  by (simp add: update_conv')

lemma map_of_delete [dict_simps, simp]:
  "map_of (AList.delete k d) = (map_of d)(k := None)"
  by (simp add: delete_conv')

lemma set_update_entries [dict_simps]: "set (AList.update k v d) \<subseteq> insert (k, v) (set d)"
  by (induction d) auto

lemma set_delete_entries [dict_simps]: "set (AList.delete k d) \<subseteq> set d"
  by (induction d) auto

lemma image_fst_update [dict_simps]: "fst ` set (AList.update k v d) = insert k (fst ` set d)"
  by (simp add: dom_update)

lemma image_fst_delete [dict_simps]: "fst ` set (AList.delete k d) = fst ` set d - {k}"
  by (induction d) auto

lemma length_update_present [dict_simps]: "k \<in> fst ` set d \<Longrightarrow> length (AList.update k v d) = length d"
  by (induction d) auto

text \<open>
  A set-based upsert: every row of the statement names a key and says what becomes of the
  row stored under it, if there is one.
\<close>

primrec upsert_all :: "('k \<times> ('v option \<Rightarrow> 'v)) list \<Rightarrow> ('k \<times> 'v) list \<Rightarrow> ('k \<times> 'v) list" where
  "upsert_all [] t = t"
| "upsert_all (u # us) t = upsert_all us (AList.update (fst u) (snd u (map_of t (fst u))) t)"

primrec delete_all :: "'k list \<Rightarrow> ('k \<times> 'v) list \<Rightarrow> ('k \<times> 'v) list" where
  "delete_all [] t = t"
| "delete_all (k # ks) t = delete_all ks (AList.delete k t)"

lemma map_of_upsert_all [dict_simps]:
  "distinct (keys us) \<Longrightarrow>
   map_of (upsert_all us t) k =
     (case map_of us k of None \<Rightarrow> map_of t k | Some f \<Rightarrow> Some (f (map_of t k)))"
proof (induction us arbitrary: t)
  case (Cons u us)
  then have "map_of us (fst u) = None" by (auto simp: map_of_eq_None_iff)
  with Cons show ?case by (cases u) (auto split: option.splits)
qed simp

lemma map_of_delete_all [dict_simps]:
  "map_of (delete_all ks t) k = (if k \<in> set ks then None else map_of t k)"
  by (induction ks arbitrary: t) auto

lemma distinct_update_keys [dict_simps]: "distinct (keys t) \<Longrightarrow> distinct (keys (AList.update k v t))"
  by (rule distinct_update)

lemma distinct_delete_keys [dict_simps]: "distinct (keys t) \<Longrightarrow> distinct (keys (AList.delete k t))"
  by (rule distinct_delete)

lemma distinct_upsert_all [dict_simps]:
  "distinct (keys t) \<Longrightarrow> distinct (keys (upsert_all us t))"
  by (induction us arbitrary: t) (auto simp: distinct_update_keys)

lemma distinct_delete_all [dict_simps]:
  "distinct (keys t) \<Longrightarrow> distinct (keys (delete_all ks t))"
  by (induction ks arbitrary: t) (auto simp: distinct_delete_keys)

lemma update_same [dict_simps]: "map_of t k = Some v \<Longrightarrow> AList.update k v t = t"
  by (induction t) auto

lemma upsert_all_noop:
  "distinct (keys us) \<Longrightarrow> (\<And>k f. (k, f) \<in> set us \<Longrightarrow> map_of t k = Some (f (map_of t k))) \<Longrightarrow> upsert_all us t = t"
proof (induction us)
  case (Cons u us)
  obtain k f where u: "u = (k, f)" by (cases u)
  from Cons.prems(2) [of k f] have "map_of t k = Some (f (map_of t k))" by (simp add: u)
  then have "AList.update k (f (map_of t k)) t = t" by (rule update_same)
  with Cons u show ?case by simp
qed simp

lemma delete_all_noop: "(\<And>k. k \<in> set ks \<Longrightarrow> map_of t k = None) \<Longrightarrow> delete_all ks t = t"
proof (induction ks)
  case (Cons k ks)
  from Cons.prems [of k] have "k \<notin> fst ` set t" by (simp add: map_of_eq_None_iff)
  then have "AList.delete k t = t" by (rule delete_id)
  with Cons show ?case by simp
qed simp


subsection \<open>Stores in which the newest report wins\<close>

text \<open>
  A contract that several components share: a store keeps one stamped entry per key, and
  putting a report in replaces the entry exactly when the report is strictly newer.
  \<open>look\<close> reads the stamp stored under a key.
\<close>

definition newest_stamp :: "int option \<Rightarrow> int \<Rightarrow> int option" where
  "newest_stamp old t = (case old of None \<Rightarrow> Some t | Some u \<Rightarrow> Some (max u t))"

lemma newest_stamp_simps [simp]:
  "newest_stamp None t = Some t" "newest_stamp (Some u) t = Some (max u t)"
  by (simp_all add: newest_stamp_def)

lemma newest_comm: "newest_stamp (newest_stamp o1 a) b = newest_stamp (newest_stamp o1 b) a"
  by (auto simp: newest_stamp_def max.commute max.left_commute split: option.splits)

locale newest_wins =
  fixes key :: "'r \<Rightarrow> 'k" and stamp :: "'r \<Rightarrow> int"
    and look :: "'s \<Rightarrow> 'k \<Rightarrow> int option" and put :: "'s \<Rightarrow> 'r \<Rightarrow> 's"
  assumes look_put_same: "look (put s r) (key r) = newest_stamp (look s (key r)) (stamp r)"
    and look_put_other: "k \<noteq> key r \<Longrightarrow> look (put s r) k = look s k"
    and put_stale: "look s (key r) = Some t \<Longrightarrow> stamp r \<le> t \<Longrightarrow> put s r = s"
begin

lemma look_foldl:
  "look (foldl put s rs) k = foldl newest_stamp (look s k) (map stamp (filter (\<lambda>r. key r = k) rs))"
proof (induction rs arbitrary: s)
  case (Cons r rs)
  then show ?case by (cases "key r = k") (auto simp: look_put_same look_put_other)
qed simp

lemma foldl_newest_Some: "\<exists>u. foldl newest_stamp (Some t) ts = Some u \<and> t \<le> u \<and> (\<forall>x \<in> set ts. x \<le> u)"
proof (induction ts arbitrary: t)
  case (Cons x ts)
  from Cons.IH [of "max t x"] show ?case by (auto simp: newest_stamp_def)
qed simp

lemma look_keeps: "look s k = Some t \<Longrightarrow> \<exists>u. look (foldl put s rs) k = Some u \<and> t \<le> u"
  unfolding look_foldl using foldl_newest_Some by metis

lemma look_foldl_covers:
  "r \<in> set rs \<Longrightarrow> \<exists>u. look (foldl put s rs) (key r) = Some u \<and> stamp r \<le> u"
proof (induction rs arbitrary: s)
  case (Cons x rs)
  show ?case
  proof (cases "r = x")
    case True
    obtain t where t: "look (put s x) (key x) = Some t" "stamp x \<le> t"
      by (cases "look s (key x)") (auto simp: look_put_same newest_stamp_def)
    from look_keeps [OF t(1), of rs] t(2) show ?thesis by (auto simp: True)
  qed (use Cons in auto)
qed simp

lemma foldl_stale:
  "(\<And>r. r \<in> set rs \<Longrightarrow> \<exists>t. look s (key r) = Some t \<and> stamp r \<le> t) \<Longrightarrow> foldl put s rs = s"
proof (induction rs)
  case (Cons r rs)
  from Cons.prems [of r] have "put s r = s" using put_stale by auto
  with Cons show ?case by simp
qed simp

lemma replay: "set rs' \<subseteq> set rs \<Longrightarrow> foldl put (foldl put s rs) rs' = foldl put s rs"
  by (rule foldl_stale) (use look_foldl_covers in blast)

end

lemma foldl_newest_perm: "mset xs = mset ys \<Longrightarrow> foldl newest_stamp o1 xs = foldl newest_stamp o1 ys"
  unfolding foldl_conv_fold
  by (rule fold_permuted_eq [where P = "\<lambda>_. True"]) (simp_all add: newest_comm)


subsection \<open>Components that move in steps\<close>

text \<open>
  A component whose operations keep an invariant keeps it over any interleaving of them:
  the operations are one step function on a type of events.
\<close>

locale step_system =
  fixes step :: "'e \<Rightarrow> 's \<Rightarrow> 's" and inv :: "'s \<Rightarrow> bool"
  assumes step_keeps: "inv s \<Longrightarrow> inv (step e s)"
begin

lemma run_keeps: "inv s \<Longrightarrow> inv (fold step es s)"
  by (induction es arbitrary: s) (auto intro: step_keeps)

end

end
