(* ===== verification/PyFloat.thy ===== *)
theory PyFloat
  imports Prelude Complex_Main "HOL-Library.Log_Nat"
begin

text \<open>
  Python's \<^verbatim>\<open>float\<close>. A finite double is the rational number it denotes; \<open>fl\<close> is IEEE
  round-to-nearest, ties to even, on 53 significant bits with gradual underflow, so that
  \<open>fl (a + b)\<close>, \<open>fl (a / b)\<close> and \<open>fl (a * b)\<close> are the machine operations on doubles
  \<open>a\<close> and \<open>b\<close>. The upper end of the exponent range is not modelled (no value in the
  program comes near \<open>2 ^ 1024\<close>), nor is the sign of zero, which no comparison of the
  program can observe. The lemmas are the three facts the clients need: rounding is
  monotone, it is exact on scaled integers of 53 bits, and its error is half a unit.
\<close>

subsection \<open>Values\<close>

datatype pyfloat = Fin rat | PosInf | NegInf | NaN

fun isfinite :: "pyfloat \<Rightarrow> bool" where
  "isfinite (Fin _) = True"
| "isfinite _ = False"

subsection \<open>Rounding\<close>

definition ilog2 :: "rat \<Rightarrow> int" where
  "ilog2 x = (case quotient_of x of (p, q) \<Rightarrow>
     (let k = bitlen p - bitlen q in if 2 powi k \<le> x then k else k - 1))"

definition half_even :: "rat \<Rightarrow> int" where
  "half_even x =
     (let f = \<lfloor>x\<rfloor>; r = x - of_int f
      in if r < 1/2 then f else if r > 1/2 then f + 1 else if even f then f else f + 1)"

definition ulp_exp :: "rat \<Rightarrow> int" where
  "ulp_exp x = max (ilog2 x - 52) (-1074)"

definition fl_pos :: "rat \<Rightarrow> rat" where
  "fl_pos x = (let e = ulp_exp x in of_int (half_even (x / 2 powi e)) * 2 powi e)"

definition fl :: "rat \<Rightarrow> rat" where
  "fl x = (if x = 0 then 0 else if x > 0 then fl_pos x else - fl_pos (- x))"

text \<open>\<^verbatim>\<open>int(x)\<close> truncates towards zero.\<close>

definition py_int :: "rat \<Rightarrow> int" where
  "py_int x = (if 0 \<le> x then \<lfloor>x\<rfloor> else \<lceil>x\<rceil>)"

text \<open>
  C's \<^verbatim>\<open>fmod\<close> is exact; Python's \<^verbatim>\<open>%\<close> adds the divisor when the signs differ, and that
  addition rounds.
\<close>

definition fmod :: "rat \<Rightarrow> rat \<Rightarrow> rat" where
  "fmod x y = (let q = x / y in x - y * of_int (if q \<ge> 0 then \<lfloor>q\<rfloor> else \<lceil>q\<rceil>))"

definition pymod :: "rat \<Rightarrow> rat \<Rightarrow> rat" where
  "pymod x y = (let m = fmod x y in if m \<noteq> 0 \<and> (y < 0) \<noteq> (m < 0) then fl (m + y) else m)"


subsection \<open>The binary exponent\<close>

lemma bitlen_powi:
  assumes "0 < m"
  shows "(2::rat) powi (bitlen m - 1) \<le> of_int m" and "of_int m < (2::rat) powi (bitlen m)"
proof -
  have len: "0 < bitlen m"
    using assms bitlen_bounds [of m] bitlen_nonneg [of m]
    by (metis bitlen_eq_zero_iff less_le linorder_not_le)
  have "2 ^ nat (bitlen m - 1) \<le> m" and "m < 2 ^ nat (bitlen m)"
    using bitlen_bounds [OF assms] by auto
  then have "(2::rat) ^ nat (bitlen m - 1) \<le> of_int m" and "of_int m < (2::rat) ^ nat (bitlen m)"
    by (metis of_int_le_iff of_int_numeral of_int_power,
        metis of_int_less_iff of_int_numeral of_int_power)
  with len show "(2::rat) powi (bitlen m - 1) \<le> of_int m" and "of_int m < (2::rat) powi (bitlen m)"
    by (simp_all add: power_int_def)
qed

lemma powi_diff2: "(2::rat) powi (a - b) = 2 powi a / 2 powi b"
  by (simp add: power_int_diff)

lemma ilog2_bounds:
  assumes "0 < x"
  shows "2 powi (ilog2 x) \<le> x" and "x < 2 powi (ilog2 x + 1)"
proof -
  obtain p q where pq: "quotient_of x = (p, q)" by (cases "quotient_of x")
  have q: "0 < q" using quotient_of_denom_pos [OF pq] .
  have x: "x = of_int p / of_int q" using quotient_of_div [OF pq] .
  from assms x q have p: "0 < p" by (simp add: zero_less_divide_iff)
  note bp = bitlen_powi [OF p] and bq = bitlen_powi [OF q]
  have "x < 2 powi (bitlen p) / 2 powi (bitlen q - 1)"
    unfolding x using bp bq p q by (intro frac_less) (auto simp: )
  then have up: "x < 2 powi (bitlen p - bitlen q + 1)"
    by (simp add: powi_diff2 [symmetric] diff_diff_eq2 add.commute add_diff_eq)
  have "2 powi (bitlen p - 1) / 2 powi (bitlen q) \<le> x"
    unfolding x using bp bq p q by (intro frac_le) auto
  then have lo: "2 powi (bitlen p - bitlen q - 1) \<le> x"
    by (simp add: powi_diff2 [symmetric] algebra_simps)
  show "2 powi (ilog2 x) \<le> x" and "x < 2 powi (ilog2 x + 1)"
    using up lo by (auto simp: ilog2_def pq Let_def)
qed

lemma powi2_less_cancel: "(2::rat) powi a < 2 powi b \<Longrightarrow> a < b"
  by (meson power_int_increasing linorder_not_less one_le_numeral)

lemma powi2_le_cancel: "(2::rat) powi a \<le> 2 powi b \<Longrightarrow> a \<le> b"
  by (meson power_int_strict_increasing linorder_not_less one_less_numeral_iff semiring_norm(76))

lemma ilog2_unique: "2 powi k \<le> x \<Longrightarrow> x < 2 powi (k + 1) \<Longrightarrow> ilog2 x = k"
proof -
  assume k: "2 powi k \<le> x" "x < 2 powi (k + 1)"
  have "(0::rat) < 2 powi k" by simp
  with k have x: "0 < x" by linarith
  note b = ilog2_bounds [OF x]
  have "k < ilog2 x + 1" by (rule powi2_less_cancel) (use k b in linarith)
  moreover have "ilog2 x < k + 1" by (rule powi2_less_cancel) (use k b in linarith)
  ultimately show ?thesis by simp
qed

lemma ilog2_mono: "0 < x \<Longrightarrow> x \<le> y \<Longrightarrow> ilog2 x \<le> ilog2 y"
proof (rule ccontr)
  assume x: "0 < x" and xy: "x \<le> y" and "\<not> ilog2 x \<le> ilog2 y"
  then have "ilog2 y + 1 \<le> ilog2 x" by simp
  then have "(2::rat) powi (ilog2 y + 1) \<le> 2 powi (ilog2 x)" by (intro power_int_increasing) auto
  with ilog2_bounds(2) [of y] ilog2_bounds(1) [OF x] x xy show False by simp
qed

lemma ulp_exp_mono: "0 < x \<Longrightarrow> x \<le> y \<Longrightarrow> ulp_exp x \<le> ulp_exp y"
  using ilog2_mono [of x y] by (auto simp: ulp_exp_def)

subsection \<open>Rounding to an integer\<close>

lemma half_even_bounds: "\<bar>of_int (half_even x) - x\<bar> \<le> 1/2"
proof -
  have "of_int \<lfloor>x\<rfloor> \<le> x" "x < of_int \<lfloor>x\<rfloor> + 1" by linarith+
  then show ?thesis by (auto simp: half_even_def Let_def abs_le_iff)
qed

lemma half_even_cases: "half_even x = \<lfloor>x\<rfloor> \<or> half_even x = \<lfloor>x\<rfloor> + 1"
  by (auto simp: half_even_def Let_def)

lemma half_even_of_int [simp]: "half_even (of_int n) = n"
  by (simp add: half_even_def)

lemma half_even_mono: assumes "x \<le> y" shows "half_even x \<le> half_even y"
proof (cases "\<lfloor>x\<rfloor> = \<lfloor>y\<rfloor>")
  case True
  with assms show ?thesis by (auto simp: half_even_def Let_def)
next
  case False
  with assms floor_mono [OF assms] have "\<lfloor>x\<rfloor> + 1 \<le> \<lfloor>y\<rfloor>" by simp
  with half_even_cases [of x] half_even_cases [of y] show ?thesis by auto
qed

text \<open>The integer significand of a rounded positive number stays within 53 bits.\<close>

lemma signif_le: "0 < x \<Longrightarrow> half_even (x / 2 powi ulp_exp x) \<le> 2 ^ 53"
proof -
  assume x: "0 < x"
  have "x \<le> 2 powi (ilog2 x + 1)" using ilog2_bounds(2) [OF x] by simp
  also have "\<dots> \<le> 2 powi (ulp_exp x + 53)"
    by (intro power_int_increasing) (auto simp: ulp_exp_def)
  finally have "x / 2 powi ulp_exp x \<le> of_int (2 ^ 53)"
    by (simp add: power_int_add divide_le_eq mult.commute)
  from half_even_mono [OF this] show ?thesis by (simp only: half_even_of_int)
qed

lemma signif_ge: "0 < x \<Longrightarrow> - 1074 < ulp_exp x \<Longrightarrow> 2 ^ 52 \<le> half_even (x / 2 powi ulp_exp x)"
proof -
  assume x: "0 < x" and n: "- 1074 < ulp_exp x"
  then have e: "ilog2 x = ulp_exp x + 52" by (auto simp: ulp_exp_def)
  have "2 powi (ulp_exp x + 52) \<le> x" using ilog2_bounds(1) [OF x] e by simp
  then have "of_int (2 ^ 52) \<le> x / 2 powi ulp_exp x"
    by (simp add: power_int_add le_divide_eq mult.commute)
  from half_even_mono [OF this] show ?thesis by (simp only: half_even_of_int)
qed

lemma half_even_nonneg: "0 \<le> x \<Longrightarrow> 0 \<le> half_even x"
  using half_even_mono [of "of_int 0" x] by (simp add: half_even_of_int [of 0, simplified])

subsection \<open>Rounding is monotone and exact on representable numbers\<close>

lemma fl_pos_nonneg: "0 < x \<Longrightarrow> 0 \<le> fl_pos x"
  by (simp add: fl_pos_def Let_def half_even_nonneg)

lemma fl_pos_mono:
  assumes x: "0 < x" and xy: "x \<le> y"
  shows "fl_pos x \<le> fl_pos y"
proof (cases "ulp_exp x = ulp_exp y")
  case True
  from xy have "x / 2 powi ulp_exp x \<le> y / 2 powi ulp_exp x" by (simp add: divide_right_mono)
  from half_even_mono [OF this] show ?thesis
    by (simp add: fl_pos_def Let_def True)
next
  case False
  with ulp_exp_mono [OF x xy] have lt: "ulp_exp x + 1 \<le> ulp_exp y" by simp
  then have y_norm: "- 1074 < ulp_exp y" by (simp add: ulp_exp_def)
  have "fl_pos x \<le> of_int (2 ^ 53) * 2 powi ulp_exp x"
    unfolding fl_pos_def Let_def using signif_le [OF x]
    by (intro mult_right_mono) (simp_all only: of_int_le_iff, simp)
  also have "\<dots> = of_int (2 ^ 52) * 2 powi (ulp_exp x + 1)"
    by (simp add: power_int_add)
  also have "\<dots> \<le> of_int (2 ^ 52) * 2 powi ulp_exp y"
    using lt by (intro mult_left_mono power_int_increasing) auto
  also have "\<dots> \<le> fl_pos y"
    unfolding fl_pos_def Let_def using signif_ge [of y] y_norm x xy
    by (intro mult_right_mono) (simp_all only: of_int_le_iff, simp_all)
  finally show ?thesis .
qed

lemma fl_mono: "x \<le> y \<Longrightarrow> fl x \<le> fl y"
  using fl_pos_mono [of x y] fl_pos_mono [of "- y" "- x"] fl_pos_nonneg [of y] fl_pos_nonneg [of "- x"]
  by (auto simp: fl_def)

lemma fl_pos_scaled:
  assumes m: "0 < m" "m \<le> 2 ^ 53" and e: "- 1074 \<le> e"
  shows "fl_pos (of_int m * 2 powi e) = of_int m * 2 powi e"
proof -
  let ?x = "of_int m * 2 powi e :: rat"
  have x: "0 < ?x" using m by simp
  have "?x \<le> of_int (2 ^ 53) * 2 powi e" using m by (intro mult_right_mono) (simp_all only: of_int_le_iff, simp)
  also have "\<dots> = 2 powi (e + 53)" by (simp add: power_int_add)
  finally have hi: "?x \<le> 2 powi (e + 53)" .
  show ?thesis
  proof (cases "?x = 2 powi (e + 53)")
    case True
    have "ilog2 ?x = e + 53"
      by (rule ilog2_unique) (unfold True, simp_all add: power_int_strict_increasing)
    then have u: "ulp_exp ?x = e + 1" using e by (simp add: ulp_exp_def)
    have "?x / 2 powi (e + 1) = of_int (2 ^ 52)"
      by (simp add: True power_int_add field_simps)
    then have "fl_pos ?x = of_int (2 ^ 52) * 2 powi (e + 1)"
      by (simp only: fl_pos_def Let_def u half_even_of_int)
    also have "\<dots> = ?x" by (simp add: True power_int_add)
    finally show ?thesis .
  next
    case False
    with hi have "?x < 2 powi (e + 53)" by simp
    with ilog2_bounds(1) [OF x] have "(2::rat) powi ilog2 ?x < 2 powi (e + 53)" by simp
    then have "ilog2 ?x < e + 53" by (rule powi2_less_cancel)
    then have u: "ulp_exp ?x \<le> e" using e by (simp add: ulp_exp_def)
    define k where "k = nat (e - ulp_exp ?x)"
    have e_eq: "e = ulp_exp ?x + int k" using u by (simp add: k_def)
    define u where "u = (2::rat) powi ulp_exp ?x"
    have u: "u \<noteq> 0" by (simp add: u_def)
    have pe: "(2::rat) powi e = u * 2 ^ k"
      unfolding u_def by (subst e_eq) (simp add: power_int_add)
    have q: "?x / u = of_int (m * 2 ^ k)" using u by (simp add: pe)
    have "fl_pos ?x = of_int (m * 2 ^ k) * u"
      by (simp only: fl_pos_def Let_def flip: u_def) (simp only: q half_even_of_int)
    also have "\<dots> = ?x" by (simp add: pe)
    finally show ?thesis .
  qed
qed


lemma fl_scaled:
  assumes m: "\<bar>m\<bar> \<le> 2 ^ 53" and e: "- 1074 \<le> e"
  shows "fl (of_int m * 2 powi e) = of_int m * 2 powi e"
proof (cases m "0::int" rule: linorder_cases)
  case less
  then have "of_int m * 2 powi e < (0::rat)" by (simp add: mult_less_0_iff)
  with less fl_pos_scaled [of "- m" e] m e show ?thesis by (simp add: fl_def)
next
  case greater
  then have "(0::rat) < of_int m * 2 powi e" by simp
  with greater fl_pos_scaled [of m e] m e show ?thesis by (simp add: fl_def)
qed (simp add: fl_def)

lemma fl_of_int: "\<bar>n\<bar> \<le> 2 ^ 53 \<Longrightarrow> fl (of_int n) = of_int n"
  using fl_scaled [of n 0] by simp

lemma fl_ge_scaled: "\<bar>m\<bar> \<le> 2 ^ 53 \<Longrightarrow> - 1074 \<le> e \<Longrightarrow> of_int m * 2 powi e \<le> x \<Longrightarrow> of_int m * 2 powi e \<le> fl x"
  using fl_mono [of "of_int m * 2 powi e" x] by (simp add: fl_scaled)

lemma fl_le_scaled: "\<bar>m\<bar> \<le> 2 ^ 53 \<Longrightarrow> - 1074 \<le> e \<Longrightarrow> x \<le> of_int m * 2 powi e \<Longrightarrow> fl x \<le> of_int m * 2 powi e"
  using fl_mono [of x "of_int m * 2 powi e"] by (simp add: fl_scaled)

lemma fl_ge_int: "\<bar>n\<bar> \<le> 2 ^ 53 \<Longrightarrow> of_int n \<le> x \<Longrightarrow> of_int n \<le> fl x"
  using fl_mono [of "of_int n" x] by (simp add: fl_of_int)

lemma fl_le_int: "\<bar>n\<bar> \<le> 2 ^ 53 \<Longrightarrow> x \<le> of_int n \<Longrightarrow> fl x \<le> of_int n"
  using fl_mono [of x "of_int n"] by (simp add: fl_of_int)

lemma fl_idem [simp]: "fl (fl x) = fl x"
proof -
  have pos: "fl (fl_pos y) = fl_pos y" if "0 < y" for y
  proof -
    let ?m = "half_even (y / 2 powi ulp_exp y)"
    have "0 \<le> ?m" using that by (intro half_even_nonneg) simp
    then have "\<bar>?m\<bar> \<le> 2 ^ 53" using signif_le [OF that] by simp
    from fl_scaled [OF this, of "ulp_exp y"] show ?thesis
      by (simp add: fl_pos_def Let_def ulp_exp_def)
  qed
  have neg: "fl (- y) = - fl y" for y by (auto simp: fl_def)
  show ?thesis using pos [of x] pos [of "- x"] neg [of "fl_pos (- x)"]
    by (simp add: fl_def [of x] fl_def [of 0])
qed

subsection \<open>Rounding error\<close>

lemma ulp_exp_le:
  assumes "0 < x" "x < 2 powi k" "- 1021 \<le> k"
  shows "ulp_exp x \<le> k - 53"
proof -
  from ilog2_bounds(1) [OF assms(1)] assms(2) have "(2::rat) powi ilog2 x < 2 powi k" by simp
  then have "ilog2 x < k" by (rule powi2_less_cancel)
  with assms(3) show ?thesis by (simp add: ulp_exp_def)
qed

lemma fl_error:
  assumes "0 < x" "x < 2 powi k" "- 1021 \<le> k"
  shows "\<bar>fl x - x\<bar> \<le> 2 powi (k - 54)"
proof -
  let ?u = "2 powi ulp_exp x :: rat"
  have "\<bar>fl x - x\<bar> = \<bar>of_int (half_even (x / ?u)) - x / ?u\<bar> * ?u"
    using assms(1) by (simp add: fl_def fl_pos_def Let_def abs_mult_pos' algebra_simps flip: abs_mult_pos)
  also have "\<dots> \<le> 1/2 * ?u" by (intro mult_right_mono half_even_bounds) simp
  also have "\<dots> = 2 powi (ulp_exp x - 1)" by (simp add: power_int_diff)
  also have "\<dots> \<le> 2 powi (k - 54)"
    using ulp_exp_le [OF assms] by (intro power_int_increasing) auto
  finally show ?thesis .
qed

text \<open>A number within half a unit below a grid point never rounds past it.\<close>

lemma fl_near_scaled:
  assumes "2 powi (e + 52) \<le> x" "- 1074 \<le> e" and m: "\<bar>m\<bar> \<le> 2 ^ 53"
    and close: "of_int m * 2 powi e - 2 powi e / 2 < x"
  shows "of_int m * 2 powi e \<le> fl x"
proof -
  have "(0::rat) < 2 powi (e + 52)" by simp
  with assms(1) have x: "0 < x" by linarith
  from ilog2_bounds(2) [OF x] assms(1) have "(2::rat) powi (e + 52) < 2 powi (ilog2 x + 1)" by simp
  from powi2_less_cancel [OF this] have u: "e \<le> ulp_exp x" by (simp add: ulp_exp_def)
  show ?thesis
  proof (cases "of_int m * 2 powi e \<le> x")
    case True
    with m assms(2) show ?thesis by (intro fl_ge_scaled)
  next
    case False
    then have lt: "x < of_int m * 2 powi e" by simp
    also have "\<dots> \<le> 2 powi (e + 53)"
    proof -
      have "of_int m \<le> (2::rat) ^ 53" using m by (metis abs_le_D1 of_int_le_iff of_int_numeral of_int_power)
      then show ?thesis by (simp add: power_int_add)
    qed
    finally have "(2::rat) powi ilog2 x < 2 powi (e + 53)" using ilog2_bounds(1) [OF x] by linarith
    from powi2_less_cancel [OF this] u have ue: "ulp_exp x = e" using assms(2) by (auto simp: ulp_exp_def)
    have "of_int m - 1/2 < x / 2 powi e" using close by (simp add: less_divide_eq algebra_simps)
    with half_even_bounds [of "x / 2 powi e"] have "of_int m - 1 < (of_int (half_even (x / 2 powi e)) :: rat)"
      by linarith
    then have "m \<le> half_even (x / 2 powi e)" by linarith
    then have "of_int m * 2 powi e \<le> (of_int (half_even (x / 2 powi e)) * 2 powi e :: rat)"
      by (intro mult_right_mono) auto
    then show ?thesis using x by (simp add: fl_def fl_pos_def Let_def ue)
  qed
qed

end
