(* ===== verification/Clock.thy ===== *)
theory Clock
  imports PyFloat
begin

text \<open>
  \<^verbatim>\<open>src/geotrack/clock.py\<close>. An aware \<^verbatim>\<open>datetime\<close> is the number of microseconds since
  the Unix epoch. \<^verbatim>\<open>datetime.timestamp()\<close> divides that integer by a million with one
  rounding; \<^verbatim>\<open>datetime.fromtimestamp\<close> splits the double into its integral part and a
  fraction, scales the fraction and rounds it half to even (\<^verbatim>\<open>_PyTime_ROUND_HALF_EVEN\<close>).
  The two conversions of the module are those, applied to milliseconds.
\<close>

subsection \<open>The standard library's conversions\<close>

definition total_seconds :: "micros \<Rightarrow> rat" where
  "total_seconds moment = fl (of_int moment / 1000000)"

definition fromtimestamp :: "rat \<Rightarrow> micros" where
  "fromtimestamp t =
     (let intpart = py_int t;
          us = half_even (fl ((t - of_int intpart) * 1000000))
      in intpart * 1000000 + us)"

subsection \<open>The module's conversions\<close>

definition to_epoch_ms :: "micros \<Rightarrow> millis" where
  "to_epoch_ms moment = py_int (fl (total_seconds moment * 1000))"

definition from_epoch_ms :: "millis \<Rightarrow> micros" where
  "from_epoch_ms value = fromtimestamp (fl (of_int value / 1000))"

text \<open>
  The window in which the double arithmetic is exact to the millisecond: from
  2004-11-03T19:53:47.777Z to 2038-01-19T03:14:08Z.
\<close>

definition epoch_lo :: millis where "epoch_lo = 2 ^ 40 + 1"
definition epoch_hi :: millis where "epoch_hi = 2 ^ 31 * 1000"

subsection \<open>Exactness\<close>

lemma total_seconds_error:
  assumes "0 < moment" "moment < 2 ^ 31 * 1000000"
  shows "\<bar>total_seconds moment - of_int moment / 1000000\<bar> \<le> 1 / 8388608"
proof -
  have "of_int moment / 1000000 < (2::rat) powi 31" "0 < (of_int moment / 1000000 :: rat)"
    using assms by (simp_all add: divide_less_eq)
  from fl_error [OF this(2,1)] show ?thesis
    by (simp add: total_seconds_def power_int_def power_divide)
qed

lemma to_epoch_ms_window:
  assumes lo: "epoch_lo * 1000 \<le> moment" and hi: "moment < epoch_hi * 1000"
  shows "to_epoch_ms moment = moment div 1000"
proof -
  define k r where "k = moment div 1000" and "r = moment mod 1000"
  define y where "y = total_seconds moment * 1000"
  have pos: "0 < moment" using lo by (simp add: epoch_lo_def)
  have k_lo: "2 ^ 40 + 1 \<le> k" and k_hi: "k < 2 ^ 41" using lo hi by (auto simp: k_def epoch_lo_def epoch_hi_def)
  have mom: "moment = 1000 * k + r" and r: "0 \<le> r" "r \<le> 999" by (simp_all add: k_def r_def)
  have m: "of_int moment / 1000 = of_int k + (of_int r / 1000 :: rat)" by (simp add: mom)
  have md: "(of_int r :: rat) \<le> 999" "(0::rat) \<le> of_int r" using r by simp_all
  have "\<bar>total_seconds moment - of_int moment / 1000000\<bar> \<le> 1 / 8388608"
    using total_seconds_error [OF pos] hi by (simp add: epoch_hi_def)
  then have "\<bar>y - of_int moment / 1000\<bar> \<le> 1000 / 8388608"
    unfolding y_def by linarith
  then have y_lo: "of_int k - 1000 / 8388608 \<le> y" and y_hi: "y \<le> of_int k + 999 / 1000 + 1000 / 8388608"
    using m md by - (simp only: abs_le_iff, linarith)+
  have "(of_int (2 ^ 40 + 1) :: rat) \<le> of_int k" using k_lo by (simp only: of_int_le_iff)
  then have kr: "1099511627777 \<le> (of_int k :: rat)" by simp
  have "of_int (k * 2 ^ 12) * (2::rat) powi (- 12) \<le> fl y"
  proof (rule fl_near_scaled)
    show "2 powi (- 12 + 52) \<le> y" using y_lo kr by simp
    show "\<bar>k * 2 ^ 12\<bar> \<le> 2 ^ 53" using k_lo k_hi by simp
    show "of_int (k * 2 ^ 12) * 2 powi (- 12) - 2 powi (- 12) / 2 < y"
      using y_lo by (simp add: power_int_minus)
  qed simp
  then have ge: "of_int k \<le> fl y" by (simp add: power_int_minus)
  have "fl y \<le> of_int ((k + 1) * 2 ^ 12 - 1) * 2 powi (- 12)"
  proof (rule fl_le_scaled)
    show "\<bar>(k + 1) * 2 ^ 12 - 1\<bar> \<le> 2 ^ 53" using k_lo k_hi by simp
    show "y \<le> of_int ((k + 1) * 2 ^ 12 - 1) * 2 powi (- 12)" using y_hi by (simp add: power_int_minus field_simps)
  qed simp
  then have lt: "fl y < of_int k + 1" by (simp add: power_int_minus field_simps)
  have "\<lfloor>fl y\<rfloor> = k" using ge lt by (simp add: floor_eq_iff)
  moreover have "0 \<le> fl y" using ge kr by linarith
  ultimately show ?thesis by (simp add: to_epoch_ms_def py_int_def y_def k_def)
qed

lemma from_epoch_ms_window:
  assumes lo: "0 \<le> v" and hi: "v < epoch_hi"
  shows "from_epoch_ms v = v * 1000"
proof -
  define s j where "s = v div 1000" and "j = v mod 1000"
  define t where "t = fl (of_int v / 1000)"
  have v: "v = 1000 * s + j" and j: "0 \<le> j" "j < 1000" and s: "0 \<le> s" "s < 2 ^ 31"
    using lo hi by (auto simp: s_def j_def epoch_hi_def)
  have q: "of_int v / 1000 = of_int s + (of_int j / 1000 :: rat)" by (simp add: v)
  show ?thesis
  proof (cases "j = 0")
    case True
    have "t = of_int s" unfolding t_def q using True fl_of_int [of s] s by simp
    then have "fromtimestamp t = s * 1000000"
      using s by (simp add: fromtimestamp_def py_int_def fl_def half_even_def)
    then show ?thesis using True v unfolding from_epoch_ms_def t_def by simp
  next
    case False
    with j have j1: "1 \<le> j" by simp
    have jr: "(1::rat) \<le> of_int j" "(of_int j :: rat) \<le> 999" "(0::rat) \<le> of_int s" using j1 j s by simp_all
    have "\<bar>t - of_int v / 1000\<bar> \<le> 1 / 8388608"
    proof -
      have "(of_int v :: rat) < 2147483648000" using hi by (simp add: epoch_hi_def)
      then have "of_int v / 1000 < (2::rat) powi 31" by simp
      moreover have "0 < (of_int v / 1000 :: rat)" using q jr by simp
      ultimately show ?thesis using fl_error [of "of_int v / 1000" 31]
        by (simp add: t_def power_int_def power_divide)
    qed
    then have t: "\<bar>t - (of_int s + of_int j / 1000)\<bar> \<le> 1 / 8388608" by (simp only: q)
    then have ts: "of_int s \<le> t" "t < of_int s + 1" using jr by - linarith+
    then have fl_t: "\<lfloor>t\<rfloor> = s" by (simp add: floor_eq_iff)
    define z where "z = (t - of_int s) * 1000000"
    have z: "\<bar>z - of_int (j * 1000)\<bar> \<le> 1000000 / 8388608"
    proof -
      have "z - of_int (j * 1000) = (t - (of_int s + of_int j / 1000)) * 1000000"
        by (simp add: z_def algebra_simps)
      then have "\<bar>z - of_int (j * 1000)\<bar> = \<bar>t - (of_int s + of_int j / 1000)\<bar> * 1000000"
        by (simp only: abs_mult)
      with t show ?thesis by simp
    qed
    moreover have jz: "(1000::rat) \<le> of_int (j * 1000)" "(of_int (j * 1000) :: rat) \<le> 999000" using jr by simp_all
    ultimately have zb: "0 < z" "z < 2 powi 20" by (linarith, simp, linarith)
    have "\<bar>fl z - z\<bar> \<le> 1 / 17179869184"
      using fl_error [OF zb] by (simp add: power_int_def power_divide)
    with z have near: "\<bar>fl z - of_int (j * 1000)\<bar> < 1 / 4" by linarith
    with half_even_bounds [of "fl z"] have "\<bar>of_int (half_even (fl z) - j * 1000)\<bar> < (1::rat)"
      by (simp only: of_int_diff)
    then have "half_even (fl z) = j * 1000" by linarith
    moreover have "0 \<le> t" using ts jr by linarith
    ultimately have "fromtimestamp t = s * 1000000 + j * 1000"
      unfolding z_def by (simp add: fromtimestamp_def py_int_def fl_t)
    then show ?thesis unfolding from_epoch_ms_def t_def by (simp add: v)
  qed
qed

text \<open>
  Inside the window, \<open>to_epoch_ms\<close> drops exactly the sub-millisecond part of a
  moment: the two roundings of \<^verbatim>\<open>int(moment.timestamp() * 1000)\<close> never move the result by
  a millisecond.
\<close>

theorem to_epoch_ms_truncates:
  "epoch_lo * 1000 \<le> moment \<and> moment < epoch_hi * 1000 \<longrightarrow> to_epoch_ms moment = moment div 1000"
  using to_epoch_ms_window by blast

theorem to_epoch_ms_truncates_witness:
  "to_epoch_ms 1789561815123456 = 1789561815123"
  using to_epoch_ms_truncates [of 1789561815123456] by (simp add: epoch_lo_def epoch_hi_def)

text \<open>
  Round trip: a millisecond timestamp inside the window survives the trip through a
  \<^verbatim>\<open>datetime\<close> and back.
\<close>

theorem epoch_ms_round_trip:
  assumes "epoch_lo \<le> v" and "v < epoch_hi"
  shows "from_epoch_ms v = v * 1000 \<and> to_epoch_ms (from_epoch_ms v) = v"
proof -
  have "0 \<le> v" using assms(1) by (simp add: epoch_lo_def)
  then have eq: "from_epoch_ms v = v * 1000" using assms(2) by (rule from_epoch_ms_window)
  moreover have "to_epoch_ms (v * 1000) = v"
    using assms by (subst to_epoch_ms_window) auto
  ultimately show ?thesis by simp
qed

theorem epoch_ms_round_trip_witness:
  "from_epoch_ms 1789561815123 = 1789561815123000 \<and> to_epoch_ms (from_epoch_ms 1789561815123) = 1789561815123"
  using epoch_ms_round_trip [of 1789561815123] by (auto simp: epoch_lo_def epoch_hi_def)

text \<open>
  Outside the window the round trip breaks: the moment 2038-01-19T03:14:08.002Z comes
  back one millisecond early.
\<close>

theorem epoch_ms_round_trip_breaks_in_2038:
  "to_epoch_ms (from_epoch_ms 2147483648002) = 2147483648001"
  by code_simp

end
