(* ===== verification/Geo.thy ===== *)
theory Geo
  imports PyFloat
begin

text \<open>
  \<^verbatim>\<open>src/geotrack/geo.py\<close>: bounding boxes. The frozen dataclass \<^verbatim>\<open>BBox\<close> is a record of the
  four finite coordinates its constructor lets through; the constructor \<open>BBox\<close> takes any
  four floats and performs the checks of \<^verbatim>\<open>__post_init__\<close> in their order. The reading of
  one decimal number in \<^verbatim>\<open>parse\<close> (the built-in \<^verbatim>\<open>float\<close> on text) is the argument
  \<open>float_of\<close>.
\<close>

record bbox =
  west :: rat
  south :: rat
  east :: rat
  north :: rat

datatype value_error =
    BBoxNotFinite | BBoxLongitude | BBoxLatitude | BBoxSouthAboveNorth
  | BBoxNotFourNumbers | BBoxNotNumbers

fun BBox :: "pyfloat \<Rightarrow> pyfloat \<Rightarrow> pyfloat \<Rightarrow> pyfloat \<Rightarrow> value_error + bbox" where
  "BBox (Fin w) (Fin s) (Fin e) (Fin n) =
     (if \<not> (-180 \<le> w \<and> w \<le> 180 \<and> -180 \<le> e \<and> e \<le> 180) then Inl BBoxLongitude
      else if \<not> (-90 \<le> s \<and> s \<le> 90 \<and> -90 \<le> n \<and> n \<le> 90) then Inl BBoxLatitude
      else if s > n then Inl BBoxSouthAboveNorth
      else Inr \<lparr>west = w, south = s, east = e, north = n\<rparr>)"
| "BBox _ _ _ _ = Inl BBoxNotFinite"

fun split_on :: "char \<Rightarrow> string \<Rightarrow> string list" where
  "split_on c [] = [[]]"
| "split_on c (x # xs) =
     (if x = c then [] # split_on c xs
      else (case split_on c xs of [] \<Rightarrow> [[x]] | p # ps \<Rightarrow> (x # p) # ps))"

definition bbox_parse :: "(string \<Rightarrow> pyfloat option) \<Rightarrow> string \<Rightarrow> value_error + bbox" where
  "bbox_parse float_of raw =
     (case split_on CHR '','' raw of
        [a, b, c, d] \<Rightarrow>
          (case (float_of a, float_of b, float_of c, float_of d) of
             (Some w, Some s, Some e, Some n) \<Rightarrow> BBox w s e n
           | _ \<Rightarrow> Inl BBoxNotNumbers)
      | _ \<Rightarrow> Inl BBoxNotFourNumbers)"

definition crosses_antimeridian :: "bbox \<Rightarrow> bool" where
  "crosses_antimeridian b \<longleftrightarrow> west b > east b"

definition parts :: "bbox \<Rightarrow> bbox list" where
  "parts b =
     (if \<not> crosses_antimeridian b then [b]
      else [\<lparr>west = west b, south = south b, east = 180, north = north b\<rparr>,
            \<lparr>west = -180, south = south b, east = east b, north = north b\<rparr>])"

definition bbox_contains :: "bbox \<Rightarrow> rat \<Rightarrow> rat \<Rightarrow> bool" where
  "bbox_contains b lat lon =
     (if \<not> (south b \<le> lat \<and> lat \<le> north b) then False
      else if crosses_antimeridian b then lon \<ge> west b \<or> lon \<le> east b
      else west b \<le> lon \<and> lon \<le> east b)"

subsection \<open>What the constructor establishes\<close>

definition wf_bbox :: "bbox \<Rightarrow> bool" where
  "wf_bbox b \<longleftrightarrow> -180 \<le> west b \<and> west b \<le> 180 \<and> -180 \<le> east b \<and> east b \<le> 180 \<and>
     -90 \<le> south b \<and> south b \<le> north b \<and> north b \<le> 90"

lemma BBox_wf: "BBox w s e n = Inr b \<Longrightarrow> wf_bbox b"
  by (cases "(w, s, e, n)" rule: BBox.cases) (auto simp: wf_bbox_def split: if_splits)

lemma BBox_wf_iff: "wf_bbox b \<longleftrightarrow> BBox (Fin (west b)) (Fin (south b)) (Fin (east b)) (Fin (north b)) = Inr b"
  by (auto simp: wf_bbox_def)

lemma parts_wf: "wf_bbox b \<Longrightarrow> p \<in> set (parts b) \<Longrightarrow> wf_bbox p"
  by (auto simp: parts_def wf_bbox_def split: if_splits)

lemma parts_not_crossing: "wf_bbox b \<Longrightarrow> p \<in> set (parts b) \<Longrightarrow> \<not> crosses_antimeridian p"
  by (auto simp: parts_def crosses_antimeridian_def wf_bbox_def split: if_splits)

lemma parts_contains_iff:
  assumes "-180 \<le> lon" "lon \<le> 180" "wf_bbox b"
  shows "bbox_contains b lat lon \<longleftrightarrow> (\<exists>p \<in> set (parts b). bbox_contains p lat lon)"
  using assms by (auto simp: parts_def bbox_contains_def crosses_antimeridian_def wf_bbox_def)

text \<open>
  Splitting a box at the antimeridian changes nothing: the constructor accepts every
  part, no part crosses the antimeridian, and a position is inside the box exactly when it
  is inside one of the parts. This is what lets the device query compare coordinates part
  by part.
\<close>

theorem parts_partition_the_box:
  assumes "BBox w s e n = Inr b" and "-180 \<le> lon" and "lon \<le> 180"
  shows "list_all (\<lambda>p. BBox (Fin (west p)) (Fin (south p)) (Fin (east p)) (Fin (north p)) = Inr p
           \<and> \<not> crosses_antimeridian p) (parts b) \<and>
         (bbox_contains b lat lon \<longleftrightarrow> list_ex (\<lambda>p. bbox_contains p lat lon) (parts b))"
proof (rule conjI)
  have wf: "wf_bbox b" using assms(1) by (rule BBox_wf)
  show "list_all (\<lambda>p. BBox (Fin (west p)) (Fin (south p)) (Fin (east p)) (Fin (north p)) = Inr p
      \<and> \<not> crosses_antimeridian p) (parts b)"
    using parts_wf [OF wf] parts_not_crossing [OF wf] BBox_wf_iff by (auto simp: list_all_iff)
  show "bbox_contains b lat lon \<longleftrightarrow> list_ex (\<lambda>p. bbox_contains p lat lon) (parts b)"
    using parts_contains_iff [OF assms(2,3) wf] by (simp add: list_ex_iff)
qed

definition pacific_box :: bbox where
  "pacific_box = \<lparr>west = 179, south = -5, east = -179, north = 5\<rparr>"

theorem parts_partition_the_box_witness:
  "length (parts pacific_box) = 2 \<and> bbox_contains pacific_box 0 (-179.5) \<and>
   list_ex (\<lambda>p. bbox_contains p 0 (-179.5)) (parts pacific_box)"
proof -
  have b: "BBox (Fin 179) (Fin (-5)) (Fin (-179)) (Fin 5) = Inr pacific_box"
    by (simp add: pacific_box_def)
  show ?thesis
    using parts_partition_the_box [OF b, of "-179.5" 0]
    by (simp add: bbox_contains_def pacific_box_def parts_def crosses_antimeridian_def)
qed

end
