(* ===== verification/Grid.thy ===== *)
theory Grid
  imports Geo
begin

text \<open>
  \<^verbatim>\<open>src/geotrack/realtime/grid.py\<close>: the cells of the position grid. Every arithmetic step
  is the rounded one of the source, so the edge cases of doubles near the antimeridian are
  those of the program. Rows and columns share one contract, \<open>cell_axis\<close>: an index that
  is monotone on its range.
\<close>

type_synonym cell = "int \<times> int"

record cell_rect =
  min_x :: int
  min_y :: int
  max_x :: int
  max_y :: int

definition rect_contains :: "cell_rect \<Rightarrow> cell \<Rightarrow> bool" where
  "rect_contains r cell =
     (case cell of (x, y) \<Rightarrow> min_x r \<le> x \<and> x \<le> max_x r \<and> min_y r \<le> y \<and> y \<le> max_y r)"

definition wrap_lon :: "rat \<Rightarrow> rat" where
  "wrap_lon lon = fl (pymod (fl (lon + 180)) 360 - 180)"

definition row_of :: "rat \<Rightarrow> rat \<Rightarrow> int" where
  "row_of lat size_deg = \<lfloor>fl (min (max lat (-90)) 90 / size_deg)\<rfloor>"

definition cell_of :: "rat \<Rightarrow> rat \<Rightarrow> rat \<Rightarrow> cell" where
  "cell_of lat lon size_deg = (\<lfloor>fl (wrap_lon lon / size_deg)\<rfloor>, row_of lat size_deg)"

definition nextafter_180 :: rat where
  "nextafter_180 = 180 - 2 powi (- 45)"

definition column_of :: "rat \<Rightarrow> rat \<Rightarrow> int" where
  "column_of lon size_deg =
     (if lon \<ge> 180 then \<lfloor>fl (nextafter_180 / size_deg)\<rfloor>
      else \<lfloor>fl (wrap_lon lon / size_deg)\<rfloor>)"

definition rect :: "bbox \<Rightarrow> rat \<Rightarrow> cell_rect" where
  "rect part size_deg =
     \<lparr>min_x = column_of (west part) size_deg, min_y = row_of (south part) size_deg,
      max_x = column_of (east part) size_deg, max_y = row_of (north part) size_deg\<rparr>"

definition rects_for :: "bbox \<Rightarrow> rat \<Rightarrow> cell_rect list" where
  "rects_for b size_deg = map (\<lambda>part. rect part size_deg) (parts b)"

definition covers :: "cell_rect list \<Rightarrow> cell \<Rightarrow> bool" where
  "covers rects cell \<longleftrightarrow> (\<exists>r \<in> set rects. rect_contains r cell)"

text \<open>
  The double two units below 180. The only double between it and 180 is
  \<^const>\<open>nextafter_180\<close>, whose sum with 180 is a tie that rounds to 360 and so wraps.
\<close>

definition last_east :: rat where
  "last_east = 180 - 2 powi (- 44)"

subsection \<open>The contract of one axis\<close>

locale cell_axis =
  fixes index :: "rat \<Rightarrow> rat \<Rightarrow> int" and lo hi :: rat
  assumes index_mono: "0 < size_deg \<Longrightarrow> lo \<le> a \<Longrightarrow> a \<le> b \<Longrightarrow> b \<le> hi \<Longrightarrow> index a size_deg \<le> index b size_deg"
begin

lemma index_between:
  assumes "0 < size_deg" "lo \<le> a" "a \<le> x" "x \<le> b" "b \<le> hi"
  shows "index a size_deg \<le> index x size_deg" "index x size_deg \<le> index b size_deg"
  using index_mono assms by (meson order_trans)+

end

subsection \<open>Wrapping a longitude is monotone below the antimeridian\<close>

lemma floor_quotient_mono: "0 < s \<Longrightarrow> a \<le> b \<Longrightarrow> \<lfloor>fl (a / s)\<rfloor> \<le> \<lfloor>fl (b / s)\<rfloor>"
  by (intro floor_mono fl_mono divide_right_mono) auto

lemma pymod_id: "0 \<le> x \<Longrightarrow> x < y \<Longrightarrow> pymod x y = x"
proof -
  assume x: "0 \<le> x" "x < y"
  then have "\<lfloor>x / y\<rfloor> = 0" "0 \<le> x / y" by (auto simp: floor_eq_iff)
  with x show ?thesis by (auto simp: pymod_def fmod_def Let_def)
qed

lemma wrap_shift:
  assumes "-180 \<le> lon" "lon \<le> last_east"
  shows "0 \<le> fl (lon + 180)" "fl (lon + 180) \<le> 360 - 2 powi (- 44)"
proof -
  show "0 \<le> fl (lon + 180)" using fl_ge_int [of 0 "lon + 180"] assms by simp
  have "lon + 180 \<le> of_int (360 * 2 ^ 44 - 1) * 2 powi (- 44)"
    using assms(2) by (simp add: last_east_def power_int_minus field_simps)
  from fl_le_scaled [OF _ _ this] show "fl (lon + 180) \<le> 360 - 2 powi (- 44)"
    by (simp add: power_int_minus field_simps)
qed

lemma wrap_lon_eq:
  assumes "-180 \<le> lon" "lon \<le> last_east"
  shows "wrap_lon lon = fl (fl (lon + 180) - 180)"
proof -
  have "fl (lon + 180) < 360" using wrap_shift [OF assms] by (simp add: power_int_minus)
  with wrap_shift [OF assms] show ?thesis by (simp add: wrap_lon_def pymod_id)
qed

lemma wrap_lon_mono: "-180 \<le> a \<Longrightarrow> a \<le> b \<Longrightarrow> b \<le> last_east \<Longrightarrow> wrap_lon a \<le> wrap_lon b"
  by (simp add: wrap_lon_eq fl_mono)

lemma wrap_lon_le_nextafter:
  assumes "-180 \<le> lon" "lon \<le> last_east"
  shows "wrap_lon lon \<le> nextafter_180"
proof -
  have "fl (lon + 180) - 180 \<le> of_int (180 * 2 ^ 45 - 1) * 2 powi (- 45)"
    using wrap_shift(2) [OF assms] by (simp add: power_int_minus field_simps)
  from fl_le_scaled [OF _ _ this] show ?thesis
    by (simp add: wrap_lon_eq [OF assms] nextafter_180_def power_int_minus field_simps)
qed

subsection \<open>Rows and columns implement the contract\<close>

interpretation rows: cell_axis row_of "- 90" 90
  by unfold_locales (auto simp: row_of_def intro!: floor_quotient_mono)

interpretation columns: cell_axis "\<lambda>lon s. \<lfloor>fl (wrap_lon lon / s)\<rfloor>" "- 180" last_east
  by unfold_locales (auto intro!: floor_quotient_mono wrap_lon_mono)

lemma rect_covers:
  assumes s: "0 < s" and wf: "wf_bbox p" and nc: "\<not> crosses_antimeridian p"
    and c: "bbox_contains p lat lon" and lon: "lon \<le> last_east"
    and e: "east p = 180 \<or> east p \<le> last_east"
  shows "rect_contains (rect p s) (cell_of lat lon s)"
proof -
  from c nc have lat: "south p \<le> lat" "lat \<le> north p" and w: "west p \<le> lon" "lon \<le> east p"
    by (auto simp: bbox_contains_def split: if_splits)
  from wf have b: "-90 \<le> south p" "north p \<le> 90" "-180 \<le> west p" by (auto simp: wf_bbox_def)
  have "last_east < 180" by (simp add: last_east_def power_int_minus)
  with w lon have "west p < 180" by linarith
  then have "column_of (west p) s \<le> fst (cell_of lat lon s)"
    using columns.index_between(1) [OF s b(3) w(1) order_refl lon] by (simp add: column_of_def cell_of_def)
  moreover have "fst (cell_of lat lon s) \<le> column_of (east p) s"
  proof (cases "east p = 180")
    case True
    with wrap_lon_le_nextafter [of lon] b w lon s show ?thesis
      by (simp add: column_of_def cell_of_def floor_quotient_mono)
  next
    case False
    with e have "east p \<le> last_east" by simp
    with \<open>last_east < 180\<close> columns.index_between(2) [OF s _ w(1) w(2)] b show ?thesis
      by (simp add: column_of_def cell_of_def)
  qed
  ultimately show ?thesis
    using rows.index_between [OF s b(1) lat b(2)] by (simp add: rect_contains_def rect_def cell_of_def)
qed

lemma covers_contained:
  assumes "0 < s" "wf_bbox b" "bbox_contains b lat lon" "-180 \<le> lon" "lon \<le> last_east"
    and "east b = 180 \<or> east b \<le> last_east"
  shows "covers (rects_for b s) (cell_of lat lon s)"
proof -
  have "last_east \<le> 180" by (simp add: last_east_def power_int_minus)
  with assms parts_contains_iff [of lon b lat] obtain p where p: "p \<in> set (parts b)" "bbox_contains p lat lon"
    by auto
  from p(1) assms(6) have "east p = 180 \<or> east p \<le> last_east" by (auto simp: parts_def split: if_splits)
  with p assms have "rect_contains (rect p s) (cell_of lat lon s)"
    by (intro rect_covers) (auto intro: parts_wf dest: parts_not_crossing)
  with p(1) show ?thesis by (auto simp: covers_def rects_for_def)
qed

text \<open>
  A viewport never misses a device it shows: for every box the constructor accepts,
  every cell size and every position the box contains, the cell rectangles of the box
  cover the cell of the position, through all the roundings of the source. The longitude
  must not be one of the two doubles that wrap, and the east edge must not be the one that
  does.
\<close>

theorem viewport_covers_every_position_inside:
  assumes "BBox w so e no = Inr b" and "0 < size_deg"
    and "bbox_contains b lat lon" and "-180 \<le> lon" and "lon \<le> last_east"
    and "east b = 180 \<or> east b \<le> last_east"
  shows "covers (rects_for b size_deg) (cell_of lat lon size_deg)"
  using assms by (intro covers_contained) (auto intro: BBox_wf)

definition east_box :: bbox where
  "east_box = \<lparr>west = 170, south = -5, east = 180, north = 5\<rparr>"

definition default_cell_deg :: rat where
  "default_cell_deg = fl (5 / 100)"

theorem viewport_covers_every_position_inside_witness:
  "covers (rects_for east_box default_cell_deg) (cell_of 0 179.99 default_cell_deg)"
proof -
  have b: "BBox (Fin 170) (Fin (-5)) (Fin 180) (Fin 5) = Inr east_box"
    by (simp add: east_box_def)
  have "0 < default_cell_deg" by code_simp
  moreover have "(179.99::rat) \<le> last_east" by code_simp
  moreover have "bbox_contains east_box 0 179.99" by code_simp
  ultimately show ?thesis
    using viewport_covers_every_position_inside [OF b, of default_cell_deg 0 "179.99"]
    by (simp add: east_box_def)
qed

text \<open>
  The exception is real: a device reporting longitude 180 is inside the box
  170..180 and yet in no cell the box covers, and the double just below 180 wraps to the
  same western cell.
\<close>

theorem antimeridian_position_is_not_covered:
  "bbox_contains east_box 0 180 \<and>
   \<not> covers (rects_for east_box default_cell_deg) (cell_of 0 180 default_cell_deg) \<and>
   cell_of 0 nextafter_180 default_cell_deg = cell_of 0 (-180) default_cell_deg"
  by code_simp

end
