(* ===== verification/Codec.thy ===== *)
theory Codec
  imports PyFloat
begin

text \<open>
  \<^verbatim>\<open>src/geotrack/messaging/codec.py\<close>: the wire formats of stream entries and of the
  positions channel. The JSON library (orjson) is third-party code: \<open>dumps\<close> and
  \<open>loads\<close> are arguments of the definitions, \<open>loads\<close> returning the decoder's message on
  malformed input. The value type is the one \<^verbatim>\<open>orjson.loads\<close> produces; as in Python, a
  JSON \<^verbatim>\<open>true\<close> passes every \<^verbatim>\<open>isinstance(x, int)\<close> test.
\<close>

datatype json =
    JNull
  | JBool bool
  | JInt int
  | JFloat pyfloat
  | JStr string
  | JList "json list"
  | JObj "(string \<times> json) list"

type_synonym dumps = "json \<Rightarrow> bytes"
type_synonym loads = "bytes \<Rightarrow> string + json"
type_synonym codec_error = string

record location_record =
  lr_device_id :: device_id
  lr_lat :: rat
  lr_lon :: rat
  lr_reported_ms :: millis
  lr_received_ms :: millis

type_synonym position_item = "device_id \<times> rat \<times> rat \<times> millis"

definition lr_position_item :: "location_record \<Rightarrow> position_item" where
  "lr_position_item r = (lr_device_id r, lr_lat r, lr_lon r, lr_reported_ms r)"

definition record_json :: "location_record \<Rightarrow> json" where
  "record_json r =
     JList [JStr (lr_device_id r), JFloat (Fin (lr_lat r)), JFloat (Fin (lr_lon r)),
            JInt (lr_reported_ms r), JInt (lr_received_ms r)]"

definition encode_record :: "dumps \<Rightarrow> location_record \<Rightarrow> bytes" where
  "encode_record dumps r = dumps (record_json r)"

fun as_number :: "json \<Rightarrow> pyfloat option" where
  "as_number (JInt n) = Some (Fin (of_int n))"
| "as_number (JBool b) = Some (Fin (if b then 1 else 0))"
| "as_number (JFloat f) = Some f"
| "as_number _ = None"

fun as_int :: "json \<Rightarrow> int option" where
  "as_int (JInt n) = Some n"
| "as_int (JBool b) = Some (if b then 1 else 0)"
| "as_int _ = None"

definition decode_fields :: "json \<Rightarrow> json \<Rightarrow> json \<Rightarrow> json \<Rightarrow> json \<Rightarrow> codec_error + location_record" where
  "decode_fields device_id lat lon reported_ms received_ms =
     (case device_id of
        JStr d \<Rightarrow>
          if d = [] then Inl ''device_id must be a non-empty string''
          else (case (as_number lat, as_number lon) of
            (Some la, Some lo) \<Rightarrow>
              if \<not> (isfinite la \<and> isfinite lo) then Inl ''latitude and longitude must be finite''
              else (case (la, lo) of
                (Fin a, Fin b) \<Rightarrow>
                  if \<not> (-90 \<le> a \<and> a \<le> 90) \<or> \<not> (-180 \<le> b \<and> b \<le> 180)
                  then Inl ''latitude or longitude out of range''
                  else (case (as_int reported_ms, as_int received_ms) of
                    (Some rep, Some rec) \<Rightarrow>
                      Inr \<lparr>lr_device_id = d, lr_lat = fl a, lr_lon = fl b,
                           lr_reported_ms = rep, lr_received_ms = rec\<rparr>
                  | _ \<Rightarrow> Inl ''timestamps must be integers'')
              | _ \<Rightarrow> Inl ''latitude and longitude must be finite'')
          | _ \<Rightarrow> Inl ''latitude and longitude must be numbers'')
      | _ \<Rightarrow> Inl ''device_id must be a non-empty string'')"

definition decode_record :: "loads \<Rightarrow> bytes \<Rightarrow> codec_error + location_record" where
  "decode_record loads raw =
     (case loads raw of
        Inl msg \<Rightarrow> Inl (''invalid json: '' @ msg)
      | Inr payload \<Rightarrow>
          (case payload of
             JList [d, la, lo, rep, rec] \<Rightarrow> decode_fields d la lo rep rec
           | _ \<Rightarrow> Inl ''record must be a 5-element array''))"

definition item_json :: "position_item \<Rightarrow> json" where
  "item_json i = (case i of (d, la, lo, ms) \<Rightarrow> JList [JStr d, JFloat (Fin la), JFloat (Fin lo), JInt ms])"

definition encode_positions :: "dumps \<Rightarrow> position_item list \<Rightarrow> bytes" where
  "encode_positions dumps items = dumps (JObj [(''items'', JList (map item_json items))])"

subsection \<open>The positions channel\<close>

datatype positions_error = CodecError string | Raised

fun to_float :: "(string \<Rightarrow> pyfloat option) \<Rightarrow> json \<Rightarrow> pyfloat option" where
  "to_float float_of (JInt n) = Some (Fin (fl (of_int n)))"
| "to_float float_of (JBool b) = Some (Fin (if b then 1 else 0))"
| "to_float float_of (JFloat f) = Some f"
| "to_float float_of (JStr s) = float_of s"
| "to_float float_of _ = None"

fun to_int :: "(string \<Rightarrow> int option) \<Rightarrow> json \<Rightarrow> int option" where
  "to_int int_of (JInt n) = Some n"
| "to_int int_of (JBool b) = Some (if b then 1 else 0)"
| "to_int int_of (JFloat (Fin x)) = Some (py_int x)"
| "to_int int_of (JStr s) = int_of s"
| "to_int int_of _ = None"

type_synonym raw_item = "device_id \<times> pyfloat \<times> pyfloat \<times> millis"

definition decode_item ::
  "(string \<Rightarrow> pyfloat option) \<Rightarrow> (string \<Rightarrow> int option) \<Rightarrow> json \<Rightarrow> positions_error + raw_item" where
  "decode_item float_of int_of item =
     (case item of
        JList [d, la, lo, ms] \<Rightarrow>
          (case d of
             JStr s \<Rightarrow>
               (case (to_float float_of la, to_float float_of lo, to_int int_of ms) of
                  (Some a, Some b, Some t) \<Rightarrow> Inr (s, a, b, t)
                | _ \<Rightarrow> Inl Raised)
           | _ \<Rightarrow> Inl (CodecError ''device_id must be a string''))
      | _ \<Rightarrow> Inl (CodecError ''position item must be a 4-element array''))"

fun decode_items ::
  "(string \<Rightarrow> pyfloat option) \<Rightarrow> (string \<Rightarrow> int option) \<Rightarrow> json list \<Rightarrow> positions_error + raw_item list" where
  "decode_items float_of int_of [] = Inr []"
| "decode_items float_of int_of (i # is) =
     (case decode_item float_of int_of i of
        Inl e \<Rightarrow> Inl e
      | Inr x \<Rightarrow> (case decode_items float_of int_of is of Inl e \<Rightarrow> Inl e | Inr xs \<Rightarrow> Inr (x # xs)))"

definition decode_positions ::
  "(string \<Rightarrow> pyfloat option) \<Rightarrow> (string \<Rightarrow> int option) \<Rightarrow> loads \<Rightarrow> bytes \<Rightarrow> positions_error + raw_item list" where
  "decode_positions float_of int_of loads raw =
     (case loads raw of
        Inl msg \<Rightarrow> Inl (CodecError (''invalid json: '' @ msg))
      | Inr payload \<Rightarrow>
          (case (case payload of JObj kvs \<Rightarrow> map_of kvs ''items'' | _ \<Rightarrow> None) of
             Some (JList items) \<Rightarrow> decode_items float_of int_of items
           | _ \<Rightarrow> Inl (CodecError ''positions payload must carry an items array'')))"

definition lift_item :: "position_item \<Rightarrow> raw_item" where
  "lift_item i = (case i of (d, la, lo, ms) \<Rightarrow> (d, Fin la, Fin lo, ms))"

lemma decode_items_json: "decode_items float_of int_of (map item_json items) = Inr (map lift_item items)"
  by (induction items) (auto simp: decode_item_def item_json_def lift_item_def)

lemma decode_encode_positions:
  "loads (encode_positions dumps items) = Inr (JObj [(''items'', JList (map item_json items))]) \<Longrightarrow>
   decode_positions float_of int_of loads (encode_positions dumps items) = Inr (map lift_item items)"
  by (simp add: decode_positions_def decode_items_json)

subsection \<open>Well-formed records\<close>

text \<open>A double is a value the rounding leaves alone; decoded coordinates are doubles.\<close>

definition is_double :: "rat \<Rightarrow> bool" where
  "is_double x \<longleftrightarrow> fl x = x"

definition wf_record :: "location_record \<Rightarrow> bool" where
  "wf_record r \<longleftrightarrow> lr_device_id r \<noteq> [] \<and> is_double (lr_lat r) \<and> is_double (lr_lon r) \<and>
     -90 \<le> lr_lat r \<and> lr_lat r \<le> 90 \<and> -180 \<le> lr_lon r \<and> lr_lon r \<le> 180"

text \<open>What the code relies on of orjson: decoding what it encoded gives the value back.\<close>

definition gives_back :: "dumps \<Rightarrow> loads \<Rightarrow> json \<Rightarrow> bool" where
  "gives_back dumps loads j \<longleftrightarrow> loads (dumps j) = Inr j"

lemma fl_within: "\<bar>n\<bar> \<le> 2 ^ 53 \<Longrightarrow> - of_int n \<le> x \<Longrightarrow> x \<le> of_int n \<Longrightarrow> - of_int n \<le> fl x \<and> fl x \<le> of_int n"
  using fl_ge_int [of "- n" x] fl_le_int [of n x] by simp

lemma decode_fields_wf: "decode_fields d la lo rep rec = Inr r \<Longrightarrow> wf_record r"
  using fl_within [of 90] fl_within [of 180]
  by (auto simp: decode_fields_def wf_record_def is_double_def
      split: json.splits if_splits option.splits pyfloat.splits prod.splits)

text \<open>
  (C34) Round trip: a record that the codec's own rules allow comes back unchanged from its
  stream entry.
\<close>

theorem decode_encode_record:
  assumes "gives_back dumps loads (record_json r)" and "wf_record r"
  shows "decode_record loads (encode_record dumps r) = Inr r"
  using assms
  by (simp add: gives_back_def encode_record_def decode_record_def record_json_def decode_fields_def
      wf_record_def is_double_def)

definition sample_record :: location_record where
  "sample_record = \<lparr>lr_device_id = ''dev-1'', lr_lat = 50.5, lr_lon = 30.5,
     lr_reported_ms = 1700000000000, lr_received_ms = 1700000000050\<rparr>"

theorem decode_encode_record_witness:
  "decode_record (\<lambda>_. Inr (record_json sample_record)) (encode_record (\<lambda>_. ''[]'') sample_record) = Inr sample_record"
proof (rule decode_encode_record)
  show "gives_back (\<lambda>_. ''[]'') (\<lambda>_. Inr (record_json sample_record)) (record_json sample_record)"
    by (simp add: gives_back_def)
  show "wf_record sample_record" by code_simp
qed

text \<open>
  Whatever bytes sit in a stream, a record that decodes has a non-empty device id and
  double coordinates inside the WGS84 ranges; everything else is a codec error.
\<close>

theorem decoded_record_is_wellformed:
  "decode_record loads raw = Inr r \<Longrightarrow> wf_record r"
  by (auto simp: decode_record_def split: sum.splits json.splits list.splits intro: decode_fields_wf)

theorem decoded_record_is_wellformed_witness:
  "decode_record (\<lambda>_. Inr (record_json sample_record)) [] = Inr sample_record \<and> wf_record sample_record"
proof -
  have "decode_record (\<lambda>_. Inr (record_json sample_record)) [] = Inr sample_record" by code_simp
  with decoded_record_is_wellformed [OF this] show ?thesis by simp
qed

end
