(* ===== verification/Sharding.thy ===== *)
theory Sharding
  imports Prelude "HOL-Library.Word"
begin

unbundle bit_operations_syntax

text \<open>
  \<^verbatim>\<open>src/geotrack/sharding.py\<close> and the stream names of \<^verbatim>\<open>messaging/keys.py\<close>. The checksum
  is \<^verbatim>\<open>zlib.crc32\<close>: the reflected CRC-32 with polynomial \<open>0xEDB88320\<close>, on 32-bit words.
  \<^verbatim>\<open>str.encode()\<close> is UTF-8; a character of the model is a code point below 256, so its
  encoding is one or two bytes.
\<close>

type_synonym u32 = "32 word"

definition utf8_char :: "char \<Rightarrow> int list" where
  "utf8_char c = (let n = of_char c in if n < 128 then [n] else [192 + n div 64, 128 + n mod 64])"

definition encode :: "string \<Rightarrow> int list" where
  "encode s = concat (map utf8_char s)"

definition crc_bit :: "u32 \<Rightarrow> u32" where
  "crc_bit c = (if bit c 0 then drop_bit 1 c XOR 0xEDB88320 else drop_bit 1 c)"

definition crc_byte :: "u32 \<Rightarrow> int \<Rightarrow> u32" where
  "crc_byte c b = (crc_bit ^^ 8) (c XOR word_of_int b)"

definition crc32 :: "int list \<Rightarrow> int" where
  "crc32 bs = uint (foldl crc_byte 0xFFFFFFFF bs XOR 0xFFFFFFFF)"

datatype shard_error = ShardsNotPositive

definition shard_for :: "device_id \<Rightarrow> int \<Rightarrow> shard_error + int" where
  "shard_for device_id shards =
     (if shards < 1 then Inl ShardsNotPositive
      else Inr (crc32 (encode device_id) mod shards))"

fun digits :: "nat \<Rightarrow> string" where
  "digits n = (if n < 10 then [char_of (48 + n)] else digits (n div 10) @ [char_of (48 + n mod 10)])"

declare digits.simps [simp del]

definition str_int :: "int \<Rightarrow> string" where
  "str_int i = (if i < 0 then CHR ''-'' # digits (nat (- i)) else digits (nat i))"

definition ingest_stream :: "int \<Rightarrow> string" where
  "ingest_stream shard = ''geo:ingest:'' @ str_int shard"

definition DLQ_STREAM :: string where
  "DLQ_STREAM = ''geo:ingest:dlq''"

definition consumer_name :: "int \<Rightarrow> string" where
  "consumer_name shard = ''shard-'' @ str_int shard"

definition shard_lease_key :: "int \<Rightarrow> string" where
  "shard_lease_key shard = ''geo:lease:shard:'' @ str_int shard"

subsection \<open>The checksum\<close>

lemma crc32_check_value: "crc32 (encode ''a'') = 0xE8B7BE43"
  by code_simp

lemma u32_range: "0 \<le> uint (w :: u32) \<and> uint w < 2 ^ 32"
  using uint_lt2p [of w] by simp

lemma crc32_range: "0 \<le> crc32 bs \<and> crc32 bs < 2 ^ 32"
  unfolding crc32_def by (rule u32_range)

text \<open>
  Every device has one shard, a function of its id alone, inside the configured range;
  only a shard count below one is refused.
\<close>

theorem shard_for_total:
  "shard_for d shards = Inl ShardsNotPositive \<and> shards < 1 \<or>
   (\<exists>s. shard_for d shards = Inr s \<and> 0 \<le> s \<and> s < shards \<and> s \<in> set [0..shards - 1])"
  by (auto simp: shard_for_def)

subsection \<open>Decimal names\<close>

definition decimal_value :: "string \<Rightarrow> nat" where
  "decimal_value s = foldl (\<lambda>acc c. 10 * acc + (of_char c - 48)) 0 s"

lemma decimal_value_digits: "decimal_value (digits n) = n"
proof (induction n rule: digits.induct)
  case (1 n)
  then show ?case
    by (subst digits.simps) (auto simp: decimal_value_def)
qed

lemma digits_inj: "digits m = digits n \<Longrightarrow> m = n"
  by (metis decimal_value_digits)

lemma digits_chars: "c \<in> set (digits n) \<Longrightarrow> of_char c \<in> {48..57::nat}"
proof (induction n rule: digits.induct)
  case (1 n)
  then show ?case
    by (subst (asm) (2) digits.simps) (auto split: if_splits)
qed

lemma str_int_inj: "0 \<le> a \<Longrightarrow> 0 \<le> b \<Longrightarrow> str_int a = str_int b \<Longrightarrow> a = b"
  by (auto simp: str_int_def dest: digits_inj)

text \<open>
  The Redis names keep shards apart: distinct shards have distinct streams, consumer
  names and lease keys, and no shard's stream is the dead-letter stream.
\<close>

theorem shard_names_are_distinct:
  assumes "0 \<le> a" and "0 \<le> b" and "a \<noteq> b"
  shows "ingest_stream a \<noteq> ingest_stream b \<and> consumer_name a \<noteq> consumer_name b \<and>
         shard_lease_key a \<noteq> shard_lease_key b \<and> ingest_stream a \<noteq> DLQ_STREAM"
proof -
  have "str_int a \<noteq> str_int b" using assms str_int_inj by blast
  moreover have "str_int a \<noteq> ''dlq''"
    using digits_chars [of "CHR ''d''" "nat a"] assms(1) by (auto simp: str_int_def)
  ultimately show ?thesis
    by (simp add: ingest_stream_def consumer_name_def shard_lease_key_def DLQ_STREAM_def)
qed

theorem shard_names_are_distinct_witness:
  "ingest_stream 1 \<noteq> ingest_stream 12 \<and> ingest_stream 1 \<noteq> DLQ_STREAM"
  using shard_names_are_distinct [of 1 12] by simp

end
