(* ===== verification/Settings.thy ===== *)
theory Settings
  imports PyFloat "HOL-Library.Sublist"
begin

text \<open>
  \<^verbatim>\<open>src/geotrack/settings.py\<close>: the configuration record with the ranges its fields
  declare, the two scheme validators and the check of the two watermarks. The model holds
  the settings the other components read; building a \<^verbatim>\<open>Settings\<close> object either gives it
  back or lists what was refused, field by field.
\<close>

record settings =
  database_url :: string
  redis_url :: string
  jwt_secret :: string
  jwt_ttl_seconds :: int
  ingest_api_key :: string
  ingest_shards :: int
  ingest_max_batch :: int
  ingest_backlog_high :: int
  ingest_backlog_low :: int
  ingest_backlog_poll_ms :: int
  ingest_max_future_skew_s :: int
  history_retention_days :: int
  db_pool_size :: int
  db_pool_timeout_s :: rat
  db_statement_timeout_ms :: int
  processor_batch_size :: int
  processor_block_ms :: int
  processor_lease_ttl_ms :: int
  processor_http_port :: int
  ws_tick_ms :: int
  ws_control_queue_max :: int
  ws_send_timeout_s :: rat
  ws_device_stale_s :: int
  ws_grid_cell_deg :: rat
  ws_max_sessions_per_user :: int
  geozone_quota_per_user :: int

definition require_asyncpg :: "string \<Rightarrow> bool" where
  "require_asyncpg url \<longleftrightarrow> prefix ''postgresql+asyncpg://'' url"

definition require_redis_scheme :: "string \<Rightarrow> bool" where
  "require_redis_scheme url \<longleftrightarrow> prefix ''redis://'' url \<or> prefix ''rediss://'' url"

definition between :: "int \<Rightarrow> int \<Rightarrow> int \<Rightarrow> bool" where
  "between lo hi x \<longleftrightarrow> lo \<le> x \<and> x \<le> hi"

text \<open>The \<^verbatim>\<open>Field\<close> constraints and the field validators, in declaration order.\<close>

definition field_checks :: "settings \<Rightarrow> (string \<times> bool) list" where
  "field_checks s =
    [(''database_url'', require_asyncpg (database_url s)),
     (''redis_url'', require_redis_scheme (redis_url s)),
     (''jwt_secret'', 32 \<le> length (jwt_secret s)),
     (''jwt_ttl_seconds'', between 60 (30 * 86400) (jwt_ttl_seconds s)),
     (''ingest_api_key'', 16 \<le> length (ingest_api_key s)),
     (''ingest_shards'', between 1 256 (ingest_shards s)),
     (''ingest_max_batch'', between 1 10000 (ingest_max_batch s)),
     (''ingest_backlog_high'', 1 \<le> ingest_backlog_high s),
     (''ingest_backlog_low'', 0 \<le> ingest_backlog_low s),
     (''ingest_backlog_poll_ms'', 10 \<le> ingest_backlog_poll_ms s),
     (''ingest_max_future_skew_s'', 0 \<le> ingest_max_future_skew_s s),
     (''history_retention_days'', between 1 365 (history_retention_days s)),
     (''db_pool_size'', between 1 200 (db_pool_size s)),
     (''db_pool_timeout_s'', 0 < db_pool_timeout_s s),
     (''db_statement_timeout_ms'', 100 \<le> db_statement_timeout_ms s),
     (''processor_batch_size'', between 1 10000 (processor_batch_size s)),
     (''processor_block_ms'', between 10 4000 (processor_block_ms s)),
     (''processor_lease_ttl_ms'', 1000 \<le> processor_lease_ttl_ms s),
     (''processor_http_port'', between 1 65535 (processor_http_port s)),
     (''ws_tick_ms'', between 20 5000 (ws_tick_ms s)),
     (''ws_control_queue_max'', 1 \<le> ws_control_queue_max s),
     (''ws_send_timeout_s'', 0 < ws_send_timeout_s s),
     (''ws_device_stale_s'', 5 \<le> ws_device_stale_s s),
     (''ws_grid_cell_deg'', 0 < ws_grid_cell_deg s \<and> ws_grid_cell_deg s \<le> 10),
     (''ws_max_sessions_per_user'', 1 \<le> ws_max_sessions_per_user s),
     (''geozone_quota_per_user'', 1 \<le> geozone_quota_per_user s)]"

definition check_backlog_watermarks :: "settings \<Rightarrow> bool" where
  "check_backlog_watermarks s \<longleftrightarrow> ingest_backlog_low s < ingest_backlog_high s"

text \<open>A model validator in mode \<^verbatim>\<open>after\<close> runs only when every field was accepted.\<close>

definition build_settings :: "settings \<Rightarrow> string list + settings" where
  "build_settings s =
     (case map fst (filter (\<lambda>c. \<not> snd c) (field_checks s)) of
        [] \<Rightarrow> if check_backlog_watermarks s then Inr s
              else Inl [''ingest_backlog_low must be lower than ingest_backlog_high'']
      | bad \<Rightarrow> Inl bad)"

definition valid_settings :: "settings \<Rightarrow> bool" where
  "valid_settings s \<longleftrightarrow> build_settings s = Inr s"

lemma valid_settings_checks:
  "valid_settings s \<longleftrightarrow> (\<forall>c \<in> set (field_checks s). snd c) \<and> check_backlog_watermarks s"
  by (auto simp: valid_settings_def build_settings_def filter_empty_conv split: list.splits
      dest: map_eq_Cons_D filter_eq_ConsD)

text \<open>The values of \<^verbatim>\<open>settings.py\<close>, with secrets long enough to be accepted.\<close>

definition default_settings :: settings where
  "default_settings =
    \<lparr>database_url = ''postgresql+asyncpg://geotrack@db/geotrack'', redis_url = ''redis://redis:6379/0'',
     jwt_secret = replicate 32 CHR ''s'', jwt_ttl_seconds = 86400, ingest_api_key = replicate 16 CHR ''k'',
     ingest_shards = 8, ingest_max_batch = 1000, ingest_backlog_high = 200000,
     ingest_backlog_low = 100000, ingest_backlog_poll_ms = 250, ingest_max_future_skew_s = 300,
     history_retention_days = 7, db_pool_size = 10, db_pool_timeout_s = 5,
     db_statement_timeout_ms = 5000, processor_batch_size = 1000, processor_block_ms = 1000,
     processor_lease_ttl_ms = 15000, processor_http_port = 9100, ws_tick_ms = 250,
     ws_control_queue_max = 1000, ws_send_timeout_s = 10, ws_device_stale_s = 300,
     ws_grid_cell_deg = fl (5 / 100), ws_max_sessions_per_user = 20, geozone_quota_per_user = 500\<rparr>"

lemma default_settings_valid: "valid_settings default_settings"
  unfolding valid_settings_checks
  by (simp add: field_checks_def default_settings_def between_def require_asyncpg_def
      require_redis_scheme_def check_backlog_watermarks_def) code_simp

end
