(* ===== verification/Database.thy ===== *)
theory Database
  imports Codec Clock "HOL-Library.Product_Lexorder" "HOL-Library.List_Lexorder" "HOL-Library.Char_ord"
begin

text \<open>
  \<^verbatim>\<open>src/geotrack/db/models.py\<close> and \<^verbatim>\<open>db/errors.py\<close>: the tables of migration 0001 and the
  classification of driver errors. A table is an association list from its primary key to
  a record of its other columns; \<open>alerts\<close> is kept in insertion order with the identity
  sequence beside it; \<open>history_partitions\<close> lists the days (counted from the Unix epoch)
  for which \<^verbatim>\<open>location_history\<close> has a partition. A \<^verbatim>\<open>timestamptz\<close> is its number of
  microseconds, a \<^verbatim>\<open>geography(Point)\<close> the pair of its latitude and longitude.

  PostGIS is third-party code. The record \<open>postgis\<close> holds the two functions the
  statements call: \<open>dwithin\<close> for \<^verbatim>\<open>ST_DWithin\<close> and \<open>overlaps c r p\<close> for
  \<^verbatim>\<open>ST_Buffer(c, r, 'quad_segs=8') && p\<close>.
\<close>

type_synonym point = "rat \<times> rat"

datatype alert_kind = ENTER | EXIT | DWELL

record user_row =
  u_username :: string
  u_created_at :: micros

record geozone =
  z_user_id :: uuid
  z_name :: string
  z_color :: string
  z_center :: point
  z_radius_m :: rat
  z_alert_on_enter :: bool
  z_alert_on_exit :: bool
  z_dwell_alert_interval_s :: "int option"
  z_version :: int
  z_created_at :: micros
  z_updated_at :: micros

record device_position =
  dp_position :: point
  dp_reported_at :: micros
  dp_received_at :: micros
  dp_updated_at :: micros

record zone_presence_row =
  zp_entered_at :: micros
  zp_last_seen_at :: micros
  zp_last_alert_at :: micros

record alert_row =
  al_id :: int
  al_user_id :: uuid
  al_zone_id :: "uuid option"
  al_zone_name :: string
  al_device_id :: device_id
  al_kind :: alert_kind
  al_latitude :: rat
  al_longitude :: rat
  al_occurred_at :: micros
  al_created_at :: micros

record history_row =
  h_position :: point
  h_received_at :: micros

record db =
  users :: "(uuid \<times> user_row) list"
  geozones :: "(uuid \<times> geozone) list"
  device_positions :: "(device_id \<times> device_position) list"
  zone_presence :: "((uuid \<times> device_id) \<times> zone_presence_row) list"
  alerts :: "alert_row list"
  alert_seq :: int
  location_history :: "((device_id \<times> micros) \<times> history_row) list"
  history_partitions :: "int list"

record postgis =
  dwithin :: "point \<Rightarrow> point \<Rightarrow> rat \<Rightarrow> bool"
  overlaps :: "point \<Rightarrow> rat \<Rightarrow> point \<Rightarrow> bool"

text \<open>\<^verbatim>\<open>search_area && position AND ST_DWithin(center, position, radius_m)\<close>.\<close>

definition zone_hit :: "postgis \<Rightarrow> geozone \<Rightarrow> point \<Rightarrow> bool" where
  "zone_hit pg z p \<longleftrightarrow>
     overlaps pg (z_center z) (fl (fl (z_radius_m z * fl (102 / 100)) + 1)) p \<and>
     dwithin pg (z_center z) p (z_radius_m z)"

definition day_of :: "micros \<Rightarrow> int" where
  "day_of t = t div 86400000000"

text \<open>\<^verbatim>\<open>to_timestamp(ms / 1000.0)\<close>: the division is exact at microsecond resolution.\<close>

definition to_timestamp :: "millis \<Rightarrow> micros" where
  "to_timestamp ms = ms * 1000"

subsection \<open>Constraints of the schema and invariants of its contents\<close>

definition keyed :: "db \<Rightarrow> bool" where
  "keyed db \<longleftrightarrow> distinct (keys (users db)) \<and> distinct (keys (geozones db)) \<and>
     distinct (keys (device_positions db)) \<and> distinct (keys (zone_presence db)) \<and>
     distinct (keys (location_history db))"

text \<open>
  The foreign keys, and what the statements keep of the contents: a presence row belongs
  to a device whose stored position is the report that last confirmed it, its three times
  are ordered, alert identities grow and stay below the sequence, and archived rows lie
  in an existing partition.
\<close>

definition presence_ok :: "db \<Rightarrow> bool" where
  "presence_ok db \<longleftrightarrow>
     list_all (\<lambda>((zid, d), p). zid \<in> set (keys (geozones db)) \<and>
       zp_entered_at p \<le> zp_last_alert_at p \<and> zp_last_alert_at p \<le> zp_last_seen_at p \<and>
       (case map_of (device_positions db) d of
          None \<Rightarrow> False | Some r \<Rightarrow> zp_last_seen_at p = dp_reported_at r)) (zone_presence db)"

definition alerts_ok :: "db \<Rightarrow> bool" where
  "alerts_ok db \<longleftrightarrow> sorted_wrt (<) (map al_id (alerts db)) \<and> list_all (\<lambda>a. al_id a \<le> alert_seq db) (alerts db)"

definition references_ok :: "db \<Rightarrow> bool" where
  "references_ok db \<longleftrightarrow>
     list_all (\<lambda>(zid, z). z_user_id z \<in> set (keys (users db))) (geozones db) \<and>
     list_all (\<lambda>a. al_user_id a \<in> set (keys (users db)) \<and>
       (case al_zone_id a of None \<Rightarrow> True | Some zid \<Rightarrow> zid \<in> set (keys (geozones db)))) (alerts db)"

definition history_ok :: "db \<Rightarrow> bool" where
  "history_ok db \<longleftrightarrow>
     list_all (\<lambda>((d, ts), h). day_of ts \<in> set (history_partitions db)) (location_history db)"

definition wf_db :: "db \<Rightarrow> bool" where
  "wf_db db \<longleftrightarrow> keyed db \<and> presence_ok db \<and> alerts_ok db \<and> references_ok db \<and> history_ok db"

lemma list_all_table:
  "distinct (keys t) \<Longrightarrow> list_all P t \<longleftrightarrow> (\<forall>k v. map_of t k = Some v \<longrightarrow> P (k, v))"
  by (auto simp: list_all_iff)

subsection \<open>SQLSTATE classification\<close>

definition SERIALIZATION_FAILURE :: string where "SERIALIZATION_FAILURE = ''40001''"
definition DEADLOCK_DETECTED :: string where "DEADLOCK_DETECTED = ''40P01''"
definition FOREIGN_KEY_VIOLATION :: string where "FOREIGN_KEY_VIOLATION = ''23503''"
definition UNIQUE_VIOLATION :: string where "UNIQUE_VIOLATION = ''23505''"
definition CHECK_VIOLATION :: string where "CHECK_VIOLATION = ''23514''"
definition CARDINALITY_VIOLATION :: string where "CARDINALITY_VIOLATION = ''21000''"

definition RETRYABLE_SQLSTATES :: "string list" where
  "RETRYABLE_SQLSTATES = [SERIALIZATION_FAILURE, DEADLOCK_DETECTED, FOREIGN_KEY_VIOLATION]"

text \<open>
  An exception object has an identity, so the chain that \<open>sqlstate_of\<close> walks may be
  cyclic. The objects live in a store from identities to nodes; \<open>e_sqlstate\<close> is the
  attribute when it is a string.
\<close>

record exc_node =
  e_sqlstate :: "string option"
  e_orig :: "nat option"
  e_cause :: "nat option"

function sqlstate_walk :: "(nat \<times> exc_node) list \<Rightarrow> nat list \<Rightarrow> nat option \<Rightarrow> string option" where
  "sqlstate_walk store seen current =
     (case current of
        None \<Rightarrow> None
      | Some i \<Rightarrow>
          (if i \<in> set seen then None
           else (case map_of store i of
             None \<Rightarrow> None
           | Some node \<Rightarrow>
               (case e_sqlstate node of
                  Some (c # cs) \<Rightarrow> Some (c # cs)
                | _ \<Rightarrow> sqlstate_walk store (i # seen)
                    (case e_orig node of Some j \<Rightarrow> Some j | None \<Rightarrow> e_cause node)))))"
  by pat_completeness auto
termination
proof (relation "measure (\<lambda>(store, seen, current). card (set (keys store) - set seen))", simp, goal_cases)
  case (1 store seen current i node)
  then have "i \<in> set (keys store) - set seen" by (force dest: map_of_SomeD)
  then have "set (keys store) - set (i # seen) \<subset> set (keys store) - set seen" by auto
  then show ?case by (simp add: psubset_card_mono)
next
  case (2 store seen current i node)
  then have "i \<in> set (keys store) - set seen" by (force dest: map_of_SomeD)
  then have "set (keys store) - set (i # seen) \<subset> set (keys store) - set seen" by auto
  then show ?case by (simp add: psubset_card_mono)
qed

declare sqlstate_walk.simps [simp del]

definition sqlstate_of :: "(nat \<times> exc_node) list \<Rightarrow> nat \<Rightarrow> string option" where
  "sqlstate_of store exc = sqlstate_walk store [] (Some exc)"

end
