(* ===== verification/Batch.thy ===== *)
theory Batch
  imports Database Settings Sharding
begin

text \<open>
  \<^verbatim>\<open>src/geotrack/processor/batch.py\<close>: how a batch of reports becomes committed state.

  The SQL is modelled clause by clause. Every common table expression of
  \<^verbatim>\<open>APPLY_BATCH_SQL\<close> is a definition with its name; all of them read the snapshot the
  statement started from and the rows its data-modifying expressions return, as in
  PostgreSQL. Only \<open>new_alerts\<close> is ordered by the source; the order of the other row
  lists is one the model fixes. An error of a statement is its SQLSTATE, and a failed
  transaction leaves the tables as they were, except for the identity sequence of
  \<^verbatim>\<open>alerts\<close>, which PostgreSQL never winds back.
\<close>

type_synonym sqlstate = string

definition MAX_ATTEMPTS :: int where "MAX_ATTEMPTS = 5"
definition RETRY_BASE_DELAY_S :: rat where "RETRY_BASE_DELAY_S = fl (25 / 1000)"
definition MIN_DEVICE_ID_LENGTH :: nat where "MIN_DEVICE_ID_LENGTH = 1"
definition MAX_DEVICE_ID_LENGTH :: nat where "MAX_DEVICE_ID_LENGTH = 64"
definition LOCK_NOT_AVAILABLE :: sqlstate where "LOCK_NOT_AVAILABLE = ''55P03''"
definition LOCK_WAIT_STATEMENTS :: int where "LOCK_WAIT_STATEMENTS = 3"

definition BATCH_RETRYABLE_SQLSTATES :: "sqlstate list" where
  "BATCH_RETRYABLE_SQLSTATES = LOCK_NOT_AVAILABLE # RETRYABLE_SQLSTATES"

definition device_char :: "char \<Rightarrow> bool" where
  "device_char c \<longleftrightarrow>
     (CHR ''A'' \<le> c \<and> c \<le> CHR ''Z'') \<or> (CHR ''a'' \<le> c \<and> c \<le> CHR ''z'') \<or>
     (CHR ''0'' \<le> c \<and> c \<le> CHR ''9'') \<or> c \<in> set ''._:-''"

definition DEVICE_ID_RE :: "string \<Rightarrow> bool" where
  "DEVICE_ID_RE s \<longleftrightarrow>
     MIN_DEVICE_ID_LENGTH \<le> length s \<and> length s \<le> MAX_DEVICE_ID_LENGTH \<and> list_all device_char s"

subsection \<open>Binding a batch\<close>

record statement_params =
  device_ids :: "device_id list"
  lats :: "rat list"
  lons :: "rat list"
  reported_mss :: "millis list"
  received_mss :: "millis list"

definition statement_params :: "location_record list \<Rightarrow> statement_params" where
  "statement_params records =
     \<lparr>device_ids = map lr_device_id records, lats = map lr_lat records, lons = map lr_lon records,
      reported_mss = map lr_reported_ms records, received_mss = map lr_received_ms records\<rparr>"

record input_row =
  i_device_id :: device_id
  i_position :: point
  i_reported_at :: micros
  i_received_at :: micros

text \<open>\<^verbatim>\<open>unnest\<close> over the five arrays, with the casts of the \<^verbatim>\<open>SELECT\<close> list.\<close>

definition input :: "statement_params \<Rightarrow> input_row list" where
  "input ps =
     map (\<lambda>(d, la, lo, rep, rec). \<lparr>i_device_id = d, i_position = (la, lo),
            i_reported_at = to_timestamp rep, i_received_at = to_timestamp rec\<rparr>)
       (zip (device_ids ps) (zip (lats ps) (zip (lons ps) (zip (reported_mss ps) (received_mss ps)))))"

definition input_of :: "location_record \<Rightarrow> input_row" where
  "input_of r = \<lparr>i_device_id = lr_device_id r, i_position = (lr_lat r, lr_lon r),
     i_reported_at = to_timestamp (lr_reported_ms r), i_received_at = to_timestamp (lr_received_ms r)\<rparr>"

lemma input_statement_params [simp]: "input (statement_params rs) = map input_of rs"
  by (induction rs) (auto simp: input_def statement_params_def input_of_def)

subsection \<open>Archiving: INSERT_HISTORY_SQL\<close>

fun insert_history :: "input_row list \<Rightarrow> db \<Rightarrow> sqlstate + db" where
  "insert_history [] db = Inr db"
| "insert_history (r # rs) db =
     (if day_of (i_reported_at r) \<notin> set (history_partitions db) then Inl CHECK_VIOLATION
      else let key = (i_device_id r, i_reported_at r) in
        insert_history rs
          (case map_of (location_history db) key of
             Some _ \<Rightarrow> db
           | None \<Rightarrow> db\<lparr>location_history := location_history db @
               [(key, \<lparr>h_position = i_position r, h_received_at = i_received_at r\<rparr>)]\<rparr>))"

subsection \<open>The set-based statement: APPLY_BATCH_SQL\<close>

text \<open>
  \<open>accepted\<close> inserts row by row. PostgreSQL refuses a row the same command already wrote
  (\<^verbatim>\<open>21000\<close>), and the check on the length of the id comes before the conflict test.
\<close>

fun accepted ::
  "micros \<Rightarrow> device_id list \<Rightarrow> input_row list \<Rightarrow> (device_id \<times> device_position) list \<Rightarrow>
   sqlstate + (input_row list \<times> (device_id \<times> device_position) list)" where
  "accepted now touched [] dp = Inr ([], dp)"
| "accepted now touched (r # rs) dp =
     (let d = i_device_id r;
          row = \<lparr>dp_position = i_position r, dp_reported_at = i_reported_at r,
                 dp_received_at = i_received_at r, dp_updated_at = now\<rparr>
      in if \<not> (1 \<le> length d \<and> length d \<le> 64) then Inl CHECK_VIOLATION
         else if d \<in> set touched then Inl CARDINALITY_VIOLATION
         else if (case map_of dp d of None \<Rightarrow> True | Some old \<Rightarrow> dp_reported_at old < i_reported_at r)
         then (case accepted now (d # touched) rs (AList.update d row dp) of
                 Inl e \<Rightarrow> Inl e | Inr (acc, dp') \<Rightarrow> Inr (r # acc, dp'))
         else accepted now touched rs dp)"

type_synonym hit = "input_row \<times> uuid \<times> geozone"

definition hits :: "postgis \<Rightarrow> (uuid \<times> geozone) list \<Rightarrow> input_row list \<Rightarrow> hit list" where
  "hits pg zones acc =
     concat (map (\<lambda>a. map (\<lambda>(zid, z). (a, zid, z))
                      (filter (\<lambda>(zid, z). zone_hit pg z (i_position a)) zones)) acc)"

datatype transition_state = Enter | Stay | Exit

record transition =
  t_zone_id :: uuid
  t_device_id :: device_id
  t_user_id :: uuid
  t_zone_name :: string
  t_position :: point
  t_reported_at :: micros
  t_alert_on_enter :: bool
  t_alert_on_exit :: bool
  t_dwell_alert_interval_s :: "int option"
  t_last_alert_at :: "micros option"
  t_state :: transition_state

definition mk_transition ::
  "input_row \<Rightarrow> uuid \<Rightarrow> geozone \<Rightarrow> micros option \<Rightarrow> transition_state \<Rightarrow> transition" where
  "mk_transition a zid z last_alert st =
     \<lparr>t_zone_id = zid, t_device_id = i_device_id a, t_user_id = z_user_id z, t_zone_name = z_name z,
      t_position = i_position a, t_reported_at = i_reported_at a,
      t_alert_on_enter = z_alert_on_enter z, t_alert_on_exit = z_alert_on_exit z,
      t_dwell_alert_interval_s = z_dwell_alert_interval_s z,
      t_last_alert_at = last_alert, t_state = st\<rparr>"

type_synonym presence_table = "((uuid \<times> device_id) \<times> zone_presence_row) list"

definition inside_transitions :: "presence_table \<Rightarrow> hit list \<Rightarrow> transition list" where
  "inside_transitions zp hs =
     map (\<lambda>(a, zid, z).
       case map_of zp (zid, i_device_id a) of
         None \<Rightarrow> mk_transition a zid z None Enter
       | Some p \<Rightarrow> mk_transition a zid z (Some (zp_last_alert_at p)) Stay) hs"

definition exit_transitions ::
  "(uuid \<times> geozone) list \<Rightarrow> presence_table \<Rightarrow> hit list \<Rightarrow> input_row list \<Rightarrow> transition list" where
  "exit_transitions zones zp hs acc =
     concat (map (\<lambda>a. concat (map (\<lambda>((zid, d), p).
         case map_of zones zid of
           None \<Rightarrow> []
         | Some z \<Rightarrow>
             if d = i_device_id a \<and>
                \<not> (\<exists>h \<in> set hs. fst (snd h) = zid \<and> i_device_id (fst h) = d)
             then [mk_transition a zid z (Some (zp_last_alert_at p)) Exit] else []) zp)) acc)"

definition transitions ::
  "postgis \<Rightarrow> db \<Rightarrow> input_row list \<Rightarrow> transition list" where
  "transitions pg db acc =
     (let hs = hits pg (geozones db) acc
      in inside_transitions (zone_presence db) hs @
         exit_transitions (geozones db) (zone_presence db) hs acc)"

definition make_interval :: "int \<Rightarrow> micros" where
  "make_interval secs = secs * 1000000"

definition event_kind :: "transition \<Rightarrow> alert_kind option" where
  "event_kind t =
     (if t_state t = Enter \<and> t_alert_on_enter t then Some ENTER
      else if t_state t = Exit \<and> t_alert_on_exit t then Some EXIT
      else if t_state t = Stay \<and>
        (case (t_dwell_alert_interval_s t, t_last_alert_at t) of
           (Some s, Some l) \<Rightarrow> l + make_interval s \<le> t_reported_at t
         | _ \<Rightarrow> False) then Some DWELL
      else None)"

definition next_last_alert :: "transition \<Rightarrow> micros" where
  "next_last_alert t =
     (case (if event_kind t = Some DWELL then Some (t_reported_at t) else t_last_alert_at t) of
        Some l \<Rightarrow> l | None \<Rightarrow> t_reported_at t)"

definition presence_upsert :: "transition list \<Rightarrow> presence_table \<Rightarrow> presence_table" where
  "presence_upsert ts zp =
     upsert_all (map (\<lambda>t. ((t_zone_id t, t_device_id t), \<lambda>old.
         case old of
           None \<Rightarrow> \<lparr>zp_entered_at = t_reported_at t, zp_last_seen_at = t_reported_at t,
                    zp_last_alert_at = next_last_alert t\<rparr>
         | Some p \<Rightarrow> p\<lparr>zp_last_seen_at := t_reported_at t, zp_last_alert_at := next_last_alert t\<rparr>))
       (filter (\<lambda>t. t_state t \<noteq> Exit) ts)) zp"

definition presence_delete :: "transition list \<Rightarrow> presence_table \<Rightarrow> presence_table" where
  "presence_delete ts zp =
     delete_all (map (\<lambda>t. (t_zone_id t, t_device_id t)) (filter (\<lambda>t. t_state t = Exit) ts)) zp"

fun number_alerts :: "micros \<Rightarrow> int \<Rightarrow> (transition \<times> alert_kind) list \<Rightarrow> alert_row list" where
  "number_alerts now seq [] = []"
| "number_alerts now seq ((t, k) # es) =
     \<lparr>al_id = seq + 1, al_user_id = t_user_id t, al_zone_id = Some (t_zone_id t),
      al_zone_name = t_zone_name t, al_device_id = t_device_id t, al_kind = k,
      al_latitude = fst (t_position t), al_longitude = snd (t_position t),
      al_occurred_at = t_reported_at t, al_created_at = now\<rparr> # number_alerts now (seq + 1) es"

definition events :: "transition list \<Rightarrow> (transition \<times> alert_kind) list" where
  "events ts = concat (map (\<lambda>t. case event_kind t of None \<Rightarrow> [] | Some k \<Rightarrow> [(t, k)]) ts)"

definition event_order :: "transition \<times> alert_kind \<Rightarrow> micros \<times> uuid \<times> device_id" where
  "event_order e = (t_reported_at (fst e), t_zone_id (fst e), t_device_id (fst e))"

definition new_alerts :: "micros \<Rightarrow> int \<Rightarrow> transition list \<Rightarrow> alert_row list" where
  "new_alerts now seq ts = number_alerts now seq (sort_key event_order (events ts))"

datatype result_row = PositionRow input_row | AlertResult alert_row

definition apply_batch_sql ::
  "postgis \<Rightarrow> micros \<Rightarrow> input_row list \<Rightarrow> db \<Rightarrow> sqlstate + (db \<times> result_row list)" where
  "apply_batch_sql pg now inp db =
     (case accepted now [] inp (device_positions db) of
        Inl e \<Rightarrow> Inl e
      | Inr (acc, dp') \<Rightarrow>
          let ts = transitions pg db acc;
              new = new_alerts now (alert_seq db) ts
          in Inr (db\<lparr>device_positions := dp',
                     zone_presence := presence_delete ts (presence_upsert ts (zone_presence db)),
                     alerts := alerts db @ new,
                     alert_seq := alert_seq db + int (length new)\<rparr>,
                  map PositionRow acc @ map AlertResult new))"

subsection \<open>The processor's own functions\<close>

record rejected_record =
  rj_index :: int
  rj_record :: location_record
  rj_reason :: string

record batch_result =
  br_accepted :: "position_item list"
  br_alerts :: "alert_row list"
  br_stale :: int
  br_rejected :: "rejected_record list"

definition is_empty :: "batch_result \<Rightarrow> bool" where
  "is_empty r \<longleftrightarrow> br_accepted r = [] \<and> br_alerts r = []"

definition keep_newest ::
  "location_record \<Rightarrow> (device_id \<times> location_record) list \<Rightarrow> (device_id \<times> location_record) list" where
  "keep_newest r newest =
     (case map_of newest (lr_device_id r) of
        None \<Rightarrow> AList.update (lr_device_id r) r newest
      | Some current \<Rightarrow>
          if lr_reported_ms current < lr_reported_ms r then AList.update (lr_device_id r) r newest
          else newest)"

definition latest_per_device :: "location_record list \<Rightarrow> location_record list" where
  "latest_per_device records = map snd (foldl (\<lambda>newest r. keep_newest r newest) [] records)"

record pg_session =
  ss_lock_timeout :: int
  ss_statement_timeout :: int
  ss_advisory_locks :: "int list"

definition take_shard_lock ::
  "int \<Rightarrow> int \<Rightarrow> int \<Rightarrow> bool \<Rightarrow> pg_session \<Rightarrow> sqlstate + pg_session" where
  "take_shard_lock shard wait_ms statement_ms granted s =
     (let waiting = s\<lparr>ss_lock_timeout := wait_ms, ss_statement_timeout := 0\<rparr>
      in if \<not> granted then Inl LOCK_NOT_AVAILABLE
         else Inr (waiting\<lparr>ss_advisory_locks := shard # ss_advisory_locks s,
                           ss_statement_timeout := statement_ms\<rparr>))"

definition should_retry :: "sqlstate option \<Rightarrow> int \<Rightarrow> int \<Rightarrow> bool" where
  "should_retry state attempt max_attempts \<longleftrightarrow>
     (case state of None \<Rightarrow> False | Some c \<Rightarrow> c \<in> set BATCH_RETRYABLE_SQLSTATES) \<and>
     attempt < max_attempts"

text \<open>\<^verbatim>\<open>random.uniform(a, b)\<close> is \<open>a + (b - a) * u\<close> for a draw \<open>u\<close> from the unit interval.\<close>

definition uniform :: "rat \<Rightarrow> rat \<Rightarrow> rat \<Rightarrow> rat" where
  "uniform u a b = fl (a + fl (fl (b - a) * u))"

definition retry_delay :: "rat \<Rightarrow> int \<Rightarrow> rat" where
  "retry_delay u attempt =
     (let ceiling = fl (RETRY_BASE_DELAY_S * 2 ^ nat (attempt - 1))
      in uniform u (fl (ceiling / 2)) ceiling)"

definition unstorable_reason :: "location_record \<Rightarrow> millis \<Rightarrow> millis \<Rightarrow> string option" where
  "unstorable_reason r oldest newest =
     (if \<not> DEVICE_ID_RE (lr_device_id r) then
        Some (''device_id must be between 1 and 64 characters long and made of A-Z a-z 0-9 . _ : -'')
      else if lr_reported_ms r < oldest then
        Some ''report timestamp is older than the history retention window''
      else if newest < lr_reported_ms r then Some ''report timestamp is too far in the future''
      else None)"

definition history_oldest :: "settings \<Rightarrow> millis \<Rightarrow> millis" where
  "history_oldest cfg now = now - history_retention_days cfg * 86400000"

definition history_newest :: "settings \<Rightarrow> millis \<Rightarrow> millis" where
  "history_newest cfg now = now + ingest_max_future_skew_s cfg * 1000"

definition split_storable ::
  "settings \<Rightarrow> millis \<Rightarrow> location_record list \<Rightarrow> location_record list \<times> rejected_record list" where
  "split_storable cfg now records =
     (let verdict = \<lambda>r. unstorable_reason r (history_oldest cfg now) (history_newest cfg now)
      in (filter (\<lambda>r. verdict r = None) records,
          concat (map (\<lambda>(i, r). case verdict r of
                         None \<Rightarrow> []
                       | Some why \<Rightarrow> [\<lparr>rj_index = int i, rj_record = r, rj_reason = why\<rparr>])
                    (enumerate 0 records))))"

text \<open>
  What the outside world does during one attempt: the transactions other processors commit
  before it gets the shard lock, whether the lock is granted in time, the transaction's
  clock, and a driver error. \<open>RolledBack\<close> is an error the server answers with a rollback,
  after \<open>burned\<close> identities were drawn; \<open>LostCommit\<close> is a connection that breaks after
  the server has committed.
\<close>

datatype fault = RolledBack "sqlstate option" nat | LostCommit "sqlstate option"

record attempt_env =
  at_world :: "db \<Rightarrow> db"
  at_granted :: bool
  at_now :: micros
  at_fault :: "fault option"

record batch_processor =
  bp_settings :: settings
  bp_max_attempts :: int
  bp_statement_ms :: int
  bp_lock_wait_ms :: int

definition batch_processor_init :: "settings \<Rightarrow> int \<Rightarrow> int option \<Rightarrow> batch_processor" where
  "batch_processor_init cfg max_attempts lock_wait_ms =
     \<lparr>bp_settings = cfg, bp_max_attempts = max_attempts,
      bp_statement_ms = db_statement_timeout_ms cfg,
      bp_lock_wait_ms =
        (case lock_wait_ms of
           Some w \<Rightarrow> if w = 0 then LOCK_WAIT_STATEMENTS * db_statement_timeout_ms cfg else w
         | None \<Rightarrow> LOCK_WAIT_STATEMENTS * db_statement_timeout_ms cfg)\<rparr>"

definition row_item :: "input_row \<Rightarrow> position_item" where
  "row_item a = (i_device_id a, fst (i_position a), snd (i_position a), to_epoch_ms (i_reported_at a))"

definition collect_rows :: "result_row list \<Rightarrow> position_item list \<times> alert_row list" where
  "collect_rows rows =
     (concat (map (\<lambda>r. case r of PositionRow a \<Rightarrow> [row_item a] | AlertResult _ \<Rightarrow> []) rows),
      concat (map (\<lambda>r. case r of PositionRow _ \<Rightarrow> [] | AlertResult a \<Rightarrow> [a]) rows))"

text \<open>The body of the transaction, and the transaction with its commit or rollback.\<close>

definition batch_transaction ::
  "batch_processor \<Rightarrow> postgis \<Rightarrow> int \<Rightarrow> attempt_env \<Rightarrow> location_record list \<Rightarrow> location_record list \<Rightarrow>
   pg_session \<Rightarrow> db \<Rightarrow> sqlstate + (db \<times> result_row list)" where
  "batch_transaction bp pg shard env storable deduped session db =
     (case take_shard_lock shard (bp_lock_wait_ms bp) (bp_statement_ms bp) (at_granted env) session of
        Inl e \<Rightarrow> Inl e
      | Inr session' \<Rightarrow>
          (case insert_history (input (statement_params storable)) db of
             Inl e \<Rightarrow> Inl e
           | Inr db' \<Rightarrow> apply_batch_sql pg (at_now env) (input (statement_params deduped)) db'))"

definition apply_once ::
  "batch_processor \<Rightarrow> postgis \<Rightarrow> int \<Rightarrow> attempt_env \<Rightarrow> location_record list \<Rightarrow> location_record list \<Rightarrow>
   db \<Rightarrow> (sqlstate option + (position_item list \<times> alert_row list)) \<times> db" where
  "apply_once bp pg shard env storable deduped db0 =
     (let db = at_world env db0;
          session = \<lparr>ss_lock_timeout = 0, ss_statement_timeout = bp_statement_ms bp,
                     ss_advisory_locks = []\<rparr>
      in case batch_transaction bp pg shard env storable deduped session db of
           Inl e \<Rightarrow> (Inl (Some e), db)
         | Inr (db', rows) \<Rightarrow>
             (case at_fault env of
                None \<Rightarrow> (Inr (collect_rows rows), db')
              | Some (LostCommit e) \<Rightarrow> (Inl e, db')
              | Some (RolledBack e burned) \<Rightarrow>
                  (Inl e, db\<lparr>alert_seq := alert_seq db + int burned\<rparr>)))"

function apply_loop ::
  "batch_processor \<Rightarrow> postgis \<Rightarrow> int \<Rightarrow> (int \<Rightarrow> attempt_env) \<Rightarrow> location_record list \<Rightarrow>
   location_record list \<Rightarrow> int \<Rightarrow> db \<Rightarrow>
   (sqlstate option + (position_item list \<times> alert_row list)) \<times> db" where
  "apply_loop bp pg shard envs storable deduped attempt db =
     (case apply_once bp pg shard (envs attempt) storable deduped db of
        (Inr out, db') \<Rightarrow> (Inr out, db')
      | (Inl state, db') \<Rightarrow>
          if should_retry state (attempt + 1) (bp_max_attempts bp)
          then apply_loop bp pg shard envs storable deduped (attempt + 1) db'
          else (Inl state, db'))"
  by pat_completeness auto
termination
  by (relation "measure (\<lambda>(bp, pg, shard, envs, storable, deduped, attempt, db).
        nat (bp_max_attempts bp - attempt))")
     (auto simp: should_retry_def)

declare apply_loop.simps [simp del]

definition apply_batch ::
  "batch_processor \<Rightarrow> postgis \<Rightarrow> int \<Rightarrow> millis \<Rightarrow> (int \<Rightarrow> attempt_env) \<Rightarrow> location_record list \<Rightarrow>
   db \<Rightarrow> (sqlstate option + batch_result) \<times> db" where
  "apply_batch bp pg shard now envs records db =
     (case split_storable (bp_settings bp) now records of (storable, rejected) \<Rightarrow>
        if storable = [] then
          (Inr \<lparr>br_accepted = [], br_alerts = [], br_stale = 0, br_rejected = rejected\<rparr>, db)
        else
          (case apply_loop bp pg shard envs storable (latest_per_device storable) 0 db of
             (Inl state, db') \<Rightarrow> (Inl state, db')
           | (Inr (acc, new), db') \<Rightarrow>
               (Inr \<lparr>br_accepted = acc, br_alerts = new,
                     br_stale = int (length storable) - int (length acc),
                     br_rejected = rejected\<rparr>, db')))"

text \<open>The counters \<^verbatim>\<open>_observe\<close> moves.\<close>

record processor_metrics =
  m_batches_total :: int
  m_batch_sizes :: "int list"
  m_reports_total :: int
  m_stale_reports_total :: int
  m_alerts_total :: "alert_kind \<Rightarrow> int"
  m_end_to_end_ms :: "int list"

definition observe ::
  "millis \<Rightarrow> location_record list \<Rightarrow> position_item list \<Rightarrow> alert_row list \<Rightarrow> int \<Rightarrow>
   processor_metrics \<Rightarrow> processor_metrics" where
  "observe committed_ms storable acc new stale m =
     m\<lparr>m_batches_total := m_batches_total m + 1,
       m_batch_sizes := m_batch_sizes m @ [int (length storable)],
       m_reports_total := m_reports_total m + int (length acc),
       m_stale_reports_total := (if stale \<noteq> 0 then m_stale_reports_total m + stale else m_stale_reports_total m),
       m_alerts_total := (\<lambda>k. m_alerts_total m k + int (length (filter (\<lambda>a. al_kind a = k) new))),
       m_end_to_end_ms := m_end_to_end_ms m @ map (\<lambda>r. committed_ms - lr_received_ms r) storable\<rparr>"

end
