(* ===== verification/Geofence.thy ===== *)
theory Geofence
  imports Batch
begin

text \<open>
  What the set-based statement of \<^verbatim>\<open>processor/batch.py\<close> promises. The abstract machine is
  one small step per pair of a zone and a device: \<open>geofence_step\<close>. The main lemma is that
  the statement, with all its joins, does exactly this step for every pair of the batch
  at once and touches nothing else. Replay, dwell pacing and the accounting of a batch
  follow from it.
\<close>

subsection \<open>Generic facts\<close>

lemma filter_key_singleton:
  "distinct (map f xs) \<Longrightarrow>
   filter (\<lambda>x. f x = k) xs = (case find (\<lambda>x. f x = k) xs of None \<Rightarrow> [] | Some x \<Rightarrow> [x])"
proof (induction xs)
  case (Cons x xs)
  show ?case
  proof (cases "f x = k")
    case True
    with Cons.prems have "filter (\<lambda>x. f x = k) xs = []" by (auto simp: filter_empty_conv image_iff)
    with True show ?thesis by simp
  qed (use Cons in simp)
qed simp

lemma distinct_by_filter: "(\<And>k. length (filter (\<lambda>x. f x = k) xs) \<le> 1) \<Longrightarrow> distinct (map f xs)"
proof (induction xs)
  case (Cons x xs)
  have "length (filter (\<lambda>y. f y = k) xs) \<le> 1" for k
    using Cons.prems [of k] by (auto split: if_splits)
  moreover have "f x \<notin> f ` set xs"
  proof
    assume "f x \<in> f ` set xs"
    then have "filter (\<lambda>y. f y = f x) xs \<noteq> []" by (force simp: filter_empty_conv)
    then have "0 < length (filter (\<lambda>y. f y = f x) xs)" by blast
    with Cons.prems [of "f x"] show False by simp
  qed
  ultimately show ?case using Cons.IH by simp
qed simp

lemma map_of_by_filter:
  "map_of (map (\<lambda>x. (f x, g x)) xs) k = (case filter (\<lambda>x. f x = k) xs of [] \<Rightarrow> None | x # _ \<Rightarrow> Some (g x))"
  by (induction xs) auto

lemma concat_map_only:
  "(\<And>x. x \<in> set xs \<Longrightarrow> \<not> P x \<Longrightarrow> g x = []) \<Longrightarrow> concat (map g xs) = concat (map g (filter P xs))"
  by (induction xs) auto

lemma find_filter: "find P (filter Q xs) = find (\<lambda>x. P x \<and> Q x) xs"
  by (induction xs) auto

lemma find_SomeD: "find P xs = Some x \<Longrightarrow> P x \<and> x \<in> set xs"
  by (induction xs) (auto split: if_splits)

lemma find_map_of: "find (\<lambda>x. fst x = k) xs = map_option (Pair k) (map_of xs k)"
  by (induction xs) auto

lemma filter_eq_fst: "distinct (keys t) \<Longrightarrow> filter (\<lambda>x. fst x = k) t = (case map_of t k of None \<Rightarrow> [] | Some v \<Rightarrow> [(k, v)])"
  using filter_key_singleton [of fst t k] by (simp add: find_map_of split: option.splits)

subsection \<open>The conditional upsert\<close>

definition fresh_report :: "(device_id \<times> device_position) list \<Rightarrow> input_row \<Rightarrow> bool" where
  "fresh_report dp r \<longleftrightarrow>
     (case map_of dp (i_device_id r) of None \<Rightarrow> True | Some old \<Rightarrow> dp_reported_at old < i_reported_at r)"

definition position_row :: "micros \<Rightarrow> input_row \<Rightarrow> device_position" where
  "position_row now r = \<lparr>dp_position = i_position r, dp_reported_at = i_reported_at r,
     dp_received_at = i_received_at r, dp_updated_at = now\<rparr>"

definition storable_id :: "input_row \<Rightarrow> bool" where
  "storable_id r \<longleftrightarrow> 1 \<le> length (i_device_id r) \<and> length (i_device_id r) \<le> 64"

lemma filter_fresh_update:
  "d \<notin> i_device_id ` set rs \<Longrightarrow> filter (fresh_report (AList.update d v dp)) rs = filter (fresh_report dp) rs"
  by (rule filter_cong) (auto simp: fresh_report_def)

lemma accepted_distinct:
  "distinct (map i_device_id inp) \<Longrightarrow> set (map i_device_id inp) \<inter> set touched = {} \<Longrightarrow>
   accepted now touched inp dp =
     (if list_all storable_id inp
      then Inr (filter (fresh_report dp) inp,
                upsert_all (map (\<lambda>r. (i_device_id r, \<lambda>_. position_row now r)) (filter (fresh_report dp) inp)) dp)
      else Inl CHECK_VIOLATION)"
proof (induction inp arbitrary: touched dp)
  case (Cons r rs)
  let ?row = "position_row now r"
  have fresh: "fresh_report dp r = (case map_of dp (i_device_id r) of None \<Rightarrow> True | Some old \<Rightarrow> dp_reported_at old < i_reported_at r)"
    by (simp add: fresh_report_def)
  have IH1: "accepted now (i_device_id r # touched) rs (AList.update (i_device_id r) ?row dp) =
    (if list_all storable_id rs
      then Inr (filter (fresh_report dp) rs,
                upsert_all (map (\<lambda>r. (i_device_id r, \<lambda>_. position_row now r)) (filter (fresh_report dp) rs))
                  (AList.update (i_device_id r) ?row dp))
      else Inl CHECK_VIOLATION)"
    using Cons.prems Cons.IH [of "i_device_id r # touched" "AList.update (i_device_id r) ?row dp"]
    by (simp add: filter_fresh_update image_iff)
  have IH2: "accepted now touched rs dp = (if list_all storable_id rs
      then Inr (filter (fresh_report dp) rs,
                upsert_all (map (\<lambda>r. (i_device_id r, \<lambda>_. position_row now r)) (filter (fresh_report dp) rs)) dp)
      else Inl CHECK_VIOLATION)"
    using Cons.prems Cons.IH [of touched dp] by simp
  show ?case
    using Cons.prems IH1 IH2
    by (simp add: fresh [symmetric] position_row_def [symmetric] storable_id_def [of r] Let_def)
qed simp

subsection \<open>One step per pair\<close>

definition dwell_due :: "geozone \<Rightarrow> micros \<Rightarrow> zone_presence_row \<Rightarrow> bool" where
  "dwell_due z ts p \<longleftrightarrow>
     (case z_dwell_alert_interval_s z of
        None \<Rightarrow> False
      | Some s \<Rightarrow> zp_last_alert_at p + make_interval s \<le> ts)"

definition geofence_step ::
  "geozone \<Rightarrow> bool \<Rightarrow> micros \<Rightarrow> zone_presence_row option \<Rightarrow> zone_presence_row option \<times> alert_kind option" where
  "geofence_step z inside ts presence =
     (case presence of
        None \<Rightarrow>
          if inside
          then (Some \<lparr>zp_entered_at = ts, zp_last_seen_at = ts, zp_last_alert_at = ts\<rparr>,
                if z_alert_on_enter z then Some ENTER else None)
          else (None, None)
      | Some p \<Rightarrow>
          if \<not> inside then (None, if z_alert_on_exit z then Some EXIT else None)
          else if dwell_due z ts p
          then (Some (p\<lparr>zp_last_seen_at := ts, zp_last_alert_at := ts\<rparr>), Some DWELL)
          else (Some (p\<lparr>zp_last_seen_at := ts\<rparr>), None))"

definition t_key :: "transition \<Rightarrow> uuid \<times> device_id" where
  "t_key t = (t_zone_id t, t_device_id t)"

text \<open>The transition the statement derives for one pair.\<close>

definition pair_transition ::
  "postgis \<Rightarrow> uuid \<Rightarrow> geozone \<Rightarrow> input_row \<Rightarrow> zone_presence_row option \<Rightarrow> transition list" where
  "pair_transition pg zid z a presence =
     (if zone_hit pg z (i_position a) then
        [case presence of None \<Rightarrow> mk_transition a zid z None Enter
         | Some p \<Rightarrow> mk_transition a zid z (Some (zp_last_alert_at p)) Stay]
      else (case presence of None \<Rightarrow> []
         | Some p \<Rightarrow> [mk_transition a zid z (Some (zp_last_alert_at p)) Exit]))"

lemma mk_transition_sel [simp]:
  "t_zone_id (mk_transition a zid z l s) = zid" "t_device_id (mk_transition a zid z l s) = i_device_id a"
  "t_state (mk_transition a zid z l s) = s" "t_reported_at (mk_transition a zid z l s) = i_reported_at a"
  "t_last_alert_at (mk_transition a zid z l s) = l" "t_user_id (mk_transition a zid z l s) = z_user_id z"
  "t_zone_name (mk_transition a zid z l s) = z_name z" "t_position (mk_transition a zid z l s) = i_position a"
  "t_alert_on_enter (mk_transition a zid z l s) = z_alert_on_enter z"
  "t_alert_on_exit (mk_transition a zid z l s) = z_alert_on_exit z"
  "t_dwell_alert_interval_s (mk_transition a zid z l s) = z_dwell_alert_interval_s z"
  "t_key (mk_transition a zid z l s) = (zid, i_device_id a)"
  by (simp_all add: mk_transition_def t_key_def)

lemma hits_at:
  assumes "distinct (keys zones)" "distinct (map i_device_id acc)"
  shows "filter (\<lambda>h. fst (snd h) = zid \<and> i_device_id (fst h) = d) (hits pg zones acc) =
    (case (find (\<lambda>a. i_device_id a = d) acc, map_of zones zid) of
       (Some a, Some z) \<Rightarrow> if zone_hit pg z (i_position a) then [(a, zid, z)] else []
     | _ \<Rightarrow> [])"
proof -
  let ?P = "\<lambda>h. fst (snd h) = zid \<and> i_device_id (fst h) = d"
  let ?g = "\<lambda>a. filter ?P (map (\<lambda>(zid, z). (a, zid, z)) (filter (\<lambda>(zid, z). zone_hit pg z (i_position a)) zones))"
  have "filter ?P (hits pg zones acc) = concat (map ?g acc)"
    by (simp add: hits_def filter_concat o_def)
  also have "\<dots> = concat (map ?g (filter (\<lambda>a. i_device_id a = d) acc))"
    by (rule concat_map_only) (auto simp: filter_empty_conv)
  also have "\<dots> = (case find (\<lambda>a. i_device_id a = d) acc of None \<Rightarrow> [] | Some a \<Rightarrow> ?g a)"
    using filter_key_singleton [OF assms(2)] by (simp split: option.splits)
  also have "?g = (\<lambda>a. if i_device_id a = d then
      map (\<lambda>x. (a, x)) (filter (\<lambda>x. zone_hit pg (snd x) (i_position a)) (filter (\<lambda>x. fst x = zid) zones)) else [])"
    by (auto simp: fun_eq_iff filter_map o_def case_prod_beta conj_commute filter_empty_conv intro!: arg_cong [where f = "map _"] filter_cong)
  finally show ?thesis
    by (auto simp: filter_eq_fst [OF assms(1)] dest: find_SomeD split: option.splits)
qed

lemma inside_at:
  "filter (\<lambda>t. t_key t = (zid, d)) (inside_transitions zp hs) =
   inside_transitions zp (filter (\<lambda>h. fst (snd h) = zid \<and> i_device_id (fst h) = d) hs)"
  by (auto simp: inside_transitions_def filter_map o_def split: option.splits
      intro!: arg_cong [where f = "map _"] filter_cong)

lemma inside_transitions_simps [simp]:
  "inside_transitions zp [] = []"
  "inside_transitions zp [(a, zid, z)] =
     [case map_of zp (zid, i_device_id a) of None \<Rightarrow> mk_transition a zid z None Enter
      | Some p \<Rightarrow> mk_transition a zid z (Some (zp_last_alert_at p)) Stay]"
  by (simp_all add: inside_transitions_def)

lemma exit_at:
  assumes "distinct (keys zp)" "distinct (map i_device_id acc)"
  shows "filter (\<lambda>t. t_key t = (zid, d)) (exit_transitions zones zp hs acc) =
    (case (find (\<lambda>a. i_device_id a = d) acc, map_of zones zid, map_of zp (zid, d)) of
       (Some a, Some z, Some p) \<Rightarrow>
         if filter (\<lambda>h. fst (snd h) = zid \<and> i_device_id (fst h) = d) hs = []
         then [mk_transition a zid z (Some (zp_last_alert_at p)) Exit] else []
     | _ \<Rightarrow> [])"
proof -
  let ?P = "\<lambda>t. t_key t = (zid, d)"
  define e where "e a = (\<lambda>((zid, d), p :: zone_presence_row).
         case map_of zones zid of
           None \<Rightarrow> []
         | Some z \<Rightarrow>
             if d = i_device_id a \<and>
                \<not> (\<exists>h \<in> set hs. fst (snd h) = zid \<and> i_device_id (fst h) = d)
             then [mk_transition a zid z (Some (zp_last_alert_at p)) Exit] else [])" for a
  let ?g = "\<lambda>a. concat (map (\<lambda>x. filter ?P (e a x)) zp)"
  have "filter ?P (exit_transitions zones zp hs acc) = concat (map ?g acc)"
    by (simp add: exit_transitions_def e_def filter_concat o_def)
  also have "\<dots> = concat (map ?g (filter (\<lambda>a. i_device_id a = d) acc))"
    by (rule concat_map_only) (auto simp: e_def filter_empty_conv split: option.splits)
  also have "\<dots> = (case find (\<lambda>a. i_device_id a = d) acc of None \<Rightarrow> [] | Some a \<Rightarrow> ?g a)"
    using filter_key_singleton [OF assms(2)] by (simp split: option.splits)
  also have "?g = (\<lambda>a. concat (map (\<lambda>x. filter ?P (e a x)) (filter (\<lambda>x. fst x = (zid, d)) zp)))"
    by (rule ext, rule concat_map_only) (auto simp: e_def split: option.splits)
  finally show ?thesis
    by (auto simp: filter_eq_fst [OF assms(1)] e_def filter_empty_conv dest: find_SomeD split: option.splits)
qed

lemma transitions_at:
  assumes "distinct (keys (geozones db))" "distinct (keys (zone_presence db))" "distinct (map i_device_id acc)"
  shows "filter (\<lambda>t. t_key t = (zid, d)) (transitions pg db acc) =
    (case (find (\<lambda>a. i_device_id a = d) acc, map_of (geozones db) zid) of
       (Some a, Some z) \<Rightarrow> pair_transition pg zid z a (map_of (zone_presence db) (zid, d))
     | _ \<Rightarrow> [])"
proof (cases "find (\<lambda>a. i_device_id a = d) acc")
  case (Some a)
  then have "i_device_id a = d" by (auto dest: find_SomeD)
  then show ?thesis
    by (cases "map_of (geozones db) zid"; cases "map_of (zone_presence db) (zid, d)")
       (simp_all add: transitions_def Let_def inside_at exit_at [OF assms(2,3)] hits_at [OF assms(1,3)] Some
        pair_transition_def)
qed (simp add: transitions_def Let_def inside_at exit_at [OF assms(2,3)] hits_at [OF assms(1,3)])

lemma transition_keys_distinct:
  assumes "distinct (keys (geozones db))" "distinct (keys (zone_presence db))" "distinct (map i_device_id acc)"
  shows "distinct (map t_key (transitions pg db acc))"
proof (rule distinct_by_filter)
  fix k
  show "length (filter (\<lambda>t. t_key t = k) (transitions pg db acc)) \<le> 1"
    using transitions_at [OF assms, of "fst k" "snd k" pg]
    by (auto simp: pair_transition_def split: option.splits)
qed

subsection \<open>What the statement writes for one pair\<close>

lemma presence_at:
  assumes dist: "distinct (map t_key ts)"
  shows "map_of (presence_delete ts (presence_upsert ts zp)) k =
    (case filter (\<lambda>t. t_key t = k) ts of
       [] \<Rightarrow> map_of zp k
     | t # _ \<Rightarrow>
         if t_state t = Exit then None
         else Some (case map_of zp k of
           None \<Rightarrow> \<lparr>zp_entered_at = t_reported_at t, zp_last_seen_at = t_reported_at t,
                    zp_last_alert_at = next_last_alert t\<rparr>
         | Some p \<Rightarrow> p\<lparr>zp_last_seen_at := t_reported_at t, zp_last_alert_at := next_last_alert t\<rparr>))"
proof -
  have one: "filter (\<lambda>t. t_key t = k) ts = (case find (\<lambda>t. t_key t = k) ts of None \<Rightarrow> [] | Some t \<Rightarrow> [t])"
    by (rule filter_key_singleton [OF dist])
  have key: "(t_zone_id t, t_device_id t) = t_key t" for t by (simp add: t_key_def)
  have d': "distinct (map t_key (filter (\<lambda>t. t_state t \<noteq> Exit) ts))" by (rule distinct_map_filter [OF dist])
  have ups: "filter (\<lambda>t. t_key t = k) (filter (\<lambda>t. t_state t \<noteq> Exit) ts) =
      filter (\<lambda>t. t_state t \<noteq> Exit) (filter (\<lambda>t. t_key t = k) ts)"
    by (simp add: conj_commute)
  have del: "k \<in> t_key ` {t \<in> set ts. t_state t = Exit} \<longleftrightarrow>
      filter (\<lambda>t. t_state t = Exit) (filter (\<lambda>t. t_key t = k) ts) \<noteq> []"
    by (auto simp: filter_empty_conv)
  show ?thesis
    unfolding presence_delete_def presence_upsert_def key
    by (cases "find (\<lambda>t. t_key t = k) ts")
       (simp_all add: map_of_delete_all map_of_upsert_all o_def d' map_of_by_filter ups del one
        del: filter_filter)
qed

definition alert_view :: "alert_row \<Rightarrow> alert_kind \<times> micros \<times> uuid \<times> string \<times> point" where
  "alert_view a = (al_kind a, al_occurred_at a, al_user_id a, al_zone_name a, (al_latitude a, al_longitude a))"

definition event_view :: "transition \<times> alert_kind \<Rightarrow> alert_kind \<times> micros \<times> uuid \<times> string \<times> point" where
  "event_view e = (snd e, t_reported_at (fst e), t_user_id (fst e), t_zone_name (fst e), t_position (fst e))"

definition alerts_of :: "uuid \<Rightarrow> device_id \<Rightarrow> alert_row list \<Rightarrow> alert_row list" where
  "alerts_of zid d as = filter (\<lambda>a. al_zone_id a = Some zid \<and> al_device_id a = d) as"

lemma number_alerts_at:
  "map alert_view (alerts_of zid d (number_alerts now seq es)) =
   map event_view (filter (\<lambda>e. t_key (fst e) = (zid, d)) es)"
  by (induction now seq es rule: number_alerts.induct)
     (auto simp: alerts_of_def alert_view_def event_view_def t_key_def)

lemma sort_key_short: "length xs \<le> 1 \<Longrightarrow> sort_key f xs = xs"
  by (cases xs) auto

lemma new_alerts_at:
  assumes dist: "distinct (map t_key ts)"
  shows "map alert_view (alerts_of zid d (new_alerts now seq ts)) =
    (case filter (\<lambda>t. t_key t = (zid, d)) ts of
       [] \<Rightarrow> []
     | t # _ \<Rightarrow> (case event_kind t of None \<Rightarrow> [] | Some k \<Rightarrow> [event_view (t, k)]))"
proof -
  let ?P = "\<lambda>t. t_key t = (zid, d)"
  have ev: "filter (\<lambda>e. ?P (fst e)) (events ts) = events (filter ?P ts)"
    by (induction ts) (auto simp: events_def split: option.splits)
  have one: "filter ?P ts = (case find ?P ts of None \<Rightarrow> [] | Some t \<Rightarrow> [t])"
    by (rule filter_key_singleton [OF dist])
  have "length (events (filter ?P ts)) \<le> 1"
    unfolding one by (auto simp: events_def split: option.splits)
  then have "filter (\<lambda>e. ?P (fst e)) (sort_key event_order (events ts)) = events (filter ?P ts)"
    by (simp add: filter_sort ev sort_key_short)
  then show ?thesis
    by (simp add: new_alerts_def number_alerts_at one events_def split: option.splits)
qed


subsection \<open>The statement refines the step\<close>

definition accepted_report :: "db \<Rightarrow> input_row list \<Rightarrow> device_id \<Rightarrow> input_row option" where
  "accepted_report db inp d = find (\<lambda>a. i_device_id a = d \<and> fresh_report (device_positions db) a) inp"

definition stored_alerts :: "db \<Rightarrow> db \<Rightarrow> alert_row list" where
  "stored_alerts db db' = drop (length (alerts db)) (alerts db')"

definition pair_outcome ::
  "uuid \<Rightarrow> device_id \<Rightarrow> db \<Rightarrow> db \<Rightarrow> zone_presence_row option \<times> (alert_kind \<times> micros \<times> uuid \<times> string \<times> point) list" where
  "pair_outcome zid d db db' =
     (map_of (zone_presence db') (zid, d), map alert_view (alerts_of zid d (stored_alerts db db')))"

definition step_outcome ::
  "postgis \<Rightarrow> geozone \<Rightarrow> input_row option \<Rightarrow> zone_presence_row option \<Rightarrow>
   zone_presence_row option \<times> (alert_kind \<times> micros \<times> uuid \<times> string \<times> point) list" where
  "step_outcome pg z report presence =
     (case report of
        None \<Rightarrow> (presence, [])
      | Some a \<Rightarrow>
          (case geofence_step z (zone_hit pg z (i_position a)) (i_reported_at a) presence of
             (presence', kind) \<Rightarrow>
               (presence', case kind of None \<Rightarrow> []
                  | Some k \<Rightarrow> [(k, i_reported_at a, z_user_id z, z_name z, i_position a)])))"

lemma apply_batch_sql_cases:
  assumes dist: "distinct (map i_device_id inp)" and ok: "apply_batch_sql pg now inp db = Inr (db', rows)"
  defines "acc \<equiv> filter (fresh_report (device_positions db)) inp"
  defines "ts \<equiv> transitions pg db acc"
  shows "db' = db\<lparr>device_positions := upsert_all (map (\<lambda>r. (i_device_id r, \<lambda>_. position_row now r)) acc) (device_positions db),
              zone_presence := presence_delete ts (presence_upsert ts (zone_presence db)),
              alerts := alerts db @ new_alerts now (alert_seq db) ts,
              alert_seq := alert_seq db + int (length (new_alerts now (alert_seq db) ts))\<rparr>"
    and "rows = map PositionRow acc @ map AlertResult (new_alerts now (alert_seq db) ts)"
    and "list_all storable_id inp"
  using ok accepted_distinct [OF dist, of "[]"]
  by (auto simp: apply_batch_sql_def Let_def acc_def ts_def split: if_splits)

lemma apply_batch_sql_frame:
  assumes "distinct (map i_device_id inp)" "apply_batch_sql pg now inp db = Inr (db', rows)"
  shows "users db' = users db" "geozones db' = geozones db" "location_history db' = location_history db"
    "history_partitions db' = history_partitions db"
    "alerts db' = alerts db @ new_alerts now (alert_seq db) (transitions pg db (filter (fresh_report (device_positions db)) inp))"
  by (simp_all add: apply_batch_sql_cases(1) [OF assms])

lemma outcome_of_transition:
  fixes pr :: "zone_presence_row option"
  shows "(case pair_transition pg zid z a pr of
       [] \<Rightarrow> pr
     | t # _ \<Rightarrow>
         if t_state t = Exit then None
         else Some (case pr of
           None \<Rightarrow> \<lparr>zp_entered_at = t_reported_at t, zp_last_seen_at = t_reported_at t,
                    zp_last_alert_at = next_last_alert t\<rparr>
         | Some p \<Rightarrow> p\<lparr>zp_last_seen_at := t_reported_at t, zp_last_alert_at := next_last_alert t\<rparr>),
     case pair_transition pg zid z a pr of
       [] \<Rightarrow> []
     | t # _ \<Rightarrow> (case event_kind t of None \<Rightarrow> [] | Some k \<Rightarrow> [event_view (t, k)])) =
     step_outcome pg z (Some a) pr"
  by (cases pr; cases "zone_hit pg z (i_position a)")
     (auto simp: pair_transition_def step_outcome_def geofence_step_def event_kind_def next_last_alert_def
       dwell_due_def event_view_def split: option.splits)

lemma statement_step:
  assumes "keyed db" and "distinct (map i_device_id inp)"
    and "apply_batch_sql pg now inp db = Inr (db', rows)"
    and "map_of (geozones db) zid = Some z"
  shows "pair_outcome zid d db db' =
         step_outcome pg z (accepted_report db inp d) (map_of (zone_presence db) (zid, d))"
proof -
  define acc where "acc = filter (fresh_report (device_positions db)) inp"
  define ts where "ts = transitions pg db acc"
  have dz: "distinct (keys (geozones db))" "distinct (keys (zone_presence db))"
    using assms(1) by (auto simp: keyed_def)
  have da: "distinct (map i_device_id acc)" using assms(2) by (simp add: acc_def distinct_map_filter)
  have rep: "accepted_report db inp d = find (\<lambda>a. i_device_id a = d) acc"
    by (simp add: accepted_report_def acc_def find_filter)
  have dt: "distinct (map t_key ts)" unfolding ts_def by (rule transition_keys_distinct [OF dz da])
  have at: "filter (\<lambda>t. t_key t = (zid, d)) ts = (case accepted_report db inp d of None \<Rightarrow> []
      | Some a \<Rightarrow> pair_transition pg zid z a (map_of (zone_presence db) (zid, d)))"
    unfolding ts_def transitions_at [OF dz da] rep by (simp add: assms(4) split: option.splits)
  note db' = apply_batch_sql_cases(1) [OF assms(2,3), folded acc_def, folded ts_def]
  have "pair_outcome zid d db db' =
      (map_of (presence_delete ts (presence_upsert ts (zone_presence db))) (zid, d),
       map alert_view (alerts_of zid d (new_alerts now (alert_seq db) ts)))"
    by (simp add: pair_outcome_def stored_alerts_def db')
  also have "\<dots> = step_outcome pg z (accepted_report db inp d) (map_of (zone_presence db) (zid, d))"
  proof (cases "accepted_report db inp d")
    case None
    then show ?thesis by (simp add: presence_at [OF dt] new_alerts_at [OF dt] at step_outcome_def)
  next
    case (Some a)
    then show ?thesis
      by (simp only: presence_at [OF dt] new_alerts_at [OF dt] at option.case outcome_of_transition)
  qed
  finally show ?thesis .
qed


subsection \<open>The invariant of the tables\<close>

lemma position_at:
  assumes dist: "distinct (map i_device_id inp)"
  shows "map_of (upsert_all (map (\<lambda>r. (i_device_id r, \<lambda>_. position_row now r))
            (filter (fresh_report (device_positions db)) inp)) (device_positions db)) d =
         (case accepted_report db inp d of None \<Rightarrow> map_of (device_positions db) d
          | Some a \<Rightarrow> Some (position_row now a))"
proof -
  have da: "distinct (map i_device_id (filter (fresh_report (device_positions db)) inp))"
    by (rule distinct_map_filter [OF dist])
  show ?thesis
    unfolding accepted_report_def
    by (subst map_of_upsert_all)
       (simp_all add: o_def da map_of_by_filter filter_key_singleton [OF da] find_filter del: filter_filter
         split: option.splits)
qed

lemma accepted_report_fresh:
  "accepted_report db inp d = Some a \<Longrightarrow>
   i_device_id a = d \<and> a \<in> set inp \<and> fresh_report (device_positions db) a"
  unfolding accepted_report_def by (drule find_SomeD) simp

lemma presence_without_zone:
  assumes "keyed db" "distinct (map i_device_id inp)" "apply_batch_sql pg now inp db = Inr (db', rows)"
    and "map_of (geozones db) zid = None"
  shows "map_of (zone_presence db') (zid, d) = map_of (zone_presence db) (zid, d)"
proof -
  have dz: "distinct (keys (geozones db))" "distinct (keys (zone_presence db))"
    using assms(1) by (auto simp: keyed_def)
  have da: "distinct (map i_device_id (filter (fresh_report (device_positions db)) inp))"
    by (rule distinct_map_filter [OF assms(2)])
  show ?thesis
    by (simp add: apply_batch_sql_cases(1) [OF assms(2,3)] presence_at [OF transition_keys_distinct [OF dz da]]
        transitions_at [OF dz da] assms(4) split: option.splits)
qed

lemma number_alerts_ids:
  "sorted_wrt (<) (map al_id (number_alerts now seq es)) \<and>
   (\<forall>a \<in> set (number_alerts now seq es). seq < al_id a \<and> al_id a \<le> seq + int (length es))"
proof (induction now seq es rule: number_alerts.induct)
  case (2 now seq t k es)
  then show ?case by force
qed simp

lemma length_number_alerts [simp]: "length (number_alerts now seq es) = length es"
  by (induction now seq es rule: number_alerts.induct) auto

lemma number_alerts_refs:
  "a \<in> set (number_alerts now seq es) \<Longrightarrow>
   \<exists>t k. (t, k) \<in> set es \<and> al_user_id a = t_user_id t \<and> al_zone_id a = Some (t_zone_id t) \<and>
     al_device_id a = t_device_id t \<and> al_kind a = k \<and> al_occurred_at a = t_reported_at t"
  by (induction now seq es rule: number_alerts.induct) auto

lemma transition_zone:
  "distinct (keys (geozones db)) \<Longrightarrow> t \<in> set (transitions pg db acc) \<Longrightarrow>
   \<exists>z. map_of (geozones db) (t_zone_id t) = Some z \<and> t_user_id t = z_user_id z"
  by (auto simp: transitions_def Let_def inside_transitions_def exit_transitions_def hits_def
      split: option.splits if_splits)

lemma new_alert_transition:
  assumes "a \<in> set (new_alerts now seq ts)"
  shows "\<exists>t. t \<in> set ts \<and> event_kind t = Some (al_kind a) \<and> al_user_id a = t_user_id t \<and>
     al_zone_id a = Some (t_zone_id t) \<and> al_device_id a = t_device_id t"
proof -
  obtain t k where "(t, k) \<in> set (events ts)" "al_user_id a = t_user_id t" "al_zone_id a = Some (t_zone_id t)"
      "al_device_id a = t_device_id t" "al_kind a = k"
    using number_alerts_refs [OF assms [unfolded new_alerts_def]] by auto
  then show ?thesis by (auto simp: events_def split: option.splits)
qed


lemma presence_step:
  assumes "keyed db" "distinct (map i_device_id inp)" "apply_batch_sql pg now inp db = Inr (db', rows)"
    and "map_of (zone_presence db') (zid, d) = Some p"
  shows "map_of (zone_presence db) (zid, d) = Some p \<and>
           (accepted_report db inp d = None \<or> map_of (geozones db) zid = None) \<or>
         (\<exists>z a. map_of (geozones db) zid = Some z \<and> accepted_report db inp d = Some a \<and>
           zone_hit pg z (i_position a) \<and>
           fst (geofence_step z True (i_reported_at a) (map_of (zone_presence db) (zid, d))) = Some p)"
proof (cases "map_of (geozones db) zid")
  case None
  then show ?thesis using presence_without_zone [OF assms(1-3) None, of d] assms(4) by simp
next
  case (Some z)
  from statement_step [OF assms(1-3) Some, of d] assms(4)
  have "Some p = fst (step_outcome pg z (accepted_report db inp d) (map_of (zone_presence db) (zid, d)))"
    unfolding pair_outcome_def by (metis fst_conv)
  then show ?thesis using Some
    by (cases "accepted_report db inp d"; cases "zone_hit pg z (i_position (the (accepted_report db inp d)))")
       (auto simp: step_outcome_def geofence_step_def split: option.splits if_splits)
qed

lemma geofence_step_times:
  assumes "fst (geofence_step z True ts old) = Some p"
    and "\<And>q. old = Some q \<Longrightarrow> zp_entered_at q \<le> zp_last_alert_at q \<and> zp_last_alert_at q \<le> ts"
  shows "zp_entered_at p \<le> zp_last_alert_at p \<and> zp_last_alert_at p \<le> zp_last_seen_at p \<and> zp_last_seen_at p = ts"
  using assms by (force simp: geofence_step_def split: option.splits if_splits)

lemma keyed_apply_batch_sql:
  assumes "keyed db" "distinct (map i_device_id inp)" "apply_batch_sql pg now inp db = Inr (db', rows)"
  shows "keyed db'"
  using assms(1)
  by (auto simp: keyed_def apply_batch_sql_cases(1) [OF assms(2,3)] presence_delete_def presence_upsert_def
      intro!: distinct_upsert_all distinct_delete_all)

lemma presence_ok_apply_batch_sql:
  assumes k: "keyed db" and dist: "distinct (map i_device_id inp)"
    and ok: "apply_batch_sql pg now inp db = Inr (db', rows)" and pres: "presence_ok db"
  shows "presence_ok db'"
proof -
  have k': "distinct (keys (zone_presence db'))" using keyed_apply_batch_sql [OF k dist ok] by (simp add: keyed_def)
  have k0: "distinct (keys (zone_presence db))" using k by (simp add: keyed_def)
  have zones: "geozones db' = geozones db" by (simp add: apply_batch_sql_cases(1) [OF dist ok])
  have pos: "map_of (device_positions db') d = (case accepted_report db inp d of None \<Rightarrow> map_of (device_positions db) d
      | Some a \<Rightarrow> Some (position_row now a))" for d
    by (simp add: apply_batch_sql_cases(1) [OF dist ok] position_at [OF dist])
  have old: "zid \<in> set (keys (geozones db)) \<and> zp_entered_at p \<le> zp_last_alert_at p \<and>
      zp_last_alert_at p \<le> zp_last_seen_at p \<and>
      (\<exists>r. map_of (device_positions db) d = Some r \<and> zp_last_seen_at p = dp_reported_at r)"
    if "map_of (zone_presence db) (zid, d) = Some p" for zid d p
    using pres [unfolded presence_ok_def list_all_table [OF k0], rule_format, OF that]
    by (auto split: option.splits)
  have "zid \<in> set (keys (geozones db)) \<and> zp_entered_at p \<le> zp_last_alert_at p \<and>
      zp_last_alert_at p \<le> zp_last_seen_at p \<and>
      (\<exists>r. map_of (device_positions db') d = Some r \<and> zp_last_seen_at p = dp_reported_at r)"
    if new: "map_of (zone_presence db') (zid, d) = Some p" for zid d p
    using presence_step [OF k dist ok new]
  proof (elim disjE conjE exE)
    fix z a
    assume z: "map_of (geozones db) zid = Some z" and a: "accepted_report db inp d = Some a"
      and st: "fst (geofence_step z True (i_reported_at a) (map_of (zone_presence db) (zid, d))) = Some p"
    have "zp_entered_at p \<le> zp_last_alert_at p \<and> zp_last_alert_at p \<le> zp_last_seen_at p \<and> zp_last_seen_at p = i_reported_at a"
    proof (rule geofence_step_times [OF st])
      fix q assume q: "map_of (zone_presence db) (zid, d) = Some q"
      then show "zp_entered_at q \<le> zp_last_alert_at q \<and> zp_last_alert_at q \<le> i_reported_at a"
        using old [OF q] accepted_report_fresh [OF a] by (auto simp: fresh_report_def)
    qed
    moreover have "zid \<in> set (keys (geozones db))" using z by (force dest: map_of_SomeD)
    ultimately show ?thesis using a by (simp add: pos position_row_def)
  qed (use old in \<open>force simp: pos map_of_eq_None_iff image_iff\<close>)+
  then show ?thesis unfolding presence_ok_def list_all_table [OF k'] zones by (force split: option.splits)
qed

lemma alerts_ok_apply_batch_sql:
  assumes "distinct (map i_device_id inp)" "apply_batch_sql pg now inp db = Inr (db', rows)" "alerts_ok db"
  shows "alerts_ok db'"
proof -
  obtain es where new: "alerts db' = alerts db @ number_alerts now (alert_seq db) es"
    "alert_seq db' = alert_seq db + int (length es)"
    by (simp add: apply_batch_sql_cases(1) [OF assms(1,2)] new_alerts_def)
  show ?thesis
    using assms(3) number_alerts_ids [of now "alert_seq db" es]
    by (fastforce simp: alerts_ok_def new sorted_wrt_append list_all_iff)
qed

lemma references_ok_apply_batch_sql:
  assumes k: "keyed db" and dist: "distinct (map i_device_id inp)"
    and ok: "apply_batch_sql pg now inp db = Inr (db', rows)" and refs: "references_ok db"
  shows "references_ok db'"
proof -
  have dz: "distinct (keys (geozones db))" using k by (simp add: keyed_def)
  let ?ok = "\<lambda>a. al_user_id a \<in> set (keys (users db)) \<and>
    (case al_zone_id a of None \<Rightarrow> True | Some zid \<Rightarrow> zid \<in> set (keys (geozones db)))"
  have "?ok a" if new: "a \<in> set (new_alerts now seq (transitions pg db acc))" for a seq acc
  proof -
    obtain t :: transition and z where "map_of (geozones db) (t_zone_id t) = Some z" "al_user_id a = z_user_id z" "al_zone_id a = Some (t_zone_id t)"
      using new_alert_transition [OF new] transition_zone [OF dz] by metis
    moreover from this(1) have "(t_zone_id t, z) \<in> set (geozones db)" by (rule map_of_SomeD)
    ultimately show ?thesis using refs by (force simp: references_ok_def list_all_iff)
  qed
  then have "list_all ?ok (new_alerts now seq (transitions pg db acc))" for seq acc
    by (simp add: list_all_iff)
  then show ?thesis using refs
    unfolding references_ok_def apply_batch_sql_frame [OF dist ok] by simp
qed

lemma wf_db_apply_batch_sql:
  assumes "wf_db db" "distinct (map i_device_id inp)" "apply_batch_sql pg now inp db = Inr (db', rows)"
  shows "wf_db db'"
  using assms keyed_apply_batch_sql presence_ok_apply_batch_sql alerts_ok_apply_batch_sql references_ok_apply_batch_sql
  by (auto simp: wf_db_def) (simp add: history_ok_def apply_batch_sql_frame [OF assms(2,3)])

end
