(* ===== verification/Processing.thy ===== *)
theory Processing
  imports Geofence
begin

text \<open>
  The contract of \<^verbatim>\<open>BatchProcessor\<close>: what a batch leaves behind whatever the database, the
  lock and the driver do, why a redelivered batch is harmless, and why a batch of storable
  reports cannot wedge its shard.
\<close>

subsection \<open>The newest report per device\<close>

interpretation latest: newest_wins lr_device_id lr_reported_ms
  "\<lambda>s k. map_option lr_reported_ms (map_of s k)" "\<lambda>s r. keep_newest r s"
  by unfold_locales (auto simp: keep_newest_def newest_stamp_def split: option.splits)

definition put_position ::
  "micros \<Rightarrow> (device_id \<times> device_position) list \<Rightarrow> input_row \<Rightarrow> (device_id \<times> device_position) list" where
  "put_position now dp r =
     (if fresh_report dp r then AList.update (i_device_id r) (position_row now r) dp else dp)"

interpretation stored: newest_wins i_device_id i_reported_at
  "\<lambda>dp d. map_option dp_reported_at (map_of dp d)" "put_position now" for now
  by unfold_locales (auto simp: put_position_def fresh_report_def position_row_def newest_stamp_def split: option.splits)

lemma upsert_is_put:
  "distinct (map i_device_id inp) \<Longrightarrow>
   upsert_all (map (\<lambda>r. (i_device_id r, \<lambda>_. position_row now r)) (filter (fresh_report dp) inp)) dp =
   foldl (put_position now) dp inp"
proof (induction inp arbitrary: dp)
  case (Cons r rs)
  then have "filter (fresh_report (AList.update (i_device_id r) (position_row now r) dp)) rs = filter (fresh_report dp) rs"
    by (intro filter_fresh_update) simp
  with Cons show ?case by (simp add: put_position_def split: if_splits) metis
qed simp

lemma keep_newest_keys: "keys (keep_newest r d) = (if lr_device_id r \<in> set (keys d) then keys d else keys d @ [lr_device_id r])"
proof -
  have "map_of d (lr_device_id r) = None \<longleftrightarrow> lr_device_id r \<notin> set (keys d)"
    by (simp add: map_of_eq_None_iff)
  then show ?thesis by (auto simp: keep_newest_def update_keys split: option.splits)
qed

definition own_keys :: "(device_id \<times> location_record) list \<Rightarrow> bool" where
  "own_keys d \<longleftrightarrow> distinct (keys d) \<and> (\<forall>(k, r) \<in> set d. k = lr_device_id r)"

lemma own_keys_keep_newest: "own_keys d \<Longrightarrow> own_keys (keep_newest r d)"
  using set_update_entries [of "lr_device_id r" r d]
  by (auto simp: own_keys_def keep_newest_def distinct_update split: option.splits)

lemma own_keys_latest: "own_keys d \<Longrightarrow> own_keys (foldl (\<lambda>s r. keep_newest r s) d rs)"
  by (induction rs arbitrary: d) (auto intro: own_keys_keep_newest)

lemma latest_values:
  "r \<in> snd ` set (foldl (\<lambda>s r. keep_newest r s) d rs) \<Longrightarrow> r \<in> snd ` set d \<or> r \<in> set rs"
proof (induction rs arbitrary: d)
  case (Cons x rs)
  have "set (keep_newest x d) \<subseteq> insert (lr_device_id x, x) (set d)"
    using set_update_entries [of "lr_device_id x" x d] by (simp add: keep_newest_def split: option.splits) blast
  then have "snd ` set (keep_newest x d) \<subseteq> snd ` insert (lr_device_id x, x) (set d)" by (rule image_mono)
  with Cons show ?case by auto
qed simp

lemma latest_subset: "set (latest_per_device rs) \<subseteq> set rs"
  unfolding latest_per_device_def using latest_values [of _ "[]" rs] by auto

lemma latest_distinct: "distinct (map lr_device_id (latest_per_device rs))"
proof -
  let ?d = "foldl (\<lambda>s r. keep_newest r s) [] rs"
  have own: "own_keys ?d" by (rule own_keys_latest) (simp add: own_keys_def)
  then have eq: "map lr_device_id (map snd ?d) = keys ?d" by (auto simp: own_keys_def)
  show ?thesis unfolding latest_per_device_def eq using own by (simp add: own_keys_def)
qed

lemma latest_covers:
  assumes "r \<in> set rs"
  shows "\<exists>s \<in> set (latest_per_device rs). lr_device_id s = lr_device_id r \<and> lr_reported_ms r \<le> lr_reported_ms s"
proof -
  let ?d = "foldl (\<lambda>s r. keep_newest r s) [] rs"
  obtain s where "map_of ?d (lr_device_id r) = Some s" "lr_reported_ms r \<le> lr_reported_ms s"
    using latest.look_foldl_covers [OF assms, of "[]"] by auto
  moreover have "own_keys ?d" by (rule own_keys_latest) (simp add: own_keys_def)
  moreover have "(lr_device_id r, s) \<in> set ?d" using calculation(1) by (rule map_of_SomeD)
  ultimately have "s \<in> snd ` set ?d" "lr_device_id s = lr_device_id r"
    by (auto simp: own_keys_def intro: rev_image_eqI)
  then show ?thesis using \<open>lr_reported_ms r \<le> lr_reported_ms s\<close> by (auto simp: latest_per_device_def)
qed

lemma input_distinct: "distinct (map i_device_id (map input_of (latest_per_device rs)))"
proof -
  have eq: "map i_device_id (map input_of rs) = map lr_device_id rs" for rs by (simp add: input_of_def)
  show ?thesis unfolding eq by (rule latest_distinct)
qed


subsection \<open>The archive\<close>

definition history_key :: "input_row \<Rightarrow> device_id \<times> micros" where
  "history_key r = (i_device_id r, i_reported_at r)"

definition in_partition :: "db \<Rightarrow> input_row \<Rightarrow> bool" where
  "in_partition db r \<longleftrightarrow> day_of (i_reported_at r) \<in> set (history_partitions db)"

definition archive_row :: "input_row \<Rightarrow> db \<Rightarrow> db" where
  "archive_row r db =
     (case map_of (location_history db) (history_key r) of
        Some _ \<Rightarrow> db
      | None \<Rightarrow> db\<lparr>location_history := location_history db @
          [(history_key r, \<lparr>h_position = i_position r, h_received_at = i_received_at r\<rparr>)]\<rparr>)"

lemma archive_row_frame [simp]:
  "users (archive_row r db) = users db" "geozones (archive_row r db) = geozones db"
  "device_positions (archive_row r db) = device_positions db"
  "zone_presence (archive_row r db) = zone_presence db" "alerts (archive_row r db) = alerts db"
  "alert_seq (archive_row r db) = alert_seq db" "history_partitions (archive_row r db) = history_partitions db"
  by (simp_all add: archive_row_def split: option.splits)

lemma in_partition_archive_row [simp]: "in_partition (archive_row r db) = in_partition db"
  by (simp add: in_partition_def fun_eq_iff)

lemma insert_history_fold:
  "insert_history rs db =
   (if list_all (in_partition db) rs then Inr (fold archive_row rs db) else Inl CHECK_VIOLATION)"
proof (induction rs arbitrary: db)
  case (Cons r rs)
  have "insert_history (r # rs) db = (if in_partition db r then insert_history rs (archive_row r db) else Inl CHECK_VIOLATION)"
    by (simp add: in_partition_def archive_row_def history_key_def Let_def split: option.splits)
  with Cons.IH [of "archive_row r db"] show ?case by simp
qed simp

lemma fold_archive_frame [simp]:
  "users (fold archive_row rs db) = users db" "geozones (fold archive_row rs db) = geozones db"
  "device_positions (fold archive_row rs db) = device_positions db"
  "zone_presence (fold archive_row rs db) = zone_presence db" "alerts (fold archive_row rs db) = alerts db"
  "alert_seq (fold archive_row rs db) = alert_seq db"
  "history_partitions (fold archive_row rs db) = history_partitions db"
  by (induction rs arbitrary: db) simp_all

definition archived :: "db \<Rightarrow> input_row \<Rightarrow> bool" where
  "archived db r \<longleftrightarrow> map_of (location_history db) (history_key r) \<noteq> None"

lemma archived_row: "archived (archive_row x db) r \<longleftrightarrow> archived db r \<or> history_key r = history_key x"
  by (auto simp: archived_def archive_row_def map_add_def split: option.splits)

lemma archived_fold: "archived (fold archive_row rs db) r \<longleftrightarrow> archived db r \<or> history_key r \<in> history_key ` set rs"
  by (induction rs arbitrary: db) (auto simp: archived_row)

lemma archive_again: "list_all (archived db) rs \<Longrightarrow> fold archive_row rs db = db"
proof (induction rs)
  case (Cons r rs)
  then have "archive_row r db = db" by (auto simp: archive_row_def archived_def)
  with Cons show ?case by simp
qed simp

lemma wf_db_archive_row: "wf_db db \<Longrightarrow> in_partition db r \<Longrightarrow> wf_db (archive_row r db)"
  unfolding wf_db_def
proof (elim conjE, intro conjI)
  assume k: "keyed db" and h: "history_ok db" and p: "in_partition db r"
  show "keyed (archive_row r db)"
    using k by (auto simp: keyed_def archive_row_def map_of_eq_None_iff split: option.splits)
  show "history_ok (archive_row r db)"
    using h p by (auto simp: history_ok_def archive_row_def in_partition_def history_key_def list_all_iff split: option.splits)
qed (simp_all only: presence_ok_def alerts_ok_def references_ok_def archive_row_frame)

lemma wf_db_archive: "wf_db db \<Longrightarrow> list_all (in_partition db) rs \<Longrightarrow> wf_db (fold archive_row rs db)"
  by (induction rs arbitrary: db) (simp_all add: wf_db_archive_row)

subsection \<open>One transaction\<close>

lemma batch_transaction_ok:
  assumes "batch_transaction bp pg shard env storable deduped session db = Inr (db', rows)"
  shows "at_granted env" "list_all (in_partition db) (map input_of storable)"
    "apply_batch_sql pg (at_now env) (map input_of deduped) (fold archive_row (map input_of storable) db) = Inr (db', rows)"
  using assms
  by (auto simp: batch_transaction_def take_shard_lock_def Let_def insert_history_fold split: if_splits sum.splits)

lemma batch_transaction_iff:
  "at_granted env \<Longrightarrow> list_all (in_partition db) (map input_of storable) \<Longrightarrow>
   batch_transaction bp pg shard env storable deduped session db =
   apply_batch_sql pg (at_now env) (map input_of deduped) (fold archive_row (map input_of storable) db)"
  by (simp add: batch_transaction_def take_shard_lock_def Let_def insert_history_fold)

lemma transaction_positions:
  assumes "batch_transaction bp pg shard env storable (latest_per_device rs) session db = Inr (db', rows)"
  shows "device_positions db' = foldl (put_position (at_now env)) (device_positions db) (map input_of (latest_per_device rs))"
  using apply_batch_sql_cases(1) [OF input_distinct batch_transaction_ok(3) [OF assms]]
  by (simp add: upsert_is_put [OF input_distinct])

lemma transaction_archive:
  assumes "batch_transaction bp pg shard env storable (latest_per_device rs) session db = Inr (db', rows)"
  shows "location_history db' = location_history (fold archive_row (map input_of storable) db)"
    "history_partitions db' = history_partitions db"
  using apply_batch_sql_frame [OF input_distinct batch_transaction_ok(3) [OF assms]] by simp_all

lemma apply_batch_sql_stale:
  assumes "distinct (map i_device_id inp)" "list_all storable_id inp" "\<forall>r \<in> set inp. \<not> fresh_report (device_positions db) r"
  shows "apply_batch_sql pg now inp db = Inr (db, [])"
proof -
  have "filter (fresh_report (device_positions db)) inp = []" using assms(3) by (simp add: filter_empty_conv)
  moreover have "transitions pg db [] = []"
    by (simp add: transitions_def hits_def inside_transitions_def exit_transitions_def)
  ultimately show ?thesis
    by (simp add: apply_batch_sql_def accepted_distinct [OF assms(1)] assms(2) new_alerts_def events_def
        presence_delete_def presence_upsert_def)
qed

text \<open>Every report of a committed batch, superseded ones included, is stale afterwards.\<close>

lemma committed_reports_stale:
  assumes "batch_transaction bp pg shard env storable (latest_per_device storable) session db = Inr (db', rows)"
    and "r \<in> set storable"
  shows "\<not> fresh_report (device_positions db') (input_of r)"
proof -
  obtain s where s: "s \<in> set (latest_per_device storable)" "lr_device_id s = lr_device_id r"
    "lr_reported_ms r \<le> lr_reported_ms s" using latest_covers [OF assms(2)] by auto
  obtain u where "map_option dp_reported_at (map_of (device_positions db') (i_device_id (input_of s))) = Some u"
    "i_reported_at (input_of s) \<le> u"
    using stored.look_foldl_covers [of "input_of s" "map input_of (latest_per_device storable)" "at_now env" "device_positions db"]
      s(1) transaction_positions [OF assms(1)] by auto
  with s show ?thesis by (auto simp: fresh_report_def input_of_def to_timestamp_def)
qed


lemma wf_db_transaction:
  assumes "wf_db db" "batch_transaction bp pg shard env storable (latest_per_device rs) session db = Inr (db', rows)"
  shows "wf_db db'"
  by (rule wf_db_apply_batch_sql [OF wf_db_archive [OF assms(1) batch_transaction_ok(2) [OF assms(2)]]
        input_distinct batch_transaction_ok(3) [OF assms(2)]])

lemma wf_db_burned: "wf_db db \<Longrightarrow> wf_db (db\<lparr>alert_seq := alert_seq db + int n\<rparr>)"
  by (fastforce simp: wf_db_def keyed_def presence_ok_def alerts_ok_def references_ok_def history_ok_def
      list_all_iff cong: option.case_cong)

lemma wf_db_apply_once:
  assumes "wf_db (at_world env db)" "apply_once bp pg shard env storable (latest_per_device rs) db = (out, db')"
  shows "wf_db db'"
  using assms wf_db_transaction [OF assms(1)] wf_db_burned [OF assms(1)]
  by (auto simp: apply_once_def Let_def split: sum.splits option.splits fault.splits)

lemma wf_db_apply_loop:
  "(\<And>n db. wf_db db \<Longrightarrow> wf_db (at_world (envs n) db)) \<Longrightarrow> wf_db db \<Longrightarrow>
   apply_loop bp pg shard envs storable (latest_per_device rs) attempt db = (out, db') \<Longrightarrow> wf_db db'"
proof (induction bp pg shard envs storable "latest_per_device rs" attempt db rule: apply_loop.induct)
  case (1 bp pg shard envs storable attempt db)
  obtain o1 db1 where once: "apply_once bp pg shard (envs attempt) storable (latest_per_device rs) db = (o1, db1)"
    by fastforce
  have wf1: "wf_db db1" by (rule wf_db_apply_once [OF 1(2) [OF 1(3)] once])
  show ?case
  proof (cases "\<exists>st. o1 = Inl st \<and> should_retry st (attempt + 1) (bp_max_attempts bp)")
    case True
    then obtain st where st: "o1 = Inl st" "should_retry st (attempt + 1) (bp_max_attempts bp)" by blast
    from 1(4) have "apply_loop bp pg shard envs storable (latest_per_device rs) (attempt + 1) db1 = (out, db')"
      by (subst (asm) apply_loop.simps) (simp add: once st)
    with 1(2) wf1 show ?thesis by (intro 1(1) [OF once [symmetric] st])
  next
    case False
    with 1(4) wf1 show ?thesis by (subst (asm) apply_loop.simps) (auto simp: once split: sum.splits)
  qed
qed

subsection \<open>The split into storable and rejected reports\<close>

lemma rejected_count:
  "int (length (filter (\<lambda>r. V r = None) rs)) +
   int (length (concat (map (\<lambda>(i, r). case V r of None \<Rightarrow> [] | Some w \<Rightarrow> [F i r w]) (enumerate n rs)))) = int (length rs)"
  by (induction rs arbitrary: n) (auto split: option.splits)

lemma split_storable_count:
  "split_storable cfg now rs = (storable, rejected) \<Longrightarrow> length storable + length rejected = length rs"
  using rejected_count [of "\<lambda>r. unstorable_reason r (history_oldest cfg now) (history_newest cfg now)" rs
    "\<lambda>i r w. \<lparr>rj_index = int i, rj_record = r, rj_reason = w\<rparr>" 0]
  by (auto simp: split_storable_def Let_def)

lemma storable_iff:
  "r \<in> set (fst (split_storable cfg now rs)) \<longleftrightarrow>
   r \<in> set rs \<and> DEVICE_ID_RE (lr_device_id r) \<and> history_oldest cfg now \<le> lr_reported_ms r \<and>
   lr_reported_ms r \<le> history_newest cfg now"
  by (auto simp: split_storable_def Let_def unstorable_reason_def)

lemma rejected_iff:
  "rj \<in> set (snd (split_storable cfg now rs)) \<longleftrightarrow>
   (\<exists>i < length rs. \<exists>w. rj = \<lparr>rj_index = int i, rj_record = rs ! i, rj_reason = w\<rparr> \<and>
      unstorable_reason (rs ! i) (history_oldest cfg now) (history_newest cfg now) = Some w)"
  by (fastforce simp: split_storable_def Let_def in_set_enumerate_eq split: option.splits)

definition window_partitioned :: "settings \<Rightarrow> millis \<Rightarrow> db \<Rightarrow> bool" where
  "window_partitioned cfg now db \<longleftrightarrow>
     list_all (\<lambda>day. day \<in> set (history_partitions db))
       [day_of (to_timestamp (history_oldest cfg now))..day_of (to_timestamp (history_newest cfg now))]"

lemma day_of_mono: "a \<le> b \<Longrightarrow> day_of a \<le> day_of b"
  by (simp add: day_of_def zdiv_mono1)

lemma storable_in_partition:
  assumes "window_partitioned cfg now db" "r \<in> set (fst (split_storable cfg now rs))"
  shows "in_partition db (input_of r)"
  using assms day_of_mono [of "to_timestamp (history_oldest cfg now)" "to_timestamp (lr_reported_ms r)"]
    day_of_mono [of "to_timestamp (lr_reported_ms r)" "to_timestamp (history_newest cfg now)"]
  by (auto simp: window_partitioned_def storable_iff in_partition_def input_of_def to_timestamp_def list_all_iff)

lemma storable_ids:
  "set rs' \<subseteq> set (fst (split_storable cfg now rs)) \<Longrightarrow> list_all storable_id (map input_of rs')"
  by (auto simp: list_all_iff storable_iff storable_id_def input_of_def DEVICE_ID_RE_def
      MIN_DEVICE_ID_LENGTH_def MAX_DEVICE_ID_LENGTH_def)

lemma apply_batch_sql_succeeds:
  assumes "list_all storable_id inp" "distinct (map i_device_id inp)"
  shows "\<exists>db' rows. apply_batch_sql pg now inp db = Inr (db', rows)"
  using assms by (simp add: apply_batch_sql_def accepted_distinct Let_def)


subsection \<open>The retry loop\<close>

definition quiet :: "attempt_env \<Rightarrow> bool" where
  "quiet env \<longleftrightarrow> at_granted env \<and> at_fault env = None"

definition conflict :: "attempt_env \<Rightarrow> bool" where
  "conflict env \<longleftrightarrow> \<not> at_granted env \<or>
     (case at_fault env of
        Some (RolledBack (Some c) burned) \<Rightarrow> c \<in> set BATCH_RETRYABLE_SQLSTATES
      | _ \<Rightarrow> False)"

lemma lock_retryable: "LOCK_NOT_AVAILABLE \<in> set BATCH_RETRYABLE_SQLSTATES"
  by (simp add: BATCH_RETRYABLE_SQLSTATES_def)

lemma apply_once_quiet:
  assumes "quiet env" "list_all (in_partition (at_world env db)) (map input_of storable)"
    "list_all storable_id (map input_of (latest_per_device rs))"
  shows "\<exists>out db'. apply_once bp pg shard env storable (latest_per_device rs) db = (Inr out, db')"
proof -
  obtain db' rows where "apply_batch_sql pg (at_now env) (map input_of (latest_per_device rs))
      (fold archive_row (map input_of storable) (at_world env db)) = Inr (db', rows)"
    using apply_batch_sql_succeeds [OF assms(3) input_distinct] by blast
  then show ?thesis
    using assms(1,2) by (simp add: apply_once_def Let_def batch_transaction_iff quiet_def)
qed

lemma apply_once_conflict:
  assumes "conflict env" "list_all (in_partition (at_world env db)) (map input_of storable)"
    "list_all storable_id (map input_of (latest_per_device rs))"
  shows "\<exists>c db'. apply_once bp pg shard env storable (latest_per_device rs) db = (Inl (Some c), db') \<and>
    c \<in> set BATCH_RETRYABLE_SQLSTATES \<and> history_partitions db' = history_partitions (at_world env db)"
proof (cases "at_granted env")
  case False
  then show ?thesis
    using lock_retryable by (auto simp: apply_once_def Let_def batch_transaction_def take_shard_lock_def)
next
  case True
  obtain db' rows where "apply_batch_sql pg (at_now env) (map input_of (latest_per_device rs))
      (fold archive_row (map input_of storable) (at_world env db)) = Inr (db', rows)"
    using apply_batch_sql_succeeds [OF assms(3) input_distinct] by blast
  with True assms(1,2) show ?thesis
    by (auto simp: apply_once_def Let_def batch_transaction_iff conflict_def split: option.splits fault.splits)
qed

lemma apply_loop_survives:
  assumes "\<And>i. attempt \<le> i \<Longrightarrow> i < attempt + int k \<Longrightarrow> conflict (envs i)" "quiet (envs (attempt + int k))"
    and "\<And>i db. history_partitions (at_world (envs i) db) = history_partitions db"
    and "attempt + int k < bp_max_attempts bp"
    and "list_all (in_partition db) (map input_of storable)"
    and "list_all storable_id (map input_of (latest_per_device rs))"
  shows "\<exists>out db'. apply_loop bp pg shard envs storable (latest_per_device rs) attempt db = (Inr out, db')"
  using assms
proof (induction k arbitrary: attempt db)
  case 0
  then have "in_partition (at_world (envs attempt) db) = in_partition db" by (simp add: in_partition_def fun_eq_iff)
  with 0 obtain out db' where "apply_once bp pg shard (envs attempt) storable (latest_per_device rs) db = (Inr out, db')"
    using apply_once_quiet [of "envs attempt" db storable rs bp pg shard] by auto
  then show ?case by (subst apply_loop.simps) simp
next
  case (Suc k)
  have part: "in_partition (at_world (envs attempt) db) = in_partition db"
    using Suc.prems(3) by (simp add: in_partition_def fun_eq_iff)
  obtain c db1 where once: "apply_once bp pg shard (envs attempt) storable (latest_per_device rs) db = (Inl (Some c), db1)"
    and c: "c \<in> set BATCH_RETRYABLE_SQLSTATES" and h: "history_partitions db1 = history_partitions db"
    using apply_once_conflict [of "envs attempt" db storable rs bp pg shard] Suc.prems part by auto
  have "in_partition db1 = in_partition db" using h by (simp add: in_partition_def fun_eq_iff)
  then have "\<exists>out db'. apply_loop bp pg shard envs storable (latest_per_device rs) (attempt + 1) db1 = (Inr out, db')"
    using Suc.prems by (intro Suc.IH) (auto simp: ac_simps)
  moreover have "should_retry (Some c) (attempt + 1) (bp_max_attempts bp)"
    using c Suc.prems(4) by (simp add: should_retry_def)
  ultimately show ?case by (subst apply_loop.simps) (simp add: once)
qed

lemma apply_loop_failure:
  "apply_loop bp pg shard envs storable deduped attempt db = (Inl st, db') \<Longrightarrow>
   (\<exists>n \<ge> attempt. \<exists>db1. apply_once bp pg shard (envs n) storable deduped db1 = (Inl st, db') \<and>
      \<not> should_retry st (n + 1) (bp_max_attempts bp) \<and> (n = attempt \<or> n < bp_max_attempts bp))"
proof (induction bp pg shard envs storable deduped attempt db rule: apply_loop.induct)
  case (1 bp pg shard envs storable deduped attempt db)
  obtain o1 db1 where once: "apply_once bp pg shard (envs attempt) storable deduped db = (o1, db1)" by fastforce
  show ?case
  proof (cases "\<exists>s. o1 = Inl s \<and> should_retry s (attempt + 1) (bp_max_attempts bp)")
    case True
    then obtain s where s: "o1 = Inl s" "should_retry s (attempt + 1) (bp_max_attempts bp)" by blast
    from 1(2) have "apply_loop bp pg shard envs storable deduped (attempt + 1) db1 = (Inl st, db')"
      by (subst (asm) apply_loop.simps) (simp add: once s)
    from 1(1) [OF once [symmetric] s this] obtain n db2 where
      "attempt + 1 \<le> n" "apply_once bp pg shard (envs n) storable deduped db2 = (Inl st, db')"
      "\<not> should_retry st (n + 1) (bp_max_attempts bp)" "n = attempt + 1 \<or> n < bp_max_attempts bp" by blast
    then show ?thesis using s(2) by (intro exI [of _ n]) (auto simp: should_retry_def)
  next
    case False
    with 1(2) once show ?thesis by (subst (asm) apply_loop.simps) (auto split: sum.splits)
  qed
qed


subsection \<open>The newest report is the stored one\<close>

lemma foldl_newest_split:
  "foldl newest_stamp o1 xs =
   (case foldl newest_stamp None xs of None \<Rightarrow> o1 | Some m \<Rightarrow> newest_stamp o1 m)"
proof (induction xs rule: rev_induct)
  case (snoc x xs)
  then show ?case
    by (cases o1; cases "foldl newest_stamp None xs") (auto simp: max.assoc)
qed simp

lemma foldl_newest_map: "(\<And>a b. f (max a b) = max (f a) (f b)) \<Longrightarrow>
   foldl newest_stamp (map_option f o1) (map f xs) = map_option f (foldl newest_stamp o1 xs)"
proof (induction xs arbitrary: o1)
  case (Cons x xs)
  have "newest_stamp (map_option f o1) (f x) = map_option f (newest_stamp o1 x)"
    by (cases o1) (simp_all add: newest_stamp_def Cons.prems)
  with Cons show ?case by simp
qed simp

lemma latest_filter:
  "map lr_reported_ms (filter (\<lambda>r. lr_device_id r = d) (latest_per_device rs)) =
   (case foldl newest_stamp None (map lr_reported_ms (filter (\<lambda>r. lr_device_id r = d) rs)) of None \<Rightarrow> [] | Some m \<Rightarrow> [m])"
proof -
  let ?d = "foldl (\<lambda>s r. keep_newest r s) [] rs"
  have own: "own_keys ?d" by (rule own_keys_latest) (simp add: own_keys_def)
  have "filter (\<lambda>r. lr_device_id r = d) (latest_per_device rs) = map snd (filter (\<lambda>x. lr_device_id (snd x) = d) ?d)"
    by (simp add: latest_per_device_def filter_map o_def)
  also have "filter (\<lambda>x. lr_device_id (snd x) = d) ?d = filter (\<lambda>x. fst x = d) ?d"
    by (rule filter_cong) (use own in \<open>auto simp: own_keys_def\<close>)
  also have "\<dots> = (case map_of ?d d of None \<Rightarrow> [] | Some v \<Rightarrow> [(d, v)])"
    using own by (simp add: filter_eq_fst own_keys_def)
  finally show ?thesis using latest.look_foldl [of "[]" rs d, symmetric] by (simp split: option.splits)
qed

lemma transaction_newest:
  assumes "batch_transaction bp pg shard env storable (latest_per_device storable) session db = Inr (db', rows)"
  shows "map_option dp_reported_at (map_of (device_positions db') d) =
    foldl newest_stamp (map_option dp_reported_at (map_of (device_positions db) d))
      (map (\<lambda>r. to_timestamp (lr_reported_ms r)) (filter (\<lambda>r. lr_device_id r = d) storable))"
proof -
  let ?old = "map_option dp_reported_at (map_of (device_positions db) d)"
  let ?ms = "\<lambda>rs. map lr_reported_ms (filter (\<lambda>r. lr_device_id r = d) rs)"
  have mx: "to_timestamp (max a b) = max (to_timestamp a) (to_timestamp b)" for a b
    by (simp add: to_timestamp_def max_def)
  have "map_option dp_reported_at (map_of (device_positions db') d) =
      foldl newest_stamp ?old (map to_timestamp (?ms (latest_per_device storable)))"
    unfolding transaction_positions [OF assms] stored.look_foldl
    by (simp add: filter_map o_def input_of_def)
  also have "\<dots> = foldl newest_stamp ?old (map to_timestamp (?ms storable))"
  proof -
    have "foldl newest_stamp None (map to_timestamp (?ms storable)) = map_option to_timestamp (foldl newest_stamp None (?ms storable))"
      using foldl_newest_map [of to_timestamp None "?ms storable"] mx by simp
    then show ?thesis
      unfolding foldl_newest_split [of ?old "map to_timestamp (?ms storable)"] latest_filter
      by (cases "foldl newest_stamp None (?ms storable)") simp_all
  qed
  finally show ?thesis by (simp add: o_def)
qed

subsection \<open>Sequences of batches\<close>

text \<open>The alerts of one pair, read as a word over the machine of presence and dwell clock.\<close>

fun lawful :: "geozone \<Rightarrow> micros option \<Rightarrow> (alert_kind \<times> micros) list \<Rightarrow> bool" where
  "lawful z clock [] = True"
| "lawful z None ((ENTER, t) # as) = lawful z (Some t) as"
| "lawful z (Some l) ((EXIT, t) # as) = (l < t \<and> lawful z None as)"
| "lawful z (Some l) ((DWELL, t) # as) =
     (case z_dwell_alert_interval_s z of
        None \<Rightarrow> False | Some s \<Rightarrow> l + make_interval s \<le> t \<and> lawful z (Some t) as)"
| "lawful z _ _ = False"

fun run_statements :: "postgis \<Rightarrow> (micros \<times> input_row list) list \<Rightarrow> db \<Rightarrow> sqlstate + db" where
  "run_statements pg [] db = Inr db"
| "run_statements pg ((now, inp) # bs) db =
     (case apply_batch_sql pg now inp db of Inl e \<Rightarrow> Inl e | Inr (db', rows) \<Rightarrow> run_statements pg bs db')"

definition pair_word :: "uuid \<Rightarrow> device_id \<Rightarrow> alert_row list \<Rightarrow> (alert_kind \<times> micros) list" where
  "pair_word zid d as = map (\<lambda>a. (al_kind a, al_occurred_at a)) (alerts_of zid d as)"

definition clock_of :: "db \<Rightarrow> uuid \<Rightarrow> device_id \<Rightarrow> micros option" where
  "clock_of db zid d = map_option zp_last_alert_at (map_of (zone_presence db) (zid, d))"

lemma pair_word_append: "pair_word zid d (as @ bs) = pair_word zid d as @ pair_word zid d bs"
  by (simp add: pair_word_def alerts_of_def)

lemma pair_word_views: "pair_word zid d as = map (\<lambda>v. (fst v, fst (snd v))) (map alert_view (alerts_of zid d as))"
  by (simp add: pair_word_def alert_view_def)

lemma statement_word:
  assumes wf: "wf_db db" and dist: "distinct (map i_device_id inp)"
    and ok: "apply_batch_sql pg now inp db = Inr (db', rows)" and z: "map_of (geozones db) zid = Some z"
    and on: "z_alert_on_enter z" "z_alert_on_exit z"
  shows "lawful z (clock_of db zid d) (pair_word zid d (stored_alerts db db') @ w) \<longleftrightarrow> lawful z (clock_of db' zid d) w"
proof -
  let ?pr = "map_of (zone_presence db) (zid, d)"
  have "keyed db" using wf by (simp add: wf_db_def)
  note step = statement_step [OF this dist ok z, of d]
  have word: "pair_word zid d (stored_alerts db db') = map (\<lambda>v. (fst v, fst (snd v))) (snd (step_outcome pg z (accepted_report db inp d) ?pr))"
    using step by (simp add: pair_word_views pair_outcome_def flip: step)
  have clock: "clock_of db' zid d = map_option zp_last_alert_at (fst (step_outcome pg z (accepted_report db inp d) ?pr))"
    using step by (simp add: clock_of_def pair_outcome_def flip: step)
  have older: "zp_last_alert_at p < i_reported_at a" if "?pr = Some p" "accepted_report db inp d = Some a" for p a
  proof -
    have "distinct (keys (zone_presence db))" "presence_ok db" using wf by (simp_all add: wf_db_def keyed_def)
    then have "zp_last_alert_at p \<le> zp_last_seen_at p \<and> (case map_of (device_positions db) d of
        None \<Rightarrow> False | Some r \<Rightarrow> zp_last_seen_at p = dp_reported_at r)"
      using that(1) by (fastforce simp: presence_ok_def list_all_table)
    with accepted_report_fresh [OF that(2)] show ?thesis by (auto simp: fresh_report_def split: option.splits)
  qed
  show ?thesis
  proof (cases "accepted_report db inp d")
    case None
    then show ?thesis unfolding word clock by (simp add: step_outcome_def clock_of_def)
  next
    case (Some a)
    then show ?thesis
      using older on
      unfolding word clock
      by (cases ?pr) (auto simp: step_outcome_def geofence_step_def clock_of_def dwell_due_def split: option.splits)
  qed
qed

lemma run_statements_word:
  assumes "wf_db db" "\<forall>b \<in> set bs. distinct (map i_device_id (snd b))"
    and "run_statements pg bs db = Inr db'" "map_of (geozones db) zid = Some z"
    and on: "z_alert_on_enter z" "z_alert_on_exit z"
  shows "\<exists>new. alerts db' = alerts db @ new \<and> lawful z (clock_of db zid d) (pair_word zid d new)"
  using assms(1-4)
proof (induction bs arbitrary: db)
  case (Cons b bs)
  obtain now inp where b: "b = (now, inp)" by (cases b)
  obtain db1 rows where one: "apply_batch_sql pg now inp db = Inr (db1, rows)" and rest: "run_statements pg bs db1 = Inr db'"
    using Cons.prems(3) by (auto simp: b split: sum.splits)
  have dist: "distinct (map i_device_id inp)" using Cons.prems(2) by (simp add: b)
  note frame = apply_batch_sql_frame [OF dist one]
  have "wf_db db1" by (rule wf_db_apply_batch_sql [OF Cons.prems(1) dist one])
  with Cons.IH [of db1] Cons.prems(2,4) rest frame(2) obtain new where
    new: "alerts db' = alerts db1 @ new" "lawful z (clock_of db1 zid d) (pair_word zid d new)" by auto
  have "alerts db' = alerts db @ stored_alerts db db1 @ new"
    using new(1) frame(5) by (simp add: stored_alerts_def)
  moreover have "lawful z (clock_of db zid d) (pair_word zid d (stored_alerts db db1 @ new))"
    using statement_word [OF Cons.prems(1) dist one Cons.prems(4) on] new(2) by (simp add: pair_word_append)
  ultimately show ?case by blast
qed (simp add: pair_word_def alerts_of_def)


subsection \<open>How many reports a batch accepts\<close>

lemma length_latest: "length (latest_per_device rs) \<le> length rs"
proof -
  have "length (foldl (\<lambda>s r. keep_newest r s) d rs) \<le> length d + length rs" for d
  proof (induction rs arbitrary: d)
    case (Cons r rs)
    have "length (keep_newest r d) \<le> Suc (length d)"
      using arg_cong [OF keep_newest_keys [of r d], of length] by (simp split: if_splits)
    with Cons [of "keep_newest r d"] show ?case by simp
  qed simp
  from this [of "[]"] show ?thesis by (simp add: latest_per_device_def)
qed

lemma collect_rows_split: "collect_rows (map PositionRow acc @ map AlertResult new) = (map row_item acc, new)"
proof -
  have "concat (map (\<lambda>a. [f a]) xs) = map f xs" for f :: "'a \<Rightarrow> 'b" and xs by (induction xs) auto
  moreover have "concat (map (\<lambda>a. []) xs) = []" for xs :: "'a list" by (induction xs) auto
  ultimately show ?thesis by (simp add: collect_rows_def o_def)
qed

lemma accepted_once_at_most:
  assumes "apply_once bp pg shard env storable (latest_per_device rs) db = (Inr (acc, new), db')"
  shows "length acc \<le> length rs"
proof -
  obtain session rows where "batch_transaction bp pg shard env storable (latest_per_device rs) session (at_world env db) = Inr (db', rows)"
    "collect_rows rows = (acc, new)"
    using assms by (auto simp: apply_once_def Let_def split: sum.splits option.splits fault.splits)
  with apply_batch_sql_cases(2) [OF input_distinct batch_transaction_ok(3)]
  have "length acc \<le> length (latest_per_device rs)"
    by (fastforce simp: collect_rows_split intro: order_trans [OF length_filter_le])
  then show ?thesis using length_latest by (rule order_trans)
qed

lemma accepted_at_most:
  "apply_loop bp pg shard envs storable (latest_per_device storable) attempt db = (Inr (acc, new), db') \<Longrightarrow>
   length acc \<le> length storable"
proof (induction bp pg shard envs storable "latest_per_device storable" attempt db rule: apply_loop.induct)
  case (1 bp pg shard envs storable attempt db)
  obtain o1 db1 where once: "apply_once bp pg shard (envs attempt) storable (latest_per_device storable) db = (o1, db1)"
    by fastforce
  show ?case
  proof (cases o1)
    case (Inr x)
    with 1(2) once have "apply_once bp pg shard (envs attempt) storable (latest_per_device storable) db = (Inr (acc, new), db')"
      by (subst (asm) apply_loop.simps) simp
    then show ?thesis by (rule accepted_once_at_most)
  next
    case (Inl st)
    with 1(2) once have "should_retry st (attempt + 1) (bp_max_attempts bp)"
      "apply_loop bp pg shard envs storable (latest_per_device storable) (attempt + 1) db1 = (Inr (acc, new), db')"
      by (subst (asm) apply_loop.simps, simp split: if_splits)+
    with 1(1) [OF once [symmetric] Inl] show ?thesis by blast
  qed
qed

end
