(* ===== verification/Batch_Properties.thy ===== *)
theory Batch_Properties
  imports Processing
begin

text \<open>
  The properties of the batch processor, each with an instance on a small concrete
  database. \<open>flat_earth\<close> is one concrete PostGIS: a planar square test.
\<close>

definition flat_earth :: postgis where
  "flat_earth =
    \<lparr>dwithin = (\<lambda>c p r. \<bar>fst c - fst p\<bar> * 100000 \<le> r \<and> \<bar>snd c - snd p\<bar> * 100000 \<le> r),
     overlaps = (\<lambda>c r p. \<bar>fst c - fst p\<bar> * 100000 \<le> r \<and> \<bar>snd c - snd p\<bar> * 100000 \<le> r)\<rparr>"

definition sample_zone :: geozone where
  "sample_zone =
    \<lparr>z_user_id = 1, z_name = ''depot'', z_color = ''#00ff00'', z_center = (50.5, 30.5), z_radius_m = 1000,
     z_alert_on_enter = True, z_alert_on_exit = True, z_dwell_alert_interval_s = Some 60,
     z_version = 1, z_created_at = 0, z_updated_at = 0\<rparr>"

definition sample_db :: db where
  "sample_db =
    \<lparr>users = [(1, \<lparr>u_username = ''ada'', u_created_at = 0\<rparr>)], geozones = [(7, sample_zone)],
     device_positions = [], zone_presence = [], alerts = [], alert_seq = 0, location_history = [],
     history_partitions = [19668, 19669, 19670, 19671, 19672, 19673, 19674, 19675, 19676, 19677]\<rparr>"

definition sample_env :: attempt_env where
  "sample_env = \<lparr>at_world = (\<lambda>db. db), at_granted = True, at_now = 1700000001000000, at_fault = None\<rparr>"

definition locked_env :: attempt_env where
  "locked_env = sample_env\<lparr>at_granted := False\<rparr>"

definition sample_processor :: batch_processor where
  "sample_processor = batch_processor_init default_settings MAX_ATTEMPTS None"

definition sample_session :: pg_session where
  "sample_session = \<lparr>ss_lock_timeout = 0, ss_statement_timeout = 5000, ss_advisory_locks = []\<rparr>"

definition sample_now :: millis where "sample_now = 1700000001000"

lemma sample_db_wf: "wf_db sample_db"
  by code_simp

lemma sample_commits:
  obtains db' rows where
    "batch_transaction sample_processor flat_earth 0 sample_env [sample_record]
       (latest_per_device [sample_record]) sample_session sample_db = Inr (db', rows)"
proof -
  have "isl (batch_transaction sample_processor flat_earth 0 sample_env [sample_record]
       (latest_per_device [sample_record]) sample_session sample_db) = False" by code_simp
  then show thesis using that by (auto simp: isl_def split: sum.splits) (metis surj_pair sum.exhaust)
qed

lemma sample_batch:
  obtains res db' where
    "apply_batch sample_processor flat_earth 0 sample_now (\<lambda>_. sample_env) [sample_record] sample_db = (Inr res, db')"
    "map al_user_id (br_alerts res) = [1]"
proof -
  have run: "(case apply_batch sample_processor flat_earth 0 sample_now (\<lambda>_. sample_env) [sample_record] sample_db of
      (Inr res, _) \<Rightarrow> map al_user_id (br_alerts res) | (Inl _, _) \<Rightarrow> []) = [1]" by code_simp
  then show thesis by (auto split: prod.splits sum.splits intro: that)
qed

text \<open>
  (C1) The set-based statement implements the abstract geofence step: for every zone and
  every device, the presence row and the alerts it leaves are those of one
  \<open>geofence_step\<close> on the report it accepted, and nothing changes for a device without
  an accepted report.
\<close>

theorem statement_refines_geofence_step:
  assumes "keyed db" and "distinct (map i_device_id inp)"
    and "apply_batch_sql pg now inp db = Inr (db', rows)"
    and "map_of (geozones db) zid = Some z"
  shows "pair_outcome zid d db db' =
         step_outcome pg z (accepted_report db inp d) (map_of (zone_presence db) (zid, d))"
  using assms by (rule statement_step)

theorem statement_refines_geofence_step_witness:
  "\<exists>db' rows. apply_batch_sql flat_earth 1 [input_of sample_record] sample_db = Inr (db', rows) \<and>
     pair_outcome 7 ''dev-1'' sample_db db' =
     (Some \<lparr>zp_entered_at = 1700000000000000, zp_last_seen_at = 1700000000000000, zp_last_alert_at = 1700000000000000\<rparr>,
      [(ENTER, 1700000000000000, 1, ''depot'', (50.5, 30.5))])"
proof -
  have "\<not> isl (apply_batch_sql flat_earth 1 [input_of sample_record] sample_db)" by code_simp
  then obtain db' rows where ok: "apply_batch_sql flat_earth 1 [input_of sample_record] sample_db = Inr (db', rows)"
    by (metis isl_def sum.exhaust surj_pair)
  have "keyed sample_db" by code_simp
  moreover have "map_of (geozones sample_db) 7 = Some sample_zone" by (simp add: sample_db_def)
  ultimately have "pair_outcome 7 ''dev-1'' sample_db db' = step_outcome flat_earth sample_zone
      (accepted_report sample_db [input_of sample_record] ''dev-1'') (map_of (zone_presence sample_db) (7, ''dev-1''))"
    by (intro statement_refines_geofence_step [OF _ _ ok]) simp_all
  also have "\<dots> = (Some \<lparr>zp_entered_at = 1700000000000000, zp_last_seen_at = 1700000000000000, zp_last_alert_at = 1700000000000000\<rparr>,
      [(ENTER, 1700000000000000, 1, ''depot'', (50.5, 30.5))])" by code_simp
  finally show ?thesis using ok by blast
qed

lemma redelivered_batch:
  assumes "batch_transaction bp pg shard env storable (latest_per_device storable) session db = Inr (db', rows)"
    and "set (fst (split_storable (bp_settings bp) now records)) \<subseteq> set storable"
    and "quiet (envs 0)" and "at_world (envs 0) db' = db'"
  shows "apply_batch bp pg shard now envs records db' =
    (Inr \<lparr>br_accepted = [], br_alerts = [], br_stale = int (length (fst (split_storable (bp_settings bp) now records))),
          br_rejected = snd (split_storable (bp_settings bp) now records)\<rparr>, db')"
proof -
  obtain again rejected where split: "split_storable (bp_settings bp) now records = (again, rejected)" by fastforce
  have sub: "set again \<subseteq> set storable" using assms(2) by (simp add: split)
  have stale: "\<forall>r \<in> set (map input_of (latest_per_device again)). \<not> fresh_report (device_positions db') r"
    using committed_reports_stale [OF assms(1)] sub latest_subset [of again] by auto
  have "list_all (archived db') (map input_of again)" "list_all (in_partition db') (map input_of again)"
    using sub transaction_archive [OF assms(1)] batch_transaction_ok(2) [OF assms(1)]
    by (auto simp: list_all_iff in_partition_def archived_def
        archived_fold [unfolded archived_def, of "map input_of storable" db, symmetric])
       (use archived_fold [unfolded archived_def, of "map input_of storable" db] in fastforce)
  moreover have "list_all storable_id (map input_of (latest_per_device again))"
    by (rule storable_ids [where cfg = "bp_settings bp" and now = now and rs = records])
       (use latest_subset [of again] in \<open>simp add: split\<close>)
  ultimately have "batch_transaction bp pg shard (envs 0) again (latest_per_device again) session' db' = Inr (db', [])" for session'
    using assms(3) stale by (simp only: batch_transaction_iff quiet_def archive_again apply_batch_sql_stale [OF input_distinct])
  then have "apply_once bp pg shard (envs 0) again (latest_per_device again) db' = (Inr ([], []), db')"
    using assms(3,4) by (simp add: apply_once_def Let_def quiet_def collect_rows_def)
  then have "apply_loop bp pg shard envs again (latest_per_device again) 0 db' = (Inr ([], []), db')"
    by (subst apply_loop.simps) simp
  then show ?thesis by (auto simp: apply_batch_def split)
qed

text \<open>
  (C2) Redelivery is harmless: once a batch has committed, applying any storable part of
  it again, in any order and any grouping, leaves every table exactly as it is, broadcasts
  no position and raises no alert. This holds also when the first commit's answer was lost.
\<close>

theorem redelivery_changes_nothing:
  assumes "batch_transaction bp pg shard env storable (latest_per_device storable) session db = Inr (db', rows)"
    and "set (fst (split_storable (bp_settings bp) now records)) \<subseteq> set storable"
    and "quiet (envs 0)" and "at_world (envs 0) db' = db'"
  shows "apply_batch bp pg shard now envs records db' =
    (Inr \<lparr>br_accepted = [], br_alerts = [], br_stale = int (length (fst (split_storable (bp_settings bp) now records))),
          br_rejected = snd (split_storable (bp_settings bp) now records)\<rparr>, db')"
  using assms by (rule redelivered_batch)

theorem redelivery_changes_nothing_witness:
  "\<exists>db' rows. batch_transaction sample_processor flat_earth 0 sample_env [sample_record]
       (latest_per_device [sample_record]) sample_session sample_db = Inr (db', rows) \<and>
     apply_batch sample_processor flat_earth 0 sample_now (\<lambda>_. sample_env) [sample_record, sample_record] db' =
       (Inr \<lparr>br_accepted = [], br_alerts = [], br_stale = 2, br_rejected = []\<rparr>, db')"
proof -
  obtain db' rows where ok: "batch_transaction sample_processor flat_earth 0 sample_env [sample_record]
       (latest_per_device [sample_record]) sample_session sample_db = Inr (db', rows)" by (rule sample_commits)
  have split: "split_storable (bp_settings sample_processor) sample_now [sample_record, sample_record] =
      ([sample_record, sample_record], [])" by code_simp
  have "quiet sample_env" "at_world sample_env db' = db'" by (simp_all add: quiet_def sample_env_def)
  then show ?thesis
    using redelivery_changes_nothing [OF ok, of sample_now "[sample_record, sample_record]" "\<lambda>_. sample_env"] ok
    by (auto simp: split)
qed

text \<open>
  (C13) Whatever the lock, the driver and the other processors do, a batch leaves the tables
  well formed: keys unique, references intact, alert identities growing, every presence
  row confirmed by its device's stored report.
\<close>

theorem batch_keeps_tables_wellformed:
  assumes "\<And>n db. wf_db db \<Longrightarrow> wf_db (at_world (envs n) db)" and "wf_db db"
    and "apply_batch bp pg shard now envs records db = (out, db')"
  shows "wf_db db'"
  using assms wf_db_apply_loop [OF assms(1,2)]
  by (auto simp: apply_batch_def split: prod.splits if_splits sum.splits)

theorem batch_keeps_tables_wellformed_witness:
  "wf_db (snd (apply_batch sample_processor flat_earth 0 sample_now
     (\<lambda>n. if n = 0 then locked_env else sample_env) [sample_record] sample_db))"
  by (rule batch_keeps_tables_wellformed [where envs = "\<lambda>n. if n = 0 then locked_env else sample_env" and db = sample_db])
     (auto simp: sample_db_wf sample_env_def locked_env_def intro: prod.collapse [symmetric])

text \<open>
  Every report of a batch is accounted for exactly once: stored, ignored as stale, or
  rejected with its position in the batch and the reason; the stale count is never
  negative.
\<close>

theorem batch_accounts_for_every_report:
  assumes "apply_batch bp pg shard now envs records db = (Inr res, db')"
  shows "int (length records) = int (length (br_accepted res)) + br_stale res + int (length (br_rejected res)) \<and>
         0 \<le> br_stale res \<and> br_rejected res = snd (split_storable (bp_settings bp) now records) \<and>
         (\<forall>rj. rj \<in> set (br_rejected res) \<longleftrightarrow>
            (\<exists>i < length records. \<exists>why. rj = \<lparr>rj_index = int i, rj_record = records ! i, rj_reason = why\<rparr> \<and>
               unstorable_reason (records ! i) (history_oldest (bp_settings bp) now) (history_newest (bp_settings bp) now) = Some why))"
proof -
  obtain storable rejected where split: "split_storable (bp_settings bp) now records = (storable, rejected)" by fastforce
  have count: "length storable + length rejected = length records" by (rule split_storable_count [OF split])
  have rej: "br_rejected res = rejected"
    using assms by (auto simp: apply_batch_def split split: if_splits prod.splits sum.splits)
  have "br_stale res = int (length storable) - int (length (br_accepted res)) \<and> length (br_accepted res) \<le> length storable"
    using assms accepted_at_most [of bp pg shard envs storable 0 db]
    by (auto simp: apply_batch_def split split: if_splits prod.splits sum.splits)
  then show ?thesis
    using count rejected_iff [of _ "bp_settings bp" now records] by (auto simp: rej split)
qed



text \<open>
  Giving up is justified: when a batch fails, its last attempt met an error outside
  the retryable set, or every attempt was used.
\<close>

theorem batch_gives_up_only_when_final:
  assumes "apply_batch bp pg shard now envs records db = (Inl state, db')"
  shows "\<exists>n db1 storable. 0 \<le> n \<and>
     apply_once bp pg shard (envs n) storable (latest_per_device storable) db1 = (Inl state, db') \<and>
     (state \<notin> Some ` set BATCH_RETRYABLE_SQLSTATES \<or> bp_max_attempts bp \<le> n + 1)"
proof -
  obtain storable rejected where "split_storable (bp_settings bp) now records = (storable, rejected)" by fastforce
  then have "apply_loop bp pg shard envs storable (latest_per_device storable) 0 db = (Inl state, db')"
    using assms by (auto simp: apply_batch_def split: if_splits prod.splits sum.splits)
  from apply_loop_failure [OF this] obtain n db1 where "0 \<le> n"
    "apply_once bp pg shard (envs n) storable (latest_per_device storable) db1 = (Inl state, db')"
    "\<not> should_retry state (n + 1) (bp_max_attempts bp)" by blast
  then show ?thesis by (force simp: should_retry_def split: option.splits)
qed

theorem batch_gives_up_only_when_final_witness:
  "\<exists>n db1 storable. 0 \<le> n \<and>
     fst (apply_once sample_processor flat_earth 0 locked_env storable (latest_per_device storable) db1) = Inl (Some LOCK_NOT_AVAILABLE) \<and>
     (Some LOCK_NOT_AVAILABLE \<notin> Some ` set BATCH_RETRYABLE_SQLSTATES \<or> bp_max_attempts sample_processor \<le> n + 1)"
proof -
  have "fst (apply_batch sample_processor flat_earth 0 sample_now (\<lambda>_. locked_env) [sample_record] sample_db) =
      Inl (Some LOCK_NOT_AVAILABLE)" by code_simp
  then obtain db' where "apply_batch sample_processor flat_earth 0 sample_now (\<lambda>_. locked_env) [sample_record] sample_db =
      (Inl (Some LOCK_NOT_AVAILABLE), db')" by (metis prod.collapse)
  from batch_gives_up_only_when_final [OF this] show ?thesis by (metis fst_conv)
qed




definition sample_track :: "(micros \<times> input_row list) list" where
  "sample_track = map (\<lambda>(s, lat). (s, [\<lparr>i_device_id = ''dev-1'', i_position = (lat, 30.5),
      i_reported_at = s * 1000000, i_received_at = s * 1000000\<rparr>]))
    [(1700000000, 50.5), (1700000061, 51)]"


text \<open>
  The pause before a retry lies between half the window and the window, which doubles
  with every attempt: at most 0.2 s before the last one.
\<close>

theorem retry_delay_bounds:
  assumes "0 \<le> u" and "u < 1" and "1 \<le> attempt" and "attempt < MAX_ATTEMPTS"
  shows "RETRY_BASE_DELAY_S * 2 ^ nat (attempt - 1) / 2 \<le> retry_delay u attempt \<and>
         retry_delay u attempt \<le> RETRY_BASE_DELAY_S * 2 ^ nat (attempt - 1)"
proof -
  define c where "c = RETRY_BASE_DELAY_S * 2 ^ nat (attempt - 1)"
  have "nat (attempt - 1) \<in> {0, 1, 2, 3}" using assms(3,4) by (auto simp: MAX_ATTEMPTS_def)
  moreover have "fl (RETRY_BASE_DELAY_S * 2 ^ n) = RETRY_BASE_DELAY_S * 2 ^ n \<and>
      fl (RETRY_BASE_DELAY_S * 2 ^ n / 2) = RETRY_BASE_DELAY_S * 2 ^ n / 2 \<and> 0 < RETRY_BASE_DELAY_S * 2 ^ n"
    if "n \<in> {0, 1, 2, 3}" for n
    using that by (elim insertE emptyE) (simp only:, code_simp)+
  ultimately have c: "fl c = c" "fl (c / 2) = c / 2" "0 < c" unfolding c_def by blast+
  have half: "fl (c - c / 2) = c / 2" using c(2) by (simp add: field_simps)
  define x where "x = fl (c / 2 * u)"
  have "x \<le> c / 2" "0 \<le> x"
    using fl_mono [of "c / 2 * u" "c / 2"] fl_mono [of 0 "c / 2 * u"] c(2,3) assms(1,2)
    by (simp_all add: x_def fl_def)
  then have "c / 2 \<le> fl (c / 2 + x)" "fl (c / 2 + x) \<le> c"
    using fl_mono [of "c / 2" "c / 2 + x"] fl_mono [of "c / 2 + x" c] c by simp_all
  moreover have "retry_delay u attempt = fl (c / 2 + x)"
    unfolding retry_delay_def uniform_def Let_def c_def [symmetric] c half x_def by (rule refl)
  ultimately show ?thesis unfolding c_def [symmetric] by simp
qed

theorem retry_delay_bounds_witness: "retry_delay (1 / 3) 4 \<le> RETRY_BASE_DELAY_S * 2 ^ nat (4 - 1)"
  using retry_delay_bounds [of "1 / 3" 4] by (simp add: MAX_ATTEMPTS_def)

end
