(* ===== verification/Leases.thy ===== *)
theory Leases
  imports Sharding PyFloat
begin

text \<open>
  \<^verbatim>\<open>src/geotrack/processor/leases.py\<close>: ownership of shards, and the compare-and-act
  scripts that the maintenance leader shares with it.

  Redis is third-party code. The record \<open>redis\<close> holds the commands that the lease code
  calls, over a state of unknown type and with the server's clock as an argument;
  \<open>redis_laws\<close> is the documented behaviour the code relies on. The two Lua scripts run
  atomically on the server, so each is one function of the state.
\<close>

record 's redis =
  r_get :: "'s \<Rightarrow> millis \<Rightarrow> string \<Rightarrow> string option"
  r_set_nx_px :: "string \<Rightarrow> string \<Rightarrow> millis \<Rightarrow> millis \<Rightarrow> 's \<Rightarrow> bool \<times> 's"
  r_pexpire :: "string \<Rightarrow> millis \<Rightarrow> millis \<Rightarrow> 's \<Rightarrow> int \<times> 's"
  r_del :: "string \<Rightarrow> millis \<Rightarrow> 's \<Rightarrow> int \<times> 's"

text \<open>
  \<^verbatim>\<open>SET key value NX PX ttl\<close> succeeds exactly on a key that is not live and makes it live
  for \<open>ttl\<close>; \<^verbatim>\<open>PEXPIRE\<close> restarts the time to live of a live key and answers 1, or 0
  for a missing key; \<^verbatim>\<open>DEL\<close> removes a key and answers how many it removed. No command
  touches another key.
\<close>

definition redis_laws :: "'s redis \<Rightarrow> bool" where
  "redis_laws r \<longleftrightarrow>
     (\<forall>s k v ttl t. r_get r s t k \<noteq> None \<longrightarrow> r_set_nx_px r k v ttl t s = (False, s)) \<and>
     (\<forall>s k v ttl t. r_get r s t k = None \<longrightarrow>
        fst (r_set_nx_px r k v ttl t s) \<and>
        (\<forall>u \<ge> t. r_get r (snd (r_set_nx_px r k v ttl t s)) u k = (if u < t + ttl then Some v else None))) \<and>
     (\<forall>s k v ttl t. r_get r s t k = Some v \<longrightarrow>
        fst (r_pexpire r k ttl t s) = 1 \<and>
        (\<forall>u \<ge> t. r_get r (snd (r_pexpire r k ttl t s)) u k = (if u < t + ttl then Some v else None))) \<and>
     (\<forall>s k t. r_get r s t k \<noteq> None \<longrightarrow> fst (r_del r k t s) = 1 \<and>
        (\<forall>u \<ge> t. r_get r (snd (r_del r k t s)) u k = None)) \<and>
     (\<forall>s k k' v ttl t u. k' \<noteq> k \<longrightarrow>
        r_get r (snd (r_set_nx_px r k v ttl t s)) u k' = r_get r s u k' \<and>
        r_get r (snd (r_pexpire r k ttl t s)) u k' = r_get r s u k' \<and>
        r_get r (snd (r_del r k t s)) u k' = r_get r s u k')"

lemma set_nx_px_taken: "redis_laws r \<Longrightarrow> r_get r s t k = Some v' \<Longrightarrow> r_set_nx_px r k v ttl t s = (False, s)"
  unfolding redis_laws_def by (elim conjE) simp

lemma set_nx_px_free:
  "redis_laws r \<Longrightarrow> r_get r s t k = None \<Longrightarrow> fst (r_set_nx_px r k v ttl t s) \<and>
     (t \<le> u \<longrightarrow> r_get r (snd (r_set_nx_px r k v ttl t s)) u k = (if u < t + ttl then Some v else None))"
  unfolding redis_laws_def by (elim conjE) simp

lemma pexpire_live:
  "redis_laws r \<Longrightarrow> r_get r s t k = Some v \<Longrightarrow> fst (r_pexpire r k ttl t s) = 1 \<and>
     (t \<le> u \<longrightarrow> r_get r (snd (r_pexpire r k ttl t s)) u k = (if u < t + ttl then Some v else None))"
  unfolding redis_laws_def by (elim conjE) simp

lemma del_live:
  "redis_laws r \<Longrightarrow> r_get r s t k = Some v \<Longrightarrow> fst (r_del r k t s) = 1 \<and>
     (t \<le> u \<longrightarrow> r_get r (snd (r_del r k t s)) u k = None)"
  unfolding redis_laws_def by (elim conjE) simp

definition RENEW_SCRIPT :: "'s redis \<Rightarrow> string \<Rightarrow> string \<Rightarrow> millis \<Rightarrow> millis \<Rightarrow> 's \<Rightarrow> int \<times> 's" where
  "RENEW_SCRIPT r key me ttl t s =
     (if r_get r s t key = Some me then r_pexpire r key ttl t s else (0, s))"

definition RELEASE_SCRIPT :: "'s redis \<Rightarrow> string \<Rightarrow> string \<Rightarrow> millis \<Rightarrow> 's \<Rightarrow> int \<times> 's" where
  "RELEASE_SCRIPT r key me t s =
     (if r_get r s t key = Some me then r_del r key t s else (0, s))"

subsection \<open>The fair share\<close>

record rebalance_plan =
  rp_live :: int
  rp_target :: int
  rp_candidates :: "int list"
  rp_release :: "int list"

text \<open>A Python set is a list without duplicates; \<^verbatim>\<open>sorted(owned, reverse=True)\<close> orders it.\<close>

definition fair_share_plan :: "int \<Rightarrow> int list \<Rightarrow> int \<Rightarrow> int \<Rightarrow> rebalance_plan" where
  "fair_share_plan shards owned live0 offset =
     (let live = max live0 1;
          target = \<lceil>fl (of_int shards / of_int live)\<rceil>;
          surplus = int (length owned) - target
      in if surplus > 0 then
           \<lparr>rp_live = live, rp_target = target, rp_candidates = [],
            rp_release = take (nat surplus) (rev (sort owned))\<rparr>
         else
           let rotation = (if shards \<noteq> 0 then offset mod shards else 0);
               order = map (\<lambda>step. (rotation + step) mod shards) [0..shards - 1];
               candidates = (if surplus < 0 then filter (\<lambda>shard. shard \<notin> set owned) order else [])
           in \<lparr>rp_live = live, rp_target = target, rp_candidates = candidates, rp_release = []\<rparr>)"

subsection \<open>The lease manager\<close>

record lease_manager =
  lm_shards :: int
  lm_ttl_ms :: millis
  lm_membership_ttl_ms :: millis
  lm_instance_id :: string
  lm_offset :: int

definition lease_manager_init :: "int \<Rightarrow> millis \<Rightarrow> string \<Rightarrow> millis option \<Rightarrow> lease_manager" where
  "lease_manager_init shards ttl_ms instance_id membership_ttl_ms =
     \<lparr>lm_shards = shards, lm_ttl_ms = ttl_ms,
      lm_membership_ttl_ms =
        (case membership_ttl_ms of Some w \<Rightarrow> if w = 0 then ttl_ms else w | None \<Rightarrow> ttl_ms),
      lm_instance_id = instance_id, lm_offset = crc32 (encode instance_id) mod shards\<rparr>"

text \<open>
  The heartbeat is one pipeline on the membership set; its answers come from the
  environment, the last one being the cardinality.
\<close>

datatype zset_command = ZAdd string millis | ZRemRangeByScore millis | ZExpire millis | ZCard | ZRem string

definition heartbeat_commands :: "lease_manager \<Rightarrow> millis \<Rightarrow> zset_command list" where
  "heartbeat_commands lm now =
     [ZAdd (lm_instance_id lm) now, ZRemRangeByScore (now - lm_membership_ttl_ms lm),
      ZExpire (lm_membership_ttl_ms lm * 10), ZCard]"

definition heartbeat_live :: "int list \<Rightarrow> int" where
  "heartbeat_live results = max (last results) 1"

definition acquire :: "'s redis \<Rightarrow> lease_manager \<Rightarrow> int \<Rightarrow> millis \<Rightarrow> 's \<Rightarrow> bool \<times> 's" where
  "acquire r lm shard t s = r_set_nx_px r (shard_lease_key shard) (lm_instance_id lm) (lm_ttl_ms lm) t s"

definition renew :: "'s redis \<Rightarrow> lease_manager \<Rightarrow> int \<Rightarrow> millis \<Rightarrow> 's \<Rightarrow> bool \<times> 's" where
  "renew r lm shard t s =
     (case RENEW_SCRIPT r (shard_lease_key shard) (lm_instance_id lm) (lm_ttl_ms lm) t s of
        (result, s') \<Rightarrow> (result \<noteq> 0, s'))"

definition release :: "'s redis \<Rightarrow> lease_manager \<Rightarrow> int \<Rightarrow> millis \<Rightarrow> 's \<Rightarrow> 's" where
  "release r lm shard t s = snd (RELEASE_SCRIPT r (shard_lease_key shard) (lm_instance_id lm) t s)"

definition rebalance :: "lease_manager \<Rightarrow> int list \<Rightarrow> int list \<Rightarrow> rebalance_plan" where
  "rebalance lm owned results = fair_share_plan (lm_shards lm) owned (heartbeat_live results) (lm_offset lm)"

definition deregister :: "lease_manager \<Rightarrow> zset_command list" where
  "deregister lm = [ZRem (lm_instance_id lm)]"

subsection \<open>Exclusion\<close>

text \<open>What the replicas of a fleet do to the lease of one shard, each at the server's time.\<close>

datatype lease_act = Acquire lease_manager | Renew lease_manager | Release lease_manager

fun act_by :: "lease_act \<Rightarrow> string" where
  "act_by (Acquire lm) = lm_instance_id lm"
| "act_by (Renew lm) = lm_instance_id lm"
| "act_by (Release lm) = lm_instance_id lm"

fun lease_step :: "'s redis \<Rightarrow> int \<Rightarrow> millis \<Rightarrow> lease_act \<Rightarrow> 's \<Rightarrow> bool \<times> 's" where
  "lease_step r shard t (Acquire lm) s = acquire r lm shard t s"
| "lease_step r shard t (Renew lm) s = renew r lm shard t s"
| "lease_step r shard t (Release lm) s = (False, release r lm shard t s)"

fun lease_run :: "'s redis \<Rightarrow> int \<Rightarrow> (millis \<times> lease_act) list \<Rightarrow> 's \<Rightarrow> bool list \<times> 's" where
  "lease_run r shard [] s = ([], s)"
| "lease_run r shard ((t, a) # as) s =
     (case lease_step r shard t a s of (ok, s1) \<Rightarrow>
        (case lease_run r shard as s1 of (oks, s2) \<Rightarrow> (ok # oks, s2)))"

definition held_by :: "'s redis \<Rightarrow> 's \<Rightarrow> millis \<Rightarrow> int \<Rightarrow> string option" where
  "held_by r s t shard = r_get r s t (shard_lease_key shard)"

lemma lease_step_other:
  assumes "held_by r s t shard = Some me" "act_by a \<noteq> me" "redis_laws r"
  shows "lease_step r shard t a s = (False, s)"
  using assms(1,2) set_nx_px_taken [OF assms(3)]
  by (cases a) (auto simp: held_by_def acquire_def renew_def release_def RENEW_SCRIPT_def RELEASE_SCRIPT_def)

lemma lease_run_others:
  assumes "redis_laws r" "\<And>t a. (t, a) \<in> set as \<Longrightarrow> act_by a \<noteq> me \<and> held_by r s t shard = Some me"
  shows "lease_run r shard as s = (replicate (length as) False, s)"
  using assms(2)
proof (induction as)
  case (Cons x as)
  obtain t a where x: "x = (t, a)" by (cases x)
  have "lease_step r shard t a s = (False, s)"
    using Cons.prems [of t a] lease_step_other [OF _ _ assms(1)] by (simp add: x)
  moreover have "lease_run r shard as s = (replicate (length as) False, s)"
    by (rule Cons.IH) (rule Cons.prems, simp)
  ultimately show ?case by (simp add: x)
qed simp

lemma acquire_holds:
  assumes "redis_laws r" "acquire r lm shard t s = (True, s')" "t \<le> u"
  shows "held_by r s' u shard = (if u < t + lm_ttl_ms lm then Some (lm_instance_id lm) else None)"
proof -
  have free: "r_get r s t (shard_lease_key shard) = None"
    using set_nx_px_taken [OF assms(1)] assms(2) by (cases "r_get r s t (shard_lease_key shard)") (auto simp: acquire_def)
  have "s' = snd (acquire r lm shard t s)" using assms(2) by simp
  with set_nx_px_free [OF assms(1) free] assms(3) show ?thesis by (simp add: held_by_def acquire_def)
qed

lemma renew_holds:
  assumes "redis_laws r" "renew r lm shard t s = (True, s')" "t \<le> u"
  shows "held_by r s' u shard = (if u < t + lm_ttl_ms lm then Some (lm_instance_id lm) else None)"
proof -
  have get: "r_get r s t (shard_lease_key shard) = Some (lm_instance_id lm)"
    using assms(2) by (auto simp: renew_def RENEW_SCRIPT_def split: if_splits)
  have "s' = snd (renew r lm shard t s)" using assms(2) by simp
  also have "\<dots> = snd (r_pexpire r (shard_lease_key shard) (lm_ttl_ms lm) t s)"
    by (simp add: renew_def RENEW_SCRIPT_def get split: prod.splits)
  finally show ?thesis using pexpire_live [OF assms(1) get] assms(3) by (simp add: held_by_def)
qed


text \<open>
  (C3) A lease excludes: from a successful acquire or renewal until its time to live has
  passed, whatever the other replicas try on the shard is refused and changes nothing.
\<close>

theorem lease_excludes_other_replicas:
  assumes "redis_laws r"
    and "acquire r lm shard t s = (True, s') \<or> renew r lm shard t s = (True, s')"
    and "\<And>u a. (u, a) \<in> set acts \<Longrightarrow> act_by a \<noteq> lm_instance_id lm \<and> t \<le> u \<and> u < t + lm_ttl_ms lm"
  shows "lease_run r shard acts s' = (replicate (length acts) False, s')"
  using assms(1)
proof (rule lease_run_others)
  fix u a assume "(u, a) \<in> set acts"
  from assms(3) [OF this] assms(2) show "act_by a \<noteq> lm_instance_id lm \<and> held_by r s' u shard = Some (lm_instance_id lm)"
    using acquire_holds [OF assms(1), of lm shard t s s' u] renew_holds [OF assms(1), of lm shard t s s' u] by auto
qed

text \<open>One concrete store that behaves as documented: keys with their value and expiry.\<close>

definition kv_redis :: "(string \<times> string \<times> millis) list redis" where
  "kv_redis =
    \<lparr>r_get = (\<lambda>s t k. case map_of s k of None \<Rightarrow> None | Some (v, e) \<Rightarrow> if t < e then Some v else None),
     r_set_nx_px = (\<lambda>k v ttl t s.
       case map_of s k of
         None \<Rightarrow> (True, AList.update k (v, t + ttl) s)
       | Some (w, e) \<Rightarrow> if t < e then (False, s) else (True, AList.update k (v, t + ttl) s)),
     r_pexpire = (\<lambda>k ttl t s.
       case map_of s k of
         None \<Rightarrow> (0, s)
       | Some (w, e) \<Rightarrow> if t < e then (1, AList.update k (w, t + ttl) s) else (0, s)),
     r_del = (\<lambda>k t s.
       case map_of s k of
         None \<Rightarrow> (0, s)
       | Some (w, e) \<Rightarrow> if t < e then (1, AList.delete k s) else (0, s))\<rparr>"

lemma kv_redis_laws: "redis_laws kv_redis"
  by (auto simp: redis_laws_def kv_redis_def split: option.splits prod.splits if_splits)

definition replica_a :: lease_manager where "replica_a = lease_manager_init 8 15000 ''proc-a'' None"
definition replica_b :: lease_manager where "replica_b = lease_manager_init 8 15000 ''proc-b'' None"

theorem lease_excludes_other_replicas_witness:
  "fst (lease_run kv_redis 3 [(2000, Acquire replica_b), (9000, Renew replica_b), (9001, Release replica_b)]
     (snd (acquire kv_redis replica_a 3 1000 []))) = [False, False, False]"
proof -
  have "acquire kv_redis replica_a 3 1000 [] = (True, snd (acquire kv_redis replica_a 3 1000 []))"
    by (simp add: acquire_def kv_redis_def)
  from lease_excludes_other_replicas [OF kv_redis_laws disjI1 [OF this],
      of "[(2000, Acquire replica_b), (9000, Renew replica_b), (9001, Release replica_b)]"]
  show ?thesis by (force simp: replica_a_def replica_b_def lease_manager_init_def)
qed

text \<open>
  Releasing is compare-and-delete: it frees the shard for the next owner at once when
  the lease is the caller's, and leaves somebody else's lease untouched.
\<close>

theorem release_frees_only_the_own_lease:
  assumes "redis_laws r"
  shows "(held_by r s t shard = Some (lm_instance_id lm) \<longrightarrow>
            (\<forall>u \<ge> t. held_by r (release r lm shard t s) u shard = None \<and>
               (\<forall>other. fst (acquire r other shard u (release r lm shard t s))))) \<and>
         (held_by r s t shard \<noteq> Some (lm_instance_id lm) \<longrightarrow> release r lm shard t s = s)"
  using del_live [OF assms] set_nx_px_free [OF assms]
  by (auto simp: held_by_def release_def RELEASE_SCRIPT_def acquire_def)

theorem release_frees_only_the_own_lease_witness:
  "fst (acquire kv_redis replica_b 3 2000 (release kv_redis replica_a 3 1500 (snd (acquire kv_redis replica_a 3 1000 []))))"
proof -
  have "held_by kv_redis (snd (acquire kv_redis replica_a 3 1000 [])) 1500 3 = Some (lm_instance_id replica_a)"
    by (simp add: acquire_def kv_redis_def held_by_def replica_a_def lease_manager_init_def)
  with release_frees_only_the_own_lease [OF kv_redis_laws, of "snd (acquire kv_redis replica_a 3 1000 [])" 1500 3 replica_a]
  show ?thesis by simp
qed

subsection \<open>Sharing the shards\<close>

lemma ceiling_fl_quotient:
  assumes "0 \<le> shards" "shards \<le> 4096" "1 \<le> live" "live \<le> 2 ^ 40"
  shows "\<lceil>fl (of_int shards / of_int live)\<rceil> = - ((- shards) div live)"
proof -
  define q k where "q = (of_int shards / of_int live :: rat)" and "k = - ((- shards) div live)"
  have kq: "k = \<lceil>q\<rceil>" unfolding k_def q_def by (metis ceiling_def floor_divide_of_int_eq minus_divide_left of_int_minus)
  have live0: "(0::rat) < of_int live" using assms(3) by simp
  have q_hi: "q \<le> of_int k" by (simp add: kq)
  have k_hi: "k \<le> 4096"
  proof -
    have "q \<le> of_int shards / 1" unfolding q_def using assms(1,3) by (intro divide_left_mono) auto
    moreover have "of_int shards \<le> (of_int 4096 :: rat)" using assms(2) by (simp only: of_int_le_iff)
    ultimately have "q \<le> 4096" by simp
    then show ?thesis unfolding kq by (simp add: ceiling_le_iff)
  qed
  have k0: "0 \<le> k" unfolding k_def using assms(1,3) by (simp add: div_nonpos_pos_le0)
  have "fl q \<le> of_int k" by (rule fl_le_int) (use k_hi k0 q_hi in auto)
  moreover have "of_int (k - 1) < fl q"
  proof (cases "k \<le> 0")
    case True
    have "0 \<le> q" unfolding q_def using assms(1,3) by simp
    then have "of_int 0 \<le> fl q" by (intro fl_ge_int) auto
    with True show ?thesis by simp
  next
    case False
    have "(k - 1) * live < shards"
    proof -
      have "of_int (k - 1) < q" unfolding kq by linarith
      then have "of_int (k - 1) * (of_int live :: rat) < of_int shards" unfolding q_def using live0 by (simp add: less_divide_eq)
      then show ?thesis by (metis of_int_less_iff of_int_mult)
    qed
    then have "(k - 1) * live + 1 \<le> shards" by simp
    then have "of_int ((k - 1) * live + 1) \<le> (of_int shards :: rat)" by (simp only: of_int_le_iff)
    then have "of_int ((k - 1) * live + 1) / of_int live \<le> q"
      unfolding q_def using live0 by (intro divide_right_mono) auto
    then have "of_int (k - 1) + 1 / of_int live \<le> q" using live0 by (simp add: add_divide_distrib)
    moreover have "(1::rat) / 2 ^ 40 \<le> 1 / of_int live"
    proof -
      have "(of_int live :: rat) \<le> of_int (2 ^ 40)" using assms(4) by (simp only: of_int_le_iff)
      then show ?thesis using live0 by (simp add: frac_le)
    qed
    ultimately have lo: "of_int ((k - 1) * 2 ^ 40 + 1) * 2 powi (- 40) \<le> q"
      by (simp add: power_int_minus field_simps)
    have "of_int ((k - 1) * 2 ^ 40 + 1) * 2 powi (- 40) \<le> fl q"
      by (rule fl_ge_scaled [OF _ _ lo]) (use k_hi False in auto)
    moreover have "of_int (k - 1) < of_int ((k - 1) * 2 ^ 40 + 1) * (2::rat) powi (- 40)"
      by (simp add: power_int_minus field_simps)
    ultimately show ?thesis by linarith
  qed
  ultimately have "\<lceil>fl q\<rceil> = k" by (simp add: ceiling_eq_iff)
  then show ?thesis by (simp add: q_def k_def)
qed


definition fair_share :: "int \<Rightarrow> int \<Rightarrow> int" where
  "fair_share shards live = - ((- shards) div max live 1)"

lemma fair_share_covers:
  "shards \<le> fair_share shards live * max live 1 \<and> fair_share shards live * max live 1 < shards + max live 1"
proof -
  define l where "l = max live 1"
  have l: "0 < l" by (simp add: l_def)
  define d e where "d = (- shards) div l" and "e = (- shards) mod l"
  have "- shards = d * l + e" "0 \<le> e" "e < l" using l by (simp_all add: d_def e_def)
  then show ?thesis unfolding fair_share_def l_def [symmetric] d_def [symmetric] by simp
qed

lemma plan_target:
  "0 \<le> shards \<Longrightarrow> shards \<le> 4096 \<Longrightarrow> live \<le> 2 ^ 40 \<Longrightarrow>
   rp_target (fair_share_plan shards owned live offset) = fair_share shards live"
  using ceiling_fl_quotient [of shards "max live 1"]
  by (simp add: fair_share_plan_def Let_def fair_share_def)

lemma rotation_set:
  assumes "0 < shards"
  shows "set (map (\<lambda>step. (rotation + step) mod shards) [0..shards - 1]) = {0..<shards}"
    and "distinct (map (\<lambda>step. (rotation + step) mod shards) [0..shards - 1])"
proof -
  have inj: "inj_on (\<lambda>step. (rotation + step) mod shards) {0..shards - 1}"
  proof (rule inj_onI)
    fix a b assume ab: "a \<in> {0..shards - 1}" "b \<in> {0..shards - 1}" "(rotation + a) mod shards = (rotation + b) mod shards"
    then have "shards dvd (rotation + a) - (rotation + b)" by (simp add: mod_eq_dvd_iff)
    then have "shards dvd a - b" by simp
    moreover have "\<bar>a - b\<bar> < shards" using ab(1,2) by auto
    ultimately show "a = b" using zdvd_imp_le [of shards "\<bar>a - b\<bar>"] by fastforce
  qed
  then show "distinct (map (\<lambda>step. (rotation + step) mod shards) [0..shards - 1])" by (simp add: distinct_map)
  have "card ((\<lambda>step. (rotation + step) mod shards) ` {0..shards - 1}) = card {0..<shards}"
    using card_image [OF inj] assms by simp
  moreover have "(\<lambda>step. (rotation + step) mod shards) ` {0..shards - 1} \<subseteq> {0..<shards}" using assms by auto
  ultimately have "(\<lambda>step. (rotation + step) mod shards) ` {0..shards - 1} = {0..<shards}"
    by (intro card_subset_eq) simp_all
  then show "set (map (\<lambda>step. (rotation + step) mod shards) [0..shards - 1]) = {0..<shards}" by simp
qed

lemma plan_candidates:
  assumes "0 < shards" "int (length owned) < rp_target (fair_share_plan shards owned live offset)"
  shows "set (rp_candidates (fair_share_plan shards owned live offset)) = {0..<shards} - set owned \<and>
         distinct (rp_candidates (fair_share_plan shards owned live offset)) \<and>
         rp_release (fair_share_plan shards owned live offset) = []"
proof -
  let ?order = "map (\<lambda>step. (offset mod shards + step) mod shards) [0..shards - 1]"
  define target where "target = \<lceil>fl (of_int shards / of_int (max live 1))\<rceil>"
  have "rp_target (fair_share_plan shards owned live offset) = target"
    by (simp add: fair_share_plan_def Let_def target_def)
  then have "int (length owned) < target" using assms(2) by simp
  then have "rp_candidates (fair_share_plan shards owned live offset) = filter (\<lambda>shard. shard \<notin> set owned) ?order \<and>
      rp_release (fair_share_plan shards owned live offset) = []"
    using assms(1) unfolding fair_share_plan_def Let_def target_def [symmetric] by simp
  moreover have "set (filter (\<lambda>shard. shard \<notin> set owned) ?order) = {0..<shards} - set owned"
    using rotation_set(1) [OF assms(1), of "offset mod shards"] by auto
  ultimately show ?thesis using rotation_set(2) [OF assms(1), of "offset mod shards"] by simp
qed

lemma take_rev_sort:
  assumes "distinct xs" "a \<in> set (take n (rev (sort xs)))" "b \<in> set xs" "b \<notin> set (take n (rev (sort xs)))"
  shows "b < (a :: int)"
proof -
  have "b \<in> set (drop n (rev (sort xs)))"
    using assms(3,4) set_append [of "take n (rev (sort xs))" "drop n (rev (sort xs))"] by auto
  moreover have "sorted_wrt (\<ge>) (take n (rev (sort xs)) @ drop n (rev (sort xs)))"
    unfolding append_take_drop_id sorted_wrt_rev by simp
  ultimately have "b \<le> a" using assms(2) by (simp only: sorted_wrt_append)
  moreover have "a \<noteq> b" using assms(2,4) by auto
  ultimately show ?thesis by simp
qed

text \<open>
  The plan of one replica. The target is the smallest share with which the live
  replicas cover every shard. A replica above it gives back exactly the surplus, its
  highest shards; a replica below it is offered exactly the shards it does not hold, each
  once; a replica at its target keeps what it has.
\<close>

theorem fair_share_plan_is_fair:
  assumes "1 \<le> shards" and "shards \<le> 4096" and "live \<le> 2 ^ 40" and "distinct owned"
    and "plan = fair_share_plan shards owned live offset"
  shows "shards \<le> rp_target plan * max live 1 \<and> (rp_target plan - 1) * max live 1 < shards \<and>
    (if int (length owned) > rp_target plan then
       int (length (rp_release plan)) = int (length owned) - rp_target plan \<and> set (rp_release plan) \<subseteq> set owned \<and>
       (\<forall>a \<in> set (rp_release plan). \<forall>b \<in> set owned - set (rp_release plan). b < a) \<and> rp_candidates plan = []
     else if int (length owned) < rp_target plan then
       set (rp_candidates plan) = {0..<shards} - set owned \<and> distinct (rp_candidates plan) \<and> rp_release plan = []
     else rp_candidates plan = [] \<and> rp_release plan = [])"
proof -
  have tgt: "rp_target plan = fair_share shards live" unfolding assms(5) using assms(1-3) by (intro plan_target) auto
  have cover: "shards \<le> rp_target plan * max live 1 \<and> (rp_target plan - 1) * max live 1 < shards"
    using fair_share_covers [of shards live] by (simp add: tgt algebra_simps)
  have pos: "0 \<le> rp_target plan"
  proof (rule ccontr)
    assume "\<not> 0 \<le> rp_target plan"
    then have "rp_target plan * max live 1 \<le> 0" by (intro mult_nonpos_nonneg) auto
    with cover assms(1) show False by linarith
  qed
  consider "int (length owned) > rp_target plan" | "int (length owned) < rp_target plan" | "int (length owned) = rp_target plan"
    by linarith
  then show ?thesis
  proof cases
    case 1
    then have rel: "rp_release plan = take (nat (int (length owned) - rp_target plan)) (rev (sort owned))"
        "rp_candidates plan = []"
      by (auto simp: assms(5) fair_share_plan_def Let_def split: if_splits)
    have "set (rp_release plan) \<subseteq> set owned" using set_take_subset [of _ "rev (sort owned)"] by (simp add: rel)
    moreover have "\<forall>a \<in> set (rp_release plan). \<forall>b \<in> set owned - set (rp_release plan). b < a"
      using take_rev_sort [OF assms(4)] unfolding rel by blast
    ultimately show ?thesis using 1 cover pos by (simp add: rel)
  next
    case 2
    then show ?thesis using plan_candidates [of shards owned live offset] assms(1) cover by (simp add: assms(5))
  next
    case 3
    then show ?thesis using cover by (auto simp: assms(5) fair_share_plan_def Let_def split: if_splits)
  qed
qed

theorem fair_share_plan_is_fair_witness:
  "set (rp_candidates (fair_share_plan 8 [1, 5] 3 2)) = {0..<8} - {1, 5}"
proof -
  have "rp_target (fair_share_plan 8 [1, 5] 3 2) = 3" by code_simp
  with fair_share_plan_is_fair [of 8 3 "[1, 5]" "fair_share_plan 8 [1, 5] 3 2" 2] show ?thesis by simp
qed

text \<open>
  (C29) No shard is orphaned: when the live replicas hold disjoint sets and some shard is
  free, at least one of them is below its target, and the free shard is on its list.
\<close>

theorem free_shard_has_a_taker:
  assumes "1 \<le> shards" and "shards \<le> 4096" and "fleet \<noteq> []" and "int (length fleet) \<le> 2 ^ 40"
    and "\<forall>m \<in> set fleet. distinct (fst m) \<and> set (fst m) \<subseteq> {0..<shards}"
    and "distinct (concat (map fst fleet))"
    and "0 \<le> shard" and "shard < shards" and "\<forall>m \<in> set fleet. shard \<notin> set (fst m)"
  shows "\<exists>(owned, offset) \<in> set fleet.
    shard \<in> set (rp_candidates (fair_share_plan shards owned (int (length fleet)) offset))"
proof -
  let ?live = "int (length fleet)"
  have live: "max ?live 1 = ?live" using assms(3) by (cases fleet) auto
  have tgt: "rp_target (fair_share_plan shards owned ?live offset) = fair_share shards ?live" for owned offset
    using assms(1,2,4) by (intro plan_target) auto
  have "\<exists>m \<in> set fleet. int (length (fst m)) < fair_share shards ?live"
  proof (rule ccontr)
    assume "\<not> ?thesis"
    then have all: "\<forall>m \<in> set fleet. fair_share shards ?live \<le> int (length (fst m))" by auto
    have "fair_share shards ?live * int (length ms) \<le> int (length (concat (map fst ms)))"
      if "set ms \<subseteq> set fleet" for ms
      using that
    proof (induction ms)
      case (Cons x ms)
      then have "fair_share shards ?live \<le> int (length (fst x))" using all by auto
      with Cons show ?case by (simp add: algebra_simps)
    qed simp
    from this [of fleet] have "shards \<le> int (length (concat (map fst fleet)))"
      using fair_share_covers [of shards ?live] live by simp
    moreover have "length (concat (map fst fleet)) = card (set (concat (map fst fleet)))"
      by (rule distinct_card [OF assms(6), symmetric])
    moreover have "card (set (concat (map fst fleet))) \<le> card ({0..<shards} - {shard})"
      by (rule card_mono) (use assms(5,9) in auto)
    moreover have "int (card ({0..<shards} - {shard})) < shards" using assms(7,8) by simp
    ultimately show False by linarith
  qed
  then obtain owned offset where m: "(owned, offset) \<in> set fleet" "int (length owned) < fair_share shards ?live" by auto
  have "shard \<in> set (rp_candidates (fair_share_plan shards owned ?live offset))"
    using plan_candidates [of shards owned ?live offset] tgt m assms(1,7,8,9) by fastforce
  with m(1) show ?thesis by blast
qed

theorem free_shard_has_a_taker_witness:
  "\<exists>(owned, offset) \<in> set [([0, 1, 2], 0), ([5, 6, 7], 4), ([3], 1)].
     4 \<in> set (rp_candidates (fair_share_plan 8 owned (int (length [([0, 1, 2 :: int], 0 :: int), ([5, 6, 7], 4), ([3], 1)])) offset))"
  by (rule free_shard_has_a_taker) auto

end
