(* ===== verification/Protocol.thy ===== *)
theory Protocol
  imports Codec Geo Sharding
begin

text \<open>
  \<^verbatim>\<open>src/geotrack/realtime/protocol.py\<close>, the channel names of \<^verbatim>\<open>messaging/keys.py\<close> and the
  shapes of \<^verbatim>\<open>schemas/common.py\<close>: the frames a websocket client sends and receives.
  \<open>dumps\<close> and \<open>loads\<close> stand for orjson. Position frames are glued together from chunks
  that were serialised once; the main result is that gluing gives the very bytes that
  serialising the whole object would.
\<close>

subsection \<open>UUIDs and channel names\<close>

definition hex_char :: "int \<Rightarrow> char" where
  "hex_char d = (if d < 10 then char_of (48 + nat d) else char_of (87 + nat d))"

primrec hex :: "nat \<Rightarrow> int \<Rightarrow> string" where
  "hex 0 u = []"
| "hex (Suc k) u = hex k (u div 16) @ [hex_char (u mod 16)]"

text \<open>\<^verbatim>\<open>str(UUID)\<close>: 32 hexadecimal digits in groups of 8, 4, 4, 4 and 12.\<close>

definition uuid_str :: "uuid \<Rightarrow> string" where
  "uuid_str u =
     (let h = hex 32 u
      in take 8 h @ ''-'' @ take 4 (drop 8 h) @ ''-'' @ take 4 (drop 12 h) @ ''-'' @
         take 4 (drop 16 h) @ ''-'' @ drop 20 h)"

definition POSITIONS_CHANNEL :: string where "POSITIONS_CHANNEL = ''geo:ch:positions''"

definition user_channel :: "uuid \<Rightarrow> string" where
  "user_channel u = ''geo:ch:user:'' @ uuid_str u"

definition sessions_zset_key :: "uuid \<Rightarrow> string" where
  "sessions_zset_key u = ''geo:sessions:'' @ uuid_str u"

definition sessions_meta_key :: "uuid \<Rightarrow> string" where
  "sessions_meta_key u = ''geo:sessions:'' @ uuid_str u @ '':meta''"

text \<open>\<^verbatim>\<open>channel.rsplit(":", 1)[1]\<close>; \<open>uuid_of\<close> is the constructor \<^verbatim>\<open>UUID(text)\<close>.\<close>

definition after_last_colon :: "string \<Rightarrow> string option" where
  "after_last_colon s =
     (if CHR '':'' \<in> set s then Some (rev (takeWhile (\<lambda>c. c \<noteq> CHR '':'') (rev s))) else None)"

definition user_id_from_channel :: "(string \<Rightarrow> uuid option) \<Rightarrow> string \<Rightarrow> uuid option" where
  "user_id_from_channel uuid_of channel = Option.bind (after_last_colon channel) uuid_of"

lemma hex_length [simp]: "length (hex k u) = k"
  by (induction k arbitrary: u) simp_all

lemma hex_char_inj: "0 \<le> a \<Longrightarrow> a < 16 \<Longrightarrow> 0 \<le> b \<Longrightarrow> b < 16 \<Longrightarrow> hex_char a = hex_char b \<Longrightarrow> a = b"
proof -
  have "\<forall>a \<in> set [0..15]. \<forall>b \<in> set [0..15]. hex_char a = hex_char b \<longrightarrow> a = b" by code_simp
  then show "0 \<le> a \<Longrightarrow> a < 16 \<Longrightarrow> 0 \<le> b \<Longrightarrow> b < 16 \<Longrightarrow> hex_char a = hex_char b \<Longrightarrow> a = b" by simp
qed

lemma hex_inj: "0 \<le> u \<Longrightarrow> u < 16 ^ k \<Longrightarrow> 0 \<le> v \<Longrightarrow> v < 16 ^ k \<Longrightarrow> hex k u = hex k v \<Longrightarrow> u = v"
proof (induction k arbitrary: u v)
  case (Suc k)
  then have "hex k (u div 16) = hex k (v div 16)" "hex_char (u mod 16) = hex_char (v mod 16)" by simp_all
  moreover have "0 \<le> u div 16" "u div 16 < 16 ^ k" "0 \<le> v div 16" "v div 16 < 16 ^ k" using Suc.prems by simp_all
  ultimately have "u div 16 = v div 16" "u mod 16 = v mod 16"
    using Suc.IH hex_char_inj [of "u mod 16" "v mod 16"] by simp_all
  then show ?case by (metis mult_div_mod_eq)
qed simp

lemma hex_chars: "c \<in> set (hex k u) \<Longrightarrow> c \<noteq> CHR '':'' \<and> c \<noteq> CHR ''-''"
proof (induction k arbitrary: u)
  case (Suc k)
  have "\<forall>d \<in> set [0..15]. hex_char d \<noteq> CHR '':'' \<and> hex_char d \<noteq> CHR ''-''" by code_simp
  then have "hex_char (u mod 16) \<noteq> CHR '':'' \<and> hex_char (u mod 16) \<noteq> CHR ''-''" by simp
  with Suc show ?case by auto
qed simp

lemma regroup: "take 8 h @ take 4 (drop 8 h) @ take 4 (drop 12 h) @ take 4 (drop 16 h) @ drop 20 h = h"
proof -
  have "take 4 (drop 16 h) @ drop 20 h = drop 16 h" using append_take_drop_id [of 4 "drop 16 h"] by simp
  moreover have "take 4 (drop 12 h) @ drop 16 h = drop 12 h" using append_take_drop_id [of 4 "drop 12 h"] by simp
  moreover have "take 4 (drop 8 h) @ drop 12 h = drop 8 h" using append_take_drop_id [of 4 "drop 8 h"] by simp
  ultimately show ?thesis by simp
qed

lemma uuid_str_inj:
  assumes "0 \<le> u" "u < 2 ^ 128" "0 \<le> v" "v < 2 ^ 128" "uuid_str u = uuid_str v"
  shows "u = v"
proof -
  have strip: "filter (\<lambda>c. c \<noteq> CHR ''-'') (uuid_str w) = hex 32 w" for w
  proof -
    have id: "filter (\<lambda>c. c \<noteq> CHR ''-'') xs = xs" if "set xs \<subseteq> set (hex 32 w)" for xs
      using that hex_chars by (intro filter_True) blast
    have "filter (\<lambda>c. c \<noteq> CHR ''-'') (uuid_str w) =
        take 8 (hex 32 w) @ take 4 (drop 8 (hex 32 w)) @ take 4 (drop 12 (hex 32 w)) @ take 4 (drop 16 (hex 32 w)) @ drop 20 (hex 32 w)"
      unfolding uuid_str_def Let_def
      by (simp add: id order_trans [OF set_take_subset] order_trans [OF set_take_subset set_drop_subset] set_drop_subset set_take_subset)
    also have "\<dots> = hex 32 w" by (rule regroup)
    finally show ?thesis .
  qed
  have "hex 32 u = hex 32 v" using assms(5) strip by metis
  then show ?thesis using assms by (intro hex_inj [where k = 32]) auto
qed


lemma user_id_round_trip:
  "uuid_of (uuid_str u) = Some u \<Longrightarrow> user_id_from_channel uuid_of (user_channel u) = Some u"
proof -
  have "CHR '':'' \<notin> set (uuid_str u)"
    unfolding uuid_str_def Let_def using hex_chars
    by (auto dest!: in_set_takeD in_set_dropD)
  then have "takeWhile (\<lambda>c. c \<noteq> CHR '':'') (rev (uuid_str u) @ CHR '':'' # rest) = rev (uuid_str u)" for rest
    by (subst takeWhile_append2) auto
  then have "after_last_colon (user_channel u) = Some (uuid_str u)"
    by (simp add: after_last_colon_def user_channel_def)
  then show "uuid_of (uuid_str u) = Some u \<Longrightarrow> ?thesis" by (simp add: user_id_from_channel_def)
qed

subsection \<open>Frames\<close>

definition PROTOCOL_VERSION :: int where "PROTOCOL_VERSION = 1"
definition CLOSE_SLOW_CONSUMER :: int where "CLOSE_SLOW_CONSUMER = 1013"
definition CLOSE_UNAUTHORIZED :: int where "CLOSE_UNAUTHORIZED = 4401"
definition CLOSE_TOO_MANY_SESSIONS :: int where "CLOSE_TOO_MANY_SESSIONS = 4429"
definition CLOSE_PROTOCOL_ERROR :: int where "CLOSE_PROTOCOL_ERROR = 1008"

datatype protocol_error =
    InvalidJson string | NotAnObject | ViewportShape | InvalidBbox | PingNeedsInteger | UnsupportedType json

datatype client_message = ViewportMessage bbox | PingMessage int

record session_info =
  si_id :: uuid
  si_label :: string
  si_connected_at :: micros

definition hello_frame :: "dumps \<Rightarrow> uuid \<Rightarrow> json \<Rightarrow> int \<Rightarrow> millis \<Rightarrow> bytes" where
  "hello_frame dumps session_id user tick_ms server_t =
     dumps (JObj [(''type'', JStr ''hello''), (''protocol'', JInt PROTOCOL_VERSION),
       (''session_id'', JStr (uuid_str session_id)), (''user'', user), (''tick_ms'', JInt tick_ms),
       (''server_t'', JInt server_t)])"

definition encode_position_item :: "dumps \<Rightarrow> position_item \<Rightarrow> bytes" where
  "encode_position_item dumps i = dumps (item_json i)"

fun join :: "bytes \<Rightarrow> bytes list \<Rightarrow> bytes" where
  "join sep [] = []"
| "join sep [x] = x"
| "join sep (x # y # xs) = x @ sep @ join sep (y # xs)"

definition quoted :: "string \<Rightarrow> bytes" where
  "quoted k = CHR 0x22 # k @ [CHR 0x22]"

definition positions_frame :: "dumps \<Rightarrow> bool \<Rightarrow> millis \<Rightarrow> bytes list \<Rightarrow> string list \<Rightarrow> bytes" where
  "positions_frame dumps full t_ms item_chunks removed =
     ''{'' @ quoted ''type'' @ '':'' @ quoted ''positions'' @ '','' @ quoted ''full'' @ '':'' @
     (if full then ''true'' else ''false'') @ '','' @ quoted ''t'' @ '':'' @ str_int t_ms @ '','' @
     quoted ''items'' @ '':['' @ join '','' item_chunks @ ''],'' @ quoted ''removed'' @ '':'' @
     dumps (JList (map JStr removed)) @ ''}''"

definition alert_frame :: "dumps \<Rightarrow> json \<Rightarrow> bytes" where
  "alert_frame dumps alert = dumps (JObj [(''type'', JStr ''alert''), (''alert'', alert)])"

datatype zone_op = Created | Updated | Deleted

fun zone_op_str :: "zone_op \<Rightarrow> string" where
  "zone_op_str Created = ''created''"
| "zone_op_str Updated = ''updated''"
| "zone_op_str Deleted = ''deleted''"

text \<open>The body is the zone's own representation, or just its id once it is gone.\<close>

definition zone_frame :: "dumps \<Rightarrow> zone_op \<Rightarrow> json + uuid \<Rightarrow> bytes" where
  "zone_frame dumps op zone =
     dumps (JObj [(''type'', JStr ''zone''), (''op'', JStr (zone_op_str op)),
       (''zone'', case zone of Inl body \<Rightarrow> body | Inr zid \<Rightarrow> JObj [(''id'', JStr (uuid_str zid))])])"

definition sessions_frame :: "dumps \<Rightarrow> (micros \<Rightarrow> string) \<Rightarrow> session_info list \<Rightarrow> bytes" where
  "sessions_frame dumps isofmt sessions =
     dumps (JObj [(''type'', JStr ''sessions''), (''count'', JInt (int (length sessions))),
       (''sessions'', JList (map (\<lambda>s. JObj [(''id'', JStr (uuid_str (si_id s))), (''label'', JStr (si_label s)),
          (''connected_at'', JStr (isofmt (si_connected_at s)))]) sessions))])"

text \<open>\<^verbatim>\<open>round(x, 1)\<close> is correctly rounded half to even and is an argument here.\<close>

definition stats_frame :: "dumps \<Rightarrow> (rat \<Rightarrow> rat) \<Rightarrow> millis \<Rightarrow> int \<Rightarrow> rat \<Rightarrow> int \<Rightarrow> int \<Rightarrow> bytes" where
  "stats_frame dumps round1 t_ms devices updates_per_s connections backlog =
     dumps (JObj [(''type'', JStr ''stats''), (''t'', JInt t_ms), (''devices'', JInt devices),
       (''updates_per_s'', JFloat (Fin (round1 updates_per_s))), (''connections'', JInt connections),
       (''backlog'', JInt backlog)])"

definition pong_frame :: "dumps \<Rightarrow> int \<Rightarrow> millis \<Rightarrow> bytes" where
  "pong_frame dumps t server_t = dumps (JObj [(''type'', JStr ''pong''), (''t'', JInt t), (''server_t'', JInt server_t)])"

definition error_frame :: "dumps \<Rightarrow> string \<Rightarrow> string \<Rightarrow> int option \<Rightarrow> bytes" where
  "error_frame dumps code detail seq =
     dumps (JObj ([(''type'', JStr ''error''), (''code'', JStr code), (''detail'', JStr detail)] @
       (case seq of None \<Rightarrow> [] | Some n \<Rightarrow> [(''seq'', JInt n)])))"

definition ack_frame :: "dumps \<Rightarrow> int \<Rightarrow> int \<Rightarrow> bytes" where
  "ack_frame dumps seq accepted = dumps (JObj [(''type'', JStr ''ack''), (''seq'', JInt seq), (''accepted'', JInt accepted)])"

definition throttle_frame :: "dumps \<Rightarrow> int \<Rightarrow> bytes" where
  "throttle_frame dumps retry_after_ms =
     dumps (JObj [(''type'', JStr ''throttle''), (''retry_after_ms'', JInt retry_after_ms)])"

definition parse_client_message ::
  "(string \<Rightarrow> pyfloat option) \<Rightarrow> loads \<Rightarrow> bytes \<Rightarrow> protocol_error + client_message" where
  "parse_client_message float_of loads raw =
     (case loads raw of
        Inl msg \<Rightarrow> Inl (InvalidJson msg)
      | Inr (JObj payload) \<Rightarrow>
          (case map_of payload ''type'' of
             Some (JStr kind) \<Rightarrow>
               if kind = ''viewport'' then
                 (case map_of payload ''bbox'' of
                    Some (JList [w, s, e, n]) \<Rightarrow>
                      (case (to_float float_of w, to_float float_of s, to_float float_of e, to_float float_of n) of
                         (Some fw, Some fs, Some fe, Some fn) \<Rightarrow>
                           (case BBox fw fs fe fn of
                              Inl _ \<Rightarrow> Inl InvalidBbox
                            | Inr b \<Rightarrow> Inr (ViewportMessage b))
                       | _ \<Rightarrow> Inl InvalidBbox)
                  | _ \<Rightarrow> Inl ViewportShape)
               else if kind = ''ping'' then
                 (case (case map_of payload ''t'' of None \<Rightarrow> Some 0 | Some t \<Rightarrow> as_int t) of
                    Some t \<Rightarrow> Inr (PingMessage t)
                  | None \<Rightarrow> Inl PingNeedsInteger)
               else Inl (UnsupportedType (JStr kind))
           | Some other \<Rightarrow> Inl (UnsupportedType other)
           | None \<Rightarrow> Inl (UnsupportedType JNull))
      | Inr _ \<Rightarrow> Inl NotAnObject)"


subsection \<open>Glued frames\<close>

text \<open>What orjson documents of its compact output.\<close>

definition compact :: "dumps \<Rightarrow> bool" where
  "compact dumps \<longleftrightarrow>
     (\<forall>b. dumps (JBool b) = (if b then ''true'' else ''false'')) \<and>
     (\<forall>n. dumps (JInt n) = str_int n) \<and>
     (\<forall>s. list_all (\<lambda>c. c \<in> set ''abcdefghijklmnopqrstuvwxyz'') s \<longrightarrow> dumps (JStr s) = quoted s) \<and>
     (\<forall>xs. dumps (JList xs) = ''['' @ join '','' (map dumps xs) @ '']'') \<and>
     (\<forall>kvs. dumps (JObj kvs) = ''{'' @ join '','' (map (\<lambda>(k, v). dumps (JStr k) @ '':'' @ dumps v) kvs) @ ''}'')"

lemma join_append: "ys \<noteq> [] \<Longrightarrow> xs \<noteq> [] \<Longrightarrow> join sep (xs @ ys) = join sep xs @ sep @ join sep ys"
  by (induction sep xs rule: join.induct) (auto simp: neq_Nil_conv)

lemma join_concat: "[] \<notin> set groups \<Longrightarrow> join sep (map (join sep) groups) = join sep (concat groups)"
proof (induction groups)
  case (Cons g gs)
  show ?case
  proof (cases gs)
    case (Cons h hs)
    with Cons.IH Cons.prems have "join sep (map (join sep) gs) = join sep (concat gs)" by simp
    moreover have "concat gs \<noteq> []" "g \<noteq> []" using Cons Cons.prems by auto
    moreover have "join sep (map (join sep) (g # gs)) = join sep g @ sep @ join sep (map (join sep) gs)"
      by (simp add: Cons)
    ultimately show ?thesis by (simp add: join_append)
  qed simp
qed simp

text \<open>
  A position frame glued from per-cell chunks is byte for byte the serialisation of
  the whole frame, provided no chunk is empty (an empty one would leave a stray comma).
\<close>

theorem glued_frame_is_the_serialised_frame:
  assumes "compact dumps" and "[] \<notin> set groups"
  shows "positions_frame dumps full t_ms (map (\<lambda>g. join '','' (map (encode_position_item dumps) g)) groups) removed =
    dumps (JObj [(''type'', JStr ''positions''), (''full'', JBool full), (''t'', JInt t_ms),
      (''items'', JList (map item_json (concat groups))), (''removed'', JList (map JStr removed))])"
proof -
  have "join '','' (map (join '','') (map (map (encode_position_item dumps)) groups)) =
      join '','' (concat (map (map (encode_position_item dumps)) groups))"
    using assms(2) by (intro join_concat) auto
  then have body: "join '','' (map (\<lambda>g. join '','' (map (encode_position_item dumps) g)) groups) =
      join '','' (map dumps (map item_json (concat groups)))"
    by (simp add: o_def map_concat encode_position_item_def [abs_def])
  have str: "dumps (JStr ''type'') = quoted ''type''" "dumps (JStr ''positions'') = quoted ''positions''"
    "dumps (JStr ''full'') = quoted ''full''" "dumps (JStr ''t'') = quoted ''t''"
    "dumps (JStr ''items'') = quoted ''items''" "dumps (JStr ''removed'') = quoted ''removed''"
    using assms(1) by (simp_all add: compact_def)
  have shape: "dumps (JBool b) = (if b then ''true'' else ''false'')" "dumps (JInt n) = str_int n"
    "dumps (JList xs) = ''['' @ join '','' (map dumps xs) @ '']''"
    "dumps (JObj kvs) = ''{'' @ join '','' (map (\<lambda>(k, v). dumps (JStr k) @ '':'' @ dumps v) kvs) @ ''}''" for b n xs kvs
    using assms(1) by (simp_all add: compact_def)
  show ?thesis unfolding positions_frame_def body by (simp add: shape(4) str) (simp add: shape)
qed

fun plain_dumps :: "json \<Rightarrow> bytes" where
  "plain_dumps JNull = ''null''"
| "plain_dumps (JBool b) = (if b then ''true'' else ''false'')"
| "plain_dumps (JInt n) = str_int n"
| "plain_dumps (JFloat f) = ''0.5''"
| "plain_dumps (JStr s) = quoted s"
| "plain_dumps (JList xs) = ''['' @ join '','' (map plain_dumps xs) @ '']''"
| "plain_dumps (JObj kvs) = ''{'' @ join '','' (map (\<lambda>kv. quoted (fst kv) @ '':'' @ plain_dumps (snd kv)) kvs) @ ''}''"

lemma plain_dumps_compact: "compact plain_dumps"
  by (simp add: compact_def case_prod_unfold)

theorem glued_frame_is_the_serialised_frame_witness:
  "positions_frame plain_dumps True 7
     (map (\<lambda>g. join '','' (map (encode_position_item plain_dumps) g)) [[(''a'', 1, 2, 3), (''b'', 1, 2, 3)], [(''c'', 1, 2, 3)]]) [''d''] =
   plain_dumps (JObj [(''type'', JStr ''positions''), (''full'', JBool True), (''t'', JInt 7),
      (''items'', JList (map item_json [(''a'', 1, 2, 3), (''b'', 1, 2, 3), (''c'', 1, 2, 3)])), (''removed'', JList [JStr ''d''])])"
  using glued_frame_is_the_serialised_frame [OF plain_dumps_compact, of "[[(''a'', 1, 2, 3), (''b'', 1, 2, 3)], [(''c'', 1, 2, 3)]]" True 7 "[''d'']"]
  by simp

text \<open>
  Whatever a client sends, a viewport that is accepted is a valid bounding box; all
  other input is one of the documented protocol errors or a ping.
\<close>

theorem accepted_viewport_is_valid:
  assumes "parse_client_message float_of loads raw = Inr (ViewportMessage b)"
  shows "wf_bbox b"
proof -
  obtain fw fs fe fn where "BBox fw fs fe fn = Inr b"
    using assms by (auto simp: parse_client_message_def split: sum.splits json.splits option.splits list.splits if_splits)
  then show ?thesis by (rule BBox_wf)
qed

theorem accepted_viewport_is_valid_witness:
  "\<exists>b. parse_client_message (\<lambda>_. None)
     (\<lambda>_. Inr (JObj [(''type'', JStr ''viewport''), (''bbox'', JList [JInt 170, JInt (- 10), JInt (- 170), JInt 10])])) [] =
       Inr (ViewportMessage b) \<and> wf_bbox b"
proof -
  have "\<exists>b. parse_client_message (\<lambda>_. None)
     (\<lambda>_. Inr (JObj [(''type'', JStr ''viewport''), (''bbox'', JList [JInt 170, JInt (- 10), JInt (- 170), JInt 10])])) [] =
       Inr (ViewportMessage b)" by (simp add: parse_client_message_def fl_of_int [of 170, simplified] fl_of_int [of "- 10", simplified]
        fl_of_int [of "- 170", simplified] fl_of_int [of 10, simplified])
  then obtain b where "parse_client_message (\<lambda>_. None)
     (\<lambda>_. Inr (JObj [(''type'', JStr ''viewport''), (''bbox'', JList [JInt 170, JInt (- 10), JInt (- 170), JInt 10])])) [] =
       Inr (ViewportMessage b)" ..
  with accepted_viewport_is_valid [OF this] show ?thesis by blast
qed

end
