(* ===== verification/Publisher.thy ===== *)
theory Publisher
  imports Batch_Properties Protocol
begin

text \<open>
  \<^verbatim>\<open>src/geotrack/processor/publisher.py\<close> and the response shapes of \<^verbatim>\<open>schemas/alerts.py\<close>:
  the fan-out of a committed batch. \<open>isofmt\<close> is pydantic's rendering of a timestamp. A
  pipeline that fails after some of its frames were delivered is described by how many
  got through.
\<close>

definition PUBLISH_CHUNK :: nat where "PUBLISH_CHUNK = 256"

fun kind_str :: "alert_kind \<Rightarrow> string" where
  "kind_str ENTER = ''enter''"
| "kind_str EXIT = ''exit''"
| "kind_str DWELL = ''dwell''"

text \<open>Building the response model fails when the device id has not the documented shape.\<close>

definition alert_payload :: "(micros \<Rightarrow> string) \<Rightarrow> alert_row \<Rightarrow> json option" where
  "alert_payload isofmt row =
     (if \<not> DEVICE_ID_RE (al_device_id row) then None
      else Some (JObj
        [(''id'', JInt (al_id row)), (''kind'', JStr (kind_str (al_kind row))),
         (''zone'', JObj [(''id'', case al_zone_id row of None \<Rightarrow> JNull | Some zid \<Rightarrow> JStr (uuid_str zid)),
                          (''name'', JStr (al_zone_name row))]),
         (''device_id'', JStr (al_device_id row)), (''latitude'', JFloat (Fin (al_latitude row))),
         (''longitude'', JFloat (Fin (al_longitude row))), (''occurred_at'', JStr (isofmt (al_occurred_at row))),
         (''created_at'', JStr (isofmt (al_created_at row)))]))"

definition frame_for :: "dumps \<Rightarrow> (micros \<Rightarrow> string) \<Rightarrow> alert_row \<Rightarrow> bytes option" where
  "frame_for dumps isofmt alert = map_option (alert_frame dumps) (alert_payload isofmt alert)"

type_synonym message = "string \<times> bytes"

fun fan_out_alerts :: "dumps \<Rightarrow> (micros \<Rightarrow> string) \<Rightarrow> message list \<Rightarrow> alert_row list \<Rightarrow> message list list" where
  "fan_out_alerts dumps isofmt pending [] = (if pending = [] then [] else [pending])"
| "fan_out_alerts dumps isofmt pending (alert # rows) =
     (let pending' = (case frame_for dumps isofmt alert of
                        None \<Rightarrow> pending
                      | Some frame \<Rightarrow> pending @ [(user_channel (al_user_id alert), frame)])
      in if PUBLISH_CHUNK \<le> length pending' then pending' # fan_out_alerts dumps isofmt [] rows
         else fan_out_alerts dumps isofmt pending' rows)"

text \<open>The flushes of one call, in order.\<close>

definition fan_out :: "dumps \<Rightarrow> (micros \<Rightarrow> string) \<Rightarrow> batch_result \<Rightarrow> message list list" where
  "fan_out dumps isofmt result =
     fan_out_alerts dumps isofmt
       (if br_accepted result = [] then []
        else [(POSITIONS_CHANNEL, encode_positions dumps (br_accepted result))]) (br_alerts result)"

text \<open>
  \<open>outcome n\<close> is what the \<open>n\<close>-th flush meets: \<open>None\<close> when it succeeds, \<open>Some k\<close> when
  it raises after the first \<open>k\<close> messages. The exception is swallowed by \<^verbatim>\<open>publish\<close>.
\<close>

fun flush_all :: "(nat \<Rightarrow> nat option) \<Rightarrow> nat \<Rightarrow> message list list \<Rightarrow> message list" where
  "flush_all outcome n [] = []"
| "flush_all outcome n (frames # rest) =
     (case outcome n of
        None \<Rightarrow> frames @ flush_all outcome (Suc n) rest
      | Some k \<Rightarrow> take k frames)"

definition publish :: "dumps \<Rightarrow> (micros \<Rightarrow> string) \<Rightarrow> (nat \<Rightarrow> nat option) \<Rightarrow> batch_result \<Rightarrow> message list" where
  "publish dumps isofmt outcome result =
     (if is_empty result then [] else flush_all outcome 0 (fan_out dumps isofmt result))"

subsection \<open>What is sent\<close>

definition alert_messages :: "dumps \<Rightarrow> (micros \<Rightarrow> string) \<Rightarrow> alert_row list \<Rightarrow> message list" where
  "alert_messages dumps isofmt rows =
     concat (map (\<lambda>a. case frame_for dumps isofmt a of
                        None \<Rightarrow> [] | Some frame \<Rightarrow> [(user_channel (al_user_id a), frame)]) rows)"

definition intended :: "dumps \<Rightarrow> (micros \<Rightarrow> string) \<Rightarrow> batch_result \<Rightarrow> message list" where
  "intended dumps isofmt result =
     (if br_accepted result = [] then []
      else [(POSITIONS_CHANNEL, encode_positions dumps (br_accepted result))]) @
     alert_messages dumps isofmt (br_alerts result)"

lemma fan_out_alerts_concat:
  "concat (fan_out_alerts dumps isofmt pending rows) = pending @ alert_messages dumps isofmt rows"
  by (induction dumps isofmt pending rows rule: fan_out_alerts.induct)
     (auto simp: alert_messages_def Let_def split: option.splits)

lemma fan_out_alerts_sizes:
  "length pending < PUBLISH_CHUNK \<Longrightarrow> chunk \<in> set (fan_out_alerts dumps isofmt pending rows) \<Longrightarrow>
   chunk \<noteq> [] \<and> length chunk \<le> PUBLISH_CHUNK"
proof (induction dumps isofmt pending rows rule: fan_out_alerts.induct)
  case (2 dumps isofmt pending alert rows)
  define pending' where "pending' = (case frame_for dumps isofmt alert of
      None \<Rightarrow> pending | Some frame \<Rightarrow> pending @ [(user_channel (al_user_id alert), frame)])"
  have len: "length pending' \<le> Suc (length pending)" by (simp add: pending'_def split: option.splits)
  have unfold: "fan_out_alerts dumps isofmt pending (alert # rows) =
      (if PUBLISH_CHUNK \<le> length pending' then pending' # fan_out_alerts dumps isofmt [] rows
       else fan_out_alerts dumps isofmt pending' rows)"
    by (simp add: pending'_def Let_def)
  show ?case
  proof (cases "PUBLISH_CHUNK \<le> length pending'")
    case True
    then have "pending' \<noteq> []" by (auto simp: PUBLISH_CHUNK_def)
    then show ?thesis
      using 2(1) [OF pending'_def True] 2(3,4) len True unfold by (auto simp: PUBLISH_CHUNK_def)
  next
    case False
    then show ?thesis using 2(2) [OF pending'_def False] 2(4) unfold by simp
  qed
qed (auto split: if_splits)

lemma flush_all_prefix: "\<exists>k. flush_all outcome n chunks = take k (concat chunks)"
proof (induction chunks arbitrary: n)
  case (Cons c cs)
  show ?case
  proof (cases "outcome n")
    case None
    with Cons [of "Suc n"] obtain k where "flush_all outcome n (c # cs) = c @ take k (concat cs)" by auto
    then show ?thesis by (intro exI [of _ "length c + k"]) simp
  next
    case (Some k)
    then show ?thesis by (intro exI [of _ "min k (length c)"]) (simp add: min_def)
  qed
qed simp

lemma flush_all_ok: "(\<And>i. n \<le> i \<Longrightarrow> i < n + length chunks \<Longrightarrow> outcome i = None) \<Longrightarrow> flush_all outcome n chunks = concat chunks"
  by (induction chunks arbitrary: n) auto

text \<open>
  The fan-out says everything once and in order: the positions frame first, then one
  frame per alert that can be rendered, in pipelines of at most 256 and never empty; when
  a pipeline fails, what was sent is a prefix of that, and the caller never sees an error.
\<close>

theorem fan_out_is_complete_and_ordered:
  "concat (fan_out dumps isofmt result) = intended dumps isofmt result \<and>
   (\<forall>chunk. chunk \<in> set (fan_out dumps isofmt result) \<longrightarrow> chunk \<noteq> [] \<and> length chunk \<le> PUBLISH_CHUNK) \<and>
   (\<exists>k. publish dumps isofmt outcome result = take k (intended dumps isofmt result)) \<and>
   ((\<forall>i < length (fan_out dumps isofmt result). outcome i = None) \<longrightarrow>
      publish dumps isofmt outcome result = intended dumps isofmt result)"
proof (intro conjI impI allI)
  let ?first = "if br_accepted result = [] then [] else [(POSITIONS_CHANNEL, encode_positions dumps (br_accepted result))]"
  show all: "concat (fan_out dumps isofmt result) = intended dumps isofmt result"
    by (simp add: fan_out_def intended_def fan_out_alerts_concat)
  have empty: "intended dumps isofmt result = []" if "is_empty result"
    using that by (simp add: is_empty_def intended_def alert_messages_def)
  show "\<exists>k. publish dumps isofmt outcome result = take k (intended dumps isofmt result)"
    using flush_all_prefix [of outcome 0 "fan_out dumps isofmt result"] by (auto simp: publish_def all intro: exI [of _ 0])
  show "publish dumps isofmt outcome result = intended dumps isofmt result"
    if "\<forall>i < length (fan_out dumps isofmt result). outcome i = None"
    using that flush_all_ok [of 0 "fan_out dumps isofmt result" outcome] by (simp add: publish_def all empty)
  fix chunk assume chunk: "chunk \<in> set (fan_out dumps isofmt result)"
  have "length ?first < PUBLISH_CHUNK" by (simp add: PUBLISH_CHUNK_def)
  from fan_out_alerts_sizes [OF this] chunk show "chunk \<noteq> []" "length chunk \<le> PUBLISH_CHUNK"
    by (auto simp: fan_out_def)
qed

definition sample_alert :: alert_row where
  "sample_alert = \<lparr>al_id = 1, al_user_id = 1, al_zone_id = Some 7, al_zone_name = ''depot'', al_device_id = ''dev-1'',
     al_kind = ENTER, al_latitude = 1, al_longitude = 2, al_occurred_at = 0, al_created_at = 0\<rparr>"

definition sample_result :: batch_result where
  "sample_result = \<lparr>br_accepted = [(''dev-1'', 1, 2, 3)], br_alerts = [sample_alert], br_stale = 0, br_rejected = []\<rparr>"

theorem fan_out_is_complete_and_ordered_witness:
  "publish plain_dumps (\<lambda>_. ''now'') (\<lambda>_. None) sample_result = intended plain_dumps (\<lambda>_. ''now'') sample_result"
  using fan_out_is_complete_and_ordered [of plain_dumps "\<lambda>_. ''now''" sample_result "\<lambda>_. None"] by simp

subsection \<open>Every committed alert can be rendered\<close>

lemma transition_device:
  "t \<in> set (transitions pg db acc) \<Longrightarrow> t_device_id t \<in> i_device_id ` set acc"
  by (auto simp: transitions_def Let_def inside_transitions_def exit_transitions_def hits_def
      split: option.splits if_splits)

lemma apply_once_alert_devices:
  assumes "apply_once bp pg shard env storable (latest_per_device storable) db = (Inr (acc, new), db')" "a \<in> set new"
  shows "al_device_id a \<in> lr_device_id ` set storable"
proof -
  obtain session rows where tx: "batch_transaction bp pg shard env storable (latest_per_device storable) session (at_world env db) = Inr (db', rows)"
    and rows: "collect_rows rows = (acc, new)"
    using assms(1) by (auto simp: apply_once_def Let_def split: sum.splits option.splits fault.splits)
  note cases = apply_batch_sql_cases(2) [OF input_distinct batch_transaction_ok(3) [OF tx]]
  have "\<exists>now seq db1 acc'. new = new_alerts now seq (transitions pg db1 acc') \<and> set acc' \<subseteq> input_of ` set (latest_per_device storable)"
    using rows unfolding cases collect_rows_split by (auto intro!: exI)
  then obtain now seq db1 acc' where "a \<in> set (new_alerts now seq (transitions pg db1 acc'))"
    "set acc' \<subseteq> input_of ` set (latest_per_device storable)" using assms(2) by blast
  then obtain t :: transition where "t \<in> set (transitions pg db1 acc')" "al_device_id a = t_device_id t"
    using new_alert_transition by metis
  then obtain x where "x \<in> set acc'" "al_device_id a = i_device_id x" using transition_device by fastforce
  moreover from this(1) obtain s where "s \<in> set (latest_per_device storable)" "x = input_of s"
    using \<open>set acc' \<subseteq> _\<close> by blast
  ultimately show ?thesis using latest_subset [of storable] by (auto simp: input_of_def)
qed

lemma apply_loop_success:
  "apply_loop bp pg shard envs storable deduped attempt db = (Inr out, db') \<Longrightarrow>
   \<exists>n db1. apply_once bp pg shard (envs n) storable deduped db1 = (Inr out, db')"
proof (induction bp pg shard envs storable deduped attempt db rule: apply_loop.induct)
  case (1 bp pg shard envs storable deduped attempt db)
  obtain o1 db1 where once: "apply_once bp pg shard (envs attempt) storable deduped db = (o1, db1)" by fastforce
  show ?case
  proof (cases o1)
    case (Inr x)
    with 1(2) once have "apply_once bp pg shard (envs attempt) storable deduped db = (Inr out, db')"
      by (subst (asm) apply_loop.simps) simp
    then show ?thesis by blast
  next
    case (Inl st)
    with 1(2) once have "should_retry st (attempt + 1) (bp_max_attempts bp)"
      "apply_loop bp pg shard envs storable deduped (attempt + 1) db1 = (Inr out, db')"
      by (subst (asm) apply_loop.simps, simp split: if_splits)+
    with 1(1) [OF once [symmetric] Inl] show ?thesis by blast
  qed
qed

text \<open>
  No committed alert is silently dropped: every alert a batch returns has a device id
  the client frame accepts, so each of them is among the messages to send.
\<close>

theorem every_batch_alert_is_sent:
  assumes "apply_batch bp pg shard now envs records db = (Inr res, db')" and "a \<in> set (br_alerts res)"
  shows "\<exists>frame. frame_for dumps isofmt a = Some frame \<and>
           (user_channel (al_user_id a), frame) \<in> set (intended dumps isofmt res)"
proof -
  obtain storable rejected where split: "split_storable (bp_settings bp) now records = (storable, rejected)" by fastforce
  obtain acc where "apply_loop bp pg shard envs storable (latest_per_device storable) 0 db = (Inr (acc, br_alerts res), db')"
    using assms by (auto simp: apply_batch_def split split: if_splits prod.splits sum.splits)
  from apply_loop_success [OF this] apply_once_alert_devices assms(2)
  have "al_device_id a \<in> lr_device_id ` set storable" by blast
  then have "DEVICE_ID_RE (al_device_id a)" using storable_iff [of _ "bp_settings bp" now records] by (auto simp: split)
  then obtain frame where "frame_for dumps isofmt a = Some frame" by (simp add: frame_for_def alert_payload_def)
  with assms(2) show ?thesis by (force simp: intended_def alert_messages_def)
qed

end
