(* ===== verification/Consumer.thy ===== *)
theory Consumer
  imports Publisher Leases
begin

text \<open>
  \<^verbatim>\<open>src/geotrack/processor/consumer.py\<close>: the loop that moves one shard's stream entries
  into the database. Redis answers come from the environment, one record of answers per
  turn of the loop; a call that runs into its ceiling is a transport failure, as
  \<^verbatim>\<open>bounded\<close> makes it. What the loop did to the outside world is kept in the state: the
  tables, the messages sent, the dead-letter stream and the acknowledgements issued.
\<close>

definition DB_BACKOFF_MIN_S :: rat where "DB_BACKOFF_MIN_S = 1 / 4"
definition DB_BACKOFF_MAX_S :: rat where "DB_BACKOFF_MAX_S = 2"
definition REDIS_OP_TIMEOUT_S :: rat where "REDIS_OP_TIMEOUT_S = 5"
definition UNKNOWN_COMMAND :: string where "UNKNOWN_COMMAND = ''unknown command''"
definition STREAM_FIELD :: bytes where "STREAM_FIELD = ''r''"

datatype cursor = PENDING | NEW

type_synonym stream_entry = "bytes \<times> (bytes \<times> bytes) list"

record dead_letter =
  dl_entry_id :: string
  dl_raw :: bytes
  dl_error :: string

text \<open>\<^verbatim>\<open>ResponseError\<close> is a server's refusal with its text, \<open>Transport\<close> any other \<^verbatim>\<open>RedisError\<close>.\<close>

datatype redis_failure = ResponseError string | Transport

record consumer_env =
  ce_read :: "redis_failure + stream_entry list"
  ce_xlen :: "redis_failure + int"
  ce_renew :: "redis_failure + bool"
  ce_now :: millis
  ce_attempts :: "int \<Rightarrow> attempt_env"
  ce_publish :: "nat \<Rightarrow> nat option"
  ce_dead :: "nat option"
  ce_xackdel :: "redis_failure option"
  ce_xack_xdel :: "redis_failure option"
  ce_groups :: "redis_failure option list"

record consumer =
  cs_cursor :: cursor
  cs_stopping :: bool
  cs_backoff_s :: rat
  cs_supports_xackdel :: bool
  cs_backlog :: int
  cs_db :: db
  cs_sent :: "message list"
  cs_dead_letters :: "dead_letter list"
  cs_acked :: "bytes list"

record consumer_config =
  cc_shard :: int
  cc_processor :: batch_processor
  cc_postgis :: postgis
  cc_dumps :: dumps
  cc_loads :: loads
  cc_isofmt :: "micros \<Rightarrow> string"

definition consumer_init :: "db \<Rightarrow> consumer" where
  "consumer_init db =
     \<lparr>cs_cursor = PENDING, cs_stopping = False, cs_backoff_s = DB_BACKOFF_MIN_S, cs_supports_xackdel = True,
      cs_backlog = 0, cs_db = db, cs_sent = [], cs_dead_letters = [], cs_acked = []\<rparr>"

definition request_stop :: "consumer \<Rightarrow> consumer" where
  "request_stop c = c\<lparr>cs_stopping := True\<rparr>"

definition sleep_backoff :: "consumer \<Rightarrow> consumer" where
  "sleep_backoff c = c\<lparr>cs_backoff_s := min (fl (cs_backoff_s c * 2)) DB_BACKOFF_MAX_S\<rparr>"

text \<open>\<^verbatim>\<open>_read\<close>: how long the server may block and the ceiling on the whole call, in seconds.\<close>

definition read_request :: "settings \<Rightarrow> cursor \<Rightarrow> int option \<times> rat" where
  "read_request cfg cur =
     (let block = (if cur = PENDING then None else Some (processor_block_ms cfg))
      in (block, fl (REDIS_OP_TIMEOUT_S + (case block of
            None \<Rightarrow> 0 | Some b \<Rightarrow> if b \<noteq> 0 then fl (of_int b / 1000) else 0))))"

definition contains_text :: "string \<Rightarrow> string \<Rightarrow> bool" where
  "contains_text needle hay = sublist needle hay"

definition lower :: "string \<Rightarrow> string" where
  "lower s = map (\<lambda>c. if CHR ''A'' \<le> c \<and> c \<le> CHR ''Z'' then char_of (of_char c + (32 :: nat)) else c) s"

definition ensure_group :: "redis_failure option \<Rightarrow> redis_failure option" where
  "ensure_group reply =
     (case reply of
        Some (ResponseError msg) \<Rightarrow> if contains_text ''BUSYGROUP'' msg then None else reply
      | _ \<Rightarrow> reply)"

text \<open>
  The answers to successive attempts. When they run out while Redis is still failing, it
  was a stop request that ended the loop.
\<close>

fun create_group_when_ready :: "redis_failure option list \<Rightarrow> consumer \<Rightarrow> consumer" where
  "create_group_when_ready [] c = request_stop c"
| "create_group_when_ready (reply # replies) c =
     (if cs_stopping c then c
      else (case ensure_group reply of
              None \<Rightarrow> c\<lparr>cs_backoff_s := DB_BACKOFF_MIN_S\<rparr>
            | Some _ \<Rightarrow> create_group_when_ready replies (sleep_backoff c)))"

definition entry_raw :: "stream_entry \<Rightarrow> bytes" where
  "entry_raw e = (case map_of (snd e) STREAM_FIELD of None \<Rightarrow> [] | Some raw \<Rightarrow> raw)"

fun decode_entries ::
  "loads \<Rightarrow> stream_entry list \<Rightarrow> location_record list \<times> string list \<times> dead_letter list" where
  "decode_entries loads [] = ([], [], [])"
| "decode_entries loads (e # es) =
     (case decode_entries loads es of (records, sources, dead) \<Rightarrow>
        (case decode_record loads (entry_raw e) of
           Inl msg \<Rightarrow> (records, sources, \<lparr>dl_entry_id = fst e, dl_raw = entry_raw e, dl_error = msg\<rparr> # dead)
         | Inr r \<Rightarrow> (r # records, fst e # sources, dead)))"

definition rejected_letters :: "dumps \<Rightarrow> string list \<Rightarrow> rejected_record list \<Rightarrow> dead_letter list" where
  "rejected_letters dumps sources rejected =
     map (\<lambda>rj. \<lparr>dl_entry_id = sources ! nat (rj_index rj), dl_raw = encode_record dumps (rj_record rj),
               dl_error = rj_reason rj\<rparr>) rejected"

text \<open>A failing pipeline may have written its first entries already.\<close>

definition write_dead_letters :: "nat option \<Rightarrow> dead_letter list \<Rightarrow> consumer \<Rightarrow> bool \<times> consumer" where
  "write_dead_letters reply dead c =
     (case reply of
        None \<Rightarrow> (True, c\<lparr>cs_dead_letters := cs_dead_letters c @ dead\<rparr>)
      | Some k \<Rightarrow> (False, c\<lparr>cs_dead_letters := cs_dead_letters c @ take k dead\<rparr>))"

definition acknowledge ::
  "redis_failure option \<Rightarrow> redis_failure option \<Rightarrow> bytes list \<Rightarrow> consumer \<Rightarrow> bool \<times> consumer" where
  "acknowledge xackdel xack_xdel ids c =
     (let two_steps = (\<lambda>c. (xack_xdel = None, c\<lparr>cs_acked := cs_acked c @ ids\<rparr>))
      in if cs_supports_xackdel c then
           (case xackdel of
              None \<Rightarrow> (True, c\<lparr>cs_acked := cs_acked c @ ids\<rparr>)
            | Some Transport \<Rightarrow> (False, c\<lparr>cs_acked := cs_acked c @ ids\<rparr>)
            | Some (ResponseError msg) \<Rightarrow>
                if contains_text UNKNOWN_COMMAND (lower msg)
                then two_steps (c\<lparr>cs_supports_xackdel := False\<rparr>)
                else (False, c))
         else two_steps c)"

text \<open>One batch; the flag is false when the Python code raises.\<close>

definition handle :: "consumer_config \<Rightarrow> consumer_env \<Rightarrow> stream_entry list \<Rightarrow> consumer \<Rightarrow> bool \<times> consumer" where
  "handle cfg env entries c =
     (case decode_entries (cc_loads cfg) entries of (records, sources, dead) \<Rightarrow>
        (case (if records = []
               then (Inr \<lparr>br_accepted = [], br_alerts = [], br_stale = 0, br_rejected = []\<rparr>, cs_db c)
               else apply_batch (cc_processor cfg) (cc_postgis cfg) (cc_shard cfg) (ce_now env)
                      (ce_attempts env) records (cs_db c)) of
           (Inl _, db') \<Rightarrow> (False, c\<lparr>cs_db := db'\<rparr>)
         | (Inr res, db') \<Rightarrow>
             let c1 = c\<lparr>cs_db := db',
                        cs_sent := cs_sent c @ publish (cc_dumps cfg) (cc_isofmt cfg) (ce_publish env) res\<rparr>;
                 letters = dead @ rejected_letters (cc_dumps cfg) sources (br_rejected res);
                 written = (if letters = [] then (True, c1) else write_dead_letters (ce_dead env) letters c1)
             in if fst written
                then acknowledge (ce_xackdel env) (ce_xack_xdel env) (map fst entries) (snd written)
                else (False, snd written)))"

text \<open>One turn of the loop in \<^verbatim>\<open>run\<close>, entered while no stop was requested.\<close>

definition consumer_step :: "consumer_config \<Rightarrow> consumer_env \<Rightarrow> consumer \<Rightarrow> consumer" where
  "consumer_step cfg env c =
     (case (ce_read env, ce_xlen env) of
        (Inl (ResponseError _), _) \<Rightarrow> (create_group_when_ready (ce_groups env) c)\<lparr>cs_cursor := PENDING\<rparr>
      | (Inl Transport, _) \<Rightarrow> sleep_backoff (c\<lparr>cs_cursor := PENDING\<rparr>)
      | (Inr _, Inl (ResponseError _)) \<Rightarrow> (create_group_when_ready (ce_groups env) c)\<lparr>cs_cursor := PENDING\<rparr>
      | (Inr _, Inl Transport) \<Rightarrow> sleep_backoff (c\<lparr>cs_cursor := PENDING\<rparr>)
      | (Inr entries, Inr backlog) \<Rightarrow>
          let c1 = c\<lparr>cs_backlog := backlog\<rparr>
          in if entries = [] then c1\<lparr>cs_cursor := NEW\<rparr>
             else (case ce_renew env of
                     Inl _ \<Rightarrow> sleep_backoff (c1\<lparr>cs_cursor := PENDING\<rparr>)
                   | Inr False \<Rightarrow> request_stop c1
                   | Inr True \<Rightarrow>
                       (case handle cfg env entries c1 of
                          (True, c2) \<Rightarrow> c2\<lparr>cs_backoff_s := DB_BACKOFF_MIN_S\<rparr>
                        | (False, c2) \<Rightarrow> sleep_backoff (c2\<lparr>cs_cursor := PENDING\<rparr>))))"

fun consumer_run :: "consumer_config \<Rightarrow> consumer_env list \<Rightarrow> consumer \<Rightarrow> consumer" where
  "consumer_run cfg [] c = c"
| "consumer_run cfg (env # envs) c =
     (if cs_stopping c then c else consumer_run cfg envs (consumer_step cfg env c))"


subsection \<open>What happened to an entry\<close>

lemma decode_entries_entry:
  "decode_entries loads es = (records, sources, dead) \<Longrightarrow> e \<in> set es \<Longrightarrow>
   (case decode_record loads (entry_raw e) of
      Inl msg \<Rightarrow> \<lparr>dl_entry_id = fst e, dl_raw = entry_raw e, dl_error = msg\<rparr> \<in> set dead
    | Inr r \<Rightarrow> (\<exists>i < length records. records ! i = r \<and> sources ! i = fst e))"
proof (induction es arbitrary: records sources dead)
  case (Cons x es)
  obtain rs ss ds where rest: "decode_entries loads es = (rs, ss, ds)" by (cases "decode_entries loads es")
  show ?case
  proof (cases "decode_record loads (entry_raw x)")
    case (Inl msg)
    with Cons rest show ?thesis by (auto split: sum.splits)
  next
    case (Inr r)
    with Cons.prems(1) rest have eqs: "records = r # rs" "sources = fst x # ss" "dead = ds" by auto
    show ?thesis
    proof (cases "e = x")
      case True
      with Inr eqs show ?thesis by (auto intro: exI [of _ 0])
    next
      case False
      with Cons rest have "case decode_record loads (entry_raw e) of
          Inl msg \<Rightarrow> \<lparr>dl_entry_id = fst e, dl_raw = entry_raw e, dl_error = msg\<rparr> \<in> set ds
        | Inr r \<Rightarrow> (\<exists>i < length rs. rs ! i = r \<and> ss ! i = fst e)" by simp
      then show ?thesis unfolding eqs by (auto split: sum.splits)
    qed
  qed
qed simp

lemma apply_once_commits:
  "apply_once bp pg shard env storable deduped db = (Inr out, db') \<Longrightarrow>
   \<exists>session rows. batch_transaction bp pg shard env storable deduped session (at_world env db) = Inr (db', rows)"
  by (auto simp: apply_once_def Let_def split: sum.splits option.splits fault.splits) blast

lemma apply_batch_commits:
  assumes "apply_batch bp pg shard now envs records db = (Inr res, db')"
    and "split_storable (bp_settings bp) now records = (storable, rejected)" and "storable \<noteq> []"
  shows "\<exists>env session db1 rows. batch_transaction bp pg shard env storable (latest_per_device storable) session db1 = Inr (db', rows)"
proof -
  obtain out where "apply_loop bp pg shard envs storable (latest_per_device storable) 0 db = (Inr out, db')"
    using assms by (auto simp: apply_batch_def split: prod.splits sum.splits)
  from apply_loop_success [OF this] apply_once_commits show ?thesis by blast
qed

definition durable :: "db \<Rightarrow> location_record \<Rightarrow> bool" where
  "durable db r \<longleftrightarrow> \<not> fresh_report (device_positions db) (input_of r) \<and> archived db (input_of r)"

lemma apply_batch_settles:
  assumes "apply_batch bp pg shard now envs records db = (Inr res, db')" "i < length records"
  shows "durable db' (records ! i) \<or> (\<exists>why. \<lparr>rj_index = int i, rj_record = records ! i, rj_reason = why\<rparr> \<in> set (br_rejected res))"
proof -
  obtain storable rejected where split: "split_storable (bp_settings bp) now records = (storable, rejected)" by fastforce
  have rej: "br_rejected res = rejected"
    using assms(1) by (auto simp: apply_batch_def split split: if_splits prod.splits sum.splits)
  show ?thesis
  proof (cases "records ! i \<in> set storable")
    case True
    then have "storable \<noteq> []" by auto
    from apply_batch_commits [OF assms(1) split this] obtain env session db1 rows where
      tx: "batch_transaction bp pg shard env storable (latest_per_device storable) session db1 = Inr (db', rows)" by blast
    have "archived db' (input_of (records ! i))"
      using transaction_archive(1) [OF tx] archived_fold [of "map input_of storable" db1 "input_of (records ! i)"] True
      by (auto simp: archived_def)
    with committed_reports_stale [OF tx True] show ?thesis by (simp add: durable_def)
  next
    case False
    then obtain why where "unstorable_reason (records ! i) (history_oldest (bp_settings bp) now) (history_newest (bp_settings bp) now) = Some why"
      using assms(2) split by (cases "unstorable_reason (records ! i) (history_oldest (bp_settings bp) now) (history_newest (bp_settings bp) now)")
        (auto simp: split_storable_def Let_def)
    with rejected_iff [of _ "bp_settings bp" now records] assms(2) show ?thesis by (auto simp: rej split)
  qed
qed

definition settled :: "consumer_config \<Rightarrow> consumer \<Rightarrow> stream_entry \<Rightarrow> bool" where
  "settled cfg c e \<longleftrightarrow>
     (\<exists>dl \<in> set (cs_dead_letters c). dl_entry_id dl = fst e) \<or>
     (\<exists>r. decode_record (cc_loads cfg) (entry_raw e) = Inr r \<and> durable (cs_db c) r)"

lemma acknowledge_frame:
  "acknowledge a b ids c = (ok, c') \<Longrightarrow>
   cs_db c' = cs_db c \<and> cs_sent c' = cs_sent c \<and> cs_dead_letters c' = cs_dead_letters c \<and>
   (cs_acked c' = cs_acked c @ ids \<or> \<not> ok \<and> cs_acked c' = cs_acked c) \<and> cs_stopping c' = cs_stopping c"
  by (auto simp: acknowledge_def Let_def split: if_splits option.splits redis_failure.splits)

lemma handle_cases:
  assumes "handle cfg env entries c = (ok, c')"
  shows "\<not> ok \<and> cs_acked c' = cs_acked c \<or>
         cs_acked c' = cs_acked c @ map fst entries \<and> (\<forall>e \<in> set entries. settled cfg c' e)"
proof -
  obtain records sources dead where dec: "decode_entries (cc_loads cfg) entries = (records, sources, dead)"
    by (cases "decode_entries (cc_loads cfg) entries")
  obtain out db' where applied: "(if records = []
      then (Inr \<lparr>br_accepted = [], br_alerts = [], br_stale = 0, br_rejected = []\<rparr>, cs_db c)
      else apply_batch (cc_processor cfg) (cc_postgis cfg) (cc_shard cfg) (ce_now env) (ce_attempts env) records (cs_db c)) = (out, db')"
    by fastforce
  show ?thesis
  proof (cases out)
    case (Inl _)
    then show ?thesis using assms applied by (auto simp: handle_def dec)
  next
    case (Inr res)
    define c1 where "c1 = c\<lparr>cs_db := db', cs_sent := cs_sent c @ publish (cc_dumps cfg) (cc_isofmt cfg) (ce_publish env) res\<rparr>"
    define letters where "letters = dead @ rejected_letters (cc_dumps cfg) sources (br_rejected res)"
    define written where "written = (if letters = [] then (True, c1) else write_dead_letters (ce_dead env) letters c1)"
    have h: "handle cfg env entries c = (if fst written
        then acknowledge (ce_xackdel env) (ce_xack_xdel env) (map fst entries) (snd written) else (False, snd written))"
      using applied Inr by (simp add: handle_def dec Let_def c1_def letters_def written_def)
    have acked: "cs_acked (snd written) = cs_acked c"
      by (simp add: written_def c1_def write_dead_letters_def split: option.splits)
    show ?thesis
    proof (cases "fst written")
      case False
      then show ?thesis using assms h acked by auto
    next
      case True
      have dead: "set letters \<subseteq> set (cs_dead_letters (snd written))" "cs_db (snd written) = db'"
        using True by (auto simp: written_def c1_def write_dead_letters_def split: option.splits if_splits)
      have ack: "acknowledge (ce_xackdel env) (ce_xack_xdel env) (map fst entries) (snd written) = (ok, c')"
        using assms h True by simp
      have "settled cfg c' e" if e: "e \<in> set entries" for e
      proof (cases "decode_record (cc_loads cfg) (entry_raw e)")
        case (Inl msg)
        then have "\<lparr>dl_entry_id = fst e, dl_raw = entry_raw e, dl_error = msg\<rparr> \<in> set letters"
          using decode_entries_entry [OF dec e] by (simp add: letters_def)
        then show ?thesis using dead acknowledge_frame [OF ack] by (force simp: settled_def)
      next
        case (Inr r)
        then obtain i where i: "i < length records" "records ! i = r" "sources ! i = fst e"
          using decode_entries_entry [OF dec e] by auto
        then have "apply_batch (cc_processor cfg) (cc_postgis cfg) (cc_shard cfg) (ce_now env) (ce_attempts env) records (cs_db c) = (Inr res, db')"
          using applied \<open>out = Inr res\<close> by (auto split: if_splits)
        from apply_batch_settles [OF this i(1)] show ?thesis
        proof
          assume "durable db' (records ! i)"
          then show ?thesis using Inr i dead acknowledge_frame [OF ack] by (auto simp: settled_def)
        next
          assume "\<exists>why. \<lparr>rj_index = int i, rj_record = records ! i, rj_reason = why\<rparr> \<in> set (br_rejected res)"
          then obtain dl where "dl \<in> set letters" "dl_entry_id dl = fst e"
            using i by (force simp: letters_def rejected_letters_def)
          then show ?thesis using dead acknowledge_frame [OF ack] by (auto simp: settled_def)
        qed
      qed
      then show ?thesis using acknowledge_frame [OF ack] acked by auto
    qed
  qed
qed

lemma create_group_frame [simp]:
  "cs_acked (create_group_when_ready replies c) = cs_acked c"
  "cs_db (create_group_when_ready replies c) = cs_db c"
  "cs_sent (create_group_when_ready replies c) = cs_sent c"
  "cs_dead_letters (create_group_when_ready replies c) = cs_dead_letters c"
  by (induction replies c rule: create_group_when_ready.induct)
     (simp_all add: request_stop_def sleep_backoff_def split: option.splits)


text \<open>
  (C15) An entry is acknowledged only once it is settled: whenever a turn of the loop issues
  an acknowledgement, it does so for exactly the entries it read, and each of them is by
  then either durable (archived, and its device's stored position at least as new) or in
  the dead-letter stream under its own id.
\<close>

theorem acknowledged_entries_are_settled:
  assumes "cs_acked (consumer_step cfg env c) \<noteq> cs_acked c"
  shows "\<exists>entries. ce_read env = Inr entries \<and>
    cs_acked (consumer_step cfg env c) = cs_acked c @ map fst entries \<and>
    (\<forall>e \<in> set entries. settled cfg (consumer_step cfg env c) e)"
proof -
  obtain entries backlog where rd: "ce_read env = Inr entries" "ce_xlen env = Inr backlog" "entries \<noteq> []" "ce_renew env = Inr True"
    using assms by (auto simp: consumer_step_def Let_def sleep_backoff_def request_stop_def
        split: sum.splits redis_failure.splits if_splits bool.splits)
  obtain ok c2 where h: "handle cfg env entries (c\<lparr>cs_backlog := backlog\<rparr>) = (ok, c2)" by fastforce
  define c' where "c' = consumer_step cfg env c"
  have same: "cs_acked c' = cs_acked c2" "cs_db c' = cs_db c2" "cs_dead_letters c' = cs_dead_letters c2"
    using rd h by (auto simp: c'_def consumer_step_def Let_def sleep_backoff_def split: bool.splits)
  have "settled cfg c' e = settled cfg c2 e" for e by (simp add: settled_def same)
  then show ?thesis using handle_cases [OF h] assms same rd(1) by (auto simp: c'_def [symmetric])
qed

definition sample_config :: consumer_config where
  "sample_config = \<lparr>cc_shard = 0, cc_processor = sample_processor, cc_postgis = flat_earth, cc_dumps = plain_dumps,
     cc_loads = (\<lambda>raw. if raw = ''ok'' then Inr (record_json sample_record) else Inl ''bad''), cc_isofmt = (\<lambda>_. ''now'')\<rparr>"

definition sample_entries :: "stream_entry list" where
  "sample_entries = [(''1-0'', [(''r'', ''ok'')]), (''2-0'', [(''r'', ''garbage'')])]"

definition sample_turn :: consumer_env where
  "sample_turn = \<lparr>ce_read = Inr sample_entries, ce_xlen = Inr 2, ce_renew = Inr True, ce_now = sample_now,
     ce_attempts = (\<lambda>_. sample_env), ce_publish = (\<lambda>_. None), ce_dead = None,
     ce_xackdel = Some (ResponseError ''ERR Unknown command XACKDEL''), ce_xack_xdel = None, ce_groups = []\<rparr>"

lemma unknown_command_reply: "contains_text UNKNOWN_COMMAND (lower ''ERR Unknown command XACKDEL'')"
  by code_simp

theorem acknowledged_entries_are_settled_witness:
  "cs_acked (consumer_step sample_config sample_turn (consumer_init sample_db)) = [''1-0'', ''2-0''] \<and>
   map (settled sample_config (consumer_step sample_config sample_turn (consumer_init sample_db))) sample_entries = [True, True]"
proof -
  have dec: "decode_entries (cc_loads sample_config) sample_entries =
      ([sample_record], [''1-0''], [\<lparr>dl_entry_id = ''2-0'', dl_raw = ''garbage'', dl_error = ''invalid json: bad''\<rparr>])"
    by code_simp
  obtain res db' where "apply_batch sample_processor flat_earth 0 sample_now (\<lambda>_. sample_env) [sample_record] sample_db = (Inr res, db')"
    by (rule sample_batch)
  then have acked: "cs_acked (consumer_step sample_config sample_turn (consumer_init sample_db)) = [''1-0'', ''2-0'']"
    using dec unfolding consumer_step_def handle_def Let_def write_dead_letters_def acknowledge_def
    by (simp add: sample_turn_def consumer_init_def sample_entries_def sample_config_def unknown_command_reply)
  then have "cs_acked (consumer_step sample_config sample_turn (consumer_init sample_db)) \<noteq> cs_acked (consumer_init sample_db)"
    by (simp add: consumer_init_def)
  from acknowledged_entries_are_settled [OF this] acked show ?thesis by (auto simp: sample_turn_def sample_entries_def)
qed

subsection \<open>Failure, cursor and backoff\<close>

lemma backoff_values:
  "b \<in> {1/4, 1/2, 1, 2} \<Longrightarrow>
   min (fl (b * 2)) DB_BACKOFF_MAX_S \<in> {1/4, 1/2, 1, 2} \<and> min (fl (b * 2)) DB_BACKOFF_MAX_S = min (2 * b) DB_BACKOFF_MAX_S \<and>
   DB_BACKOFF_MIN_S \<le> b \<and> b \<le> DB_BACKOFF_MAX_S"
proof -
  have "fl (1/4 * 2) = 1/2" "fl (1/2 * 2) = 1" "fl (1 * 2) = 2" "fl (2 * 2) = 4" by code_simp+
  note vals = this
  show "b \<in> {1/4, 1/2, 1, 2} \<Longrightarrow> ?thesis"
    by (elim insertE emptyE; hypsubst; unfold vals DB_BACKOFF_MAX_S_def DB_BACKOFF_MIN_S_def) simp_all
qed

definition backoff_ok :: "consumer \<Rightarrow> bool" where
  "backoff_ok c \<longleftrightarrow> cs_backoff_s c \<in> {1/4, 1/2, 1, 2}"

lemma backoff_ok_sleep: "backoff_ok c \<Longrightarrow> backoff_ok (sleep_backoff c)"
  using backoff_values [of "cs_backoff_s c"] by (auto simp: backoff_ok_def sleep_backoff_def)

lemma backoff_ok_group: "backoff_ok c \<Longrightarrow> backoff_ok (create_group_when_ready replies c)"
  by (induction replies c rule: create_group_when_ready.induct)
     (auto simp: backoff_ok_sleep split: option.splits, auto simp: backoff_ok_def request_stop_def DB_BACKOFF_MIN_S_def)

lemma handle_backoff: "handle cfg env entries c = (ok, c') \<Longrightarrow> cs_backoff_s c' = cs_backoff_s c"
  by (auto simp: handle_def Let_def write_dead_letters_def acknowledge_def
      split: prod.splits sum.splits if_splits option.splits redis_failure.splits)

lemma backoff_ok_simps [simp]:
  "backoff_ok (c\<lparr>cs_cursor := x\<rparr>) = backoff_ok c" "backoff_ok (c\<lparr>cs_backlog := n\<rparr>) = backoff_ok c"
  "backoff_ok (request_stop c) = backoff_ok c" "backoff_ok (c\<lparr>cs_backoff_s := DB_BACKOFF_MIN_S\<rparr>)"
  by (simp_all add: backoff_ok_def request_stop_def DB_BACKOFF_MIN_S_def)

lemma handle_backoff_ok: "backoff_ok c \<Longrightarrow> handle cfg env entries c = (ok, c') \<Longrightarrow> backoff_ok c'"
  by (drule handle_backoff) (simp add: backoff_ok_def)

interpretation backoff: step_system "consumer_step cfg" backoff_ok for cfg
proof
  fix c env assume ok: "backoff_ok c"
  then have "backoff_ok c2" if "handle cfg env entries (c\<lparr>cs_backlog := backlog\<rparr>) = (fine, c2)" for entries backlog fine c2
    using that by (intro handle_backoff_ok [OF _ that]) simp
  with ok backoff_ok_group [OF ok] show "backoff_ok (consumer_step cfg env c)"
    by (auto simp: consumer_step_def Let_def split: sum.splits redis_failure.splits bool.splits prod.splits
        intro!: backoff_ok_sleep)
qed

lemma consumer_run_fold:
  "\<exists>k. consumer_run cfg envs c = fold (consumer_step cfg) (take k envs) c"
proof (induction envs arbitrary: c)
  case (Cons env envs)
  show ?case
  proof (cases "cs_stopping c")
    case False
    from Cons [of "consumer_step cfg env c"] obtain k where
      "consumer_run cfg envs (consumer_step cfg env c) = fold (consumer_step cfg) (take k envs) (consumer_step cfg env c)" ..
    with False show ?thesis by (intro exI [of _ "Suc k"]) simp
  qed (auto intro: exI [of _ 0])
qed simp

text \<open>
  Over any run the pause after a failure stays between a quarter of a second and two
  seconds, and it doubles from one failure to the next until it reaches the ceiling.
\<close>

theorem backoff_stays_in_range:
  "DB_BACKOFF_MIN_S \<le> cs_backoff_s (consumer_run cfg envs (consumer_init db)) \<and>
   cs_backoff_s (consumer_run cfg envs (consumer_init db)) \<le> DB_BACKOFF_MAX_S \<and>
   cs_backoff_s (sleep_backoff (consumer_run cfg envs (consumer_init db))) =
     min (2 * cs_backoff_s (consumer_run cfg envs (consumer_init db))) DB_BACKOFF_MAX_S"
proof -
  define c where "c = consumer_run cfg envs (consumer_init db)"
  have "backoff_ok (consumer_init db)" by (simp add: backoff_ok_def consumer_init_def DB_BACKOFF_MIN_S_def)
  then have "backoff_ok c" using consumer_run_fold [of cfg envs "consumer_init db"] backoff.run_keeps by (auto simp: c_def)
  from backoff_values [OF this [unfolded backoff_ok_def]] show ?thesis
    unfolding c_def [symmetric] by (simp add: sleep_backoff_def)
qed

text \<open>
  (C27) Nothing is skipped: after a turn that read entries, either all of them were
  acknowledged and the call succeeded, or the loop stops, or it goes back to the pending
  list, which still holds them.
\<close>

theorem unfinished_entries_are_read_again:
  assumes "ce_read env = Inr entries" and "entries \<noteq> []"
  shows "cs_acked (consumer_step cfg env c) = cs_acked c @ map fst entries \<and> cs_cursor (consumer_step cfg env c) = cs_cursor c \<or>
         cs_stopping (consumer_step cfg env c) \<or> cs_cursor (consumer_step cfg env c) = PENDING"
proof (cases "\<exists>backlog. ce_xlen env = Inr backlog \<and> ce_renew env = Inr True")
  case True
  then obtain backlog where rd: "ce_xlen env = Inr backlog" "ce_renew env = Inr True" by blast
  obtain ok c2 where h: "handle cfg env entries (c\<lparr>cs_backlog := backlog\<rparr>) = (ok, c2)" by fastforce
  have "cs_cursor c2 = cs_cursor c"
    using h by (auto simp: handle_def Let_def write_dead_letters_def acknowledge_def
        split: prod.splits sum.splits if_splits option.splits redis_failure.splits)
  then show ?thesis
    using handle_cases [OF h] assms rd h by (cases ok) (auto simp: consumer_step_def Let_def sleep_backoff_def)
qed (use assms in \<open>auto simp: consumer_step_def Let_def sleep_backoff_def request_stop_def
      split: sum.splits redis_failure.splits bool.splits\<close>)

theorem unfinished_entries_are_read_again_witness:
  "cs_cursor (consumer_step sample_config (sample_turn\<lparr>ce_renew := Inl Transport\<rparr>) (consumer_init sample_db)) = PENDING"
  using unfinished_entries_are_read_again [of "sample_turn\<lparr>ce_renew := Inl Transport\<rparr>" sample_entries sample_config "consumer_init sample_db"]
  by (auto simp: sample_turn_def sample_entries_def consumer_init_def consumer_step_def Let_def sleep_backoff_def)


subsection \<open>Redelivery through the loop\<close>

lemma storable_shrinks:
  assumes "now1 \<le> now2" "\<forall>r \<in> set records. lr_reported_ms r \<le> history_newest cfg now1"
  shows "set (fst (split_storable cfg now2 records)) \<subseteq> set (fst (split_storable cfg now1 records))"
  using assms by (auto simp: storable_iff history_oldest_def)

lemma publish_empty: "publish dumps isofmt outcome \<lparr>br_accepted = [], br_alerts = [], br_stale = n, br_rejected = rj\<rparr> = []"
  by (simp add: publish_def is_empty_def)

lemma reapply_batch:
  assumes first: "apply_batch bp pg shard now1 envs1 records db = (Inr res, db')"
    and "now1 \<le> now2" "\<forall>r \<in> set records. lr_reported_ms r \<le> history_newest (bp_settings bp) now1"
    and "quiet (envs2 0)" "at_world (envs2 0) db' = db'"
  shows "\<exists>n rejected. apply_batch bp pg shard now2 envs2 records db' =
    (Inr \<lparr>br_accepted = [], br_alerts = [], br_stale = n, br_rejected = rejected\<rparr>, db')"
proof -
  obtain storable rejected where split: "split_storable (bp_settings bp) now1 records = (storable, rejected)" by fastforce
  have sub: "set (fst (split_storable (bp_settings bp) now2 records)) \<subseteq> set storable"
    using storable_shrinks [OF assms(2,3)] by (simp add: split)
  show ?thesis
  proof (cases "storable = []")
    case True
    then have "fst (split_storable (bp_settings bp) now2 records) = []" using sub by auto
    then show ?thesis by (cases "split_storable (bp_settings bp) now2 records") (auto simp: apply_batch_def)
  next
    case False
    from apply_batch_commits [OF first split False] obtain env session db1 rows where
      tx: "batch_transaction bp pg shard env storable (latest_per_device storable) session db1 = Inr (db', rows)" by blast
    from redelivered_batch [where envs = envs2, OF tx sub assms(4,5)] show ?thesis by blast
  qed
qed

text \<open>
  At-least-once delivery has the effect of exactly once: when the entries of a batch
  that committed come back, because the acknowledgement or anything after the commit
  failed, handling them again changes no table and sends no message.
\<close>

theorem handling_again_has_no_effect:
  assumes "decode_entries (cc_loads cfg) entries = (records, sources, dead)"
    and "apply_batch (cc_processor cfg) (cc_postgis cfg) (cc_shard cfg) (ce_now env1) (ce_attempts env1) records (cs_db c) = (Inr res, db')"
    and "ce_now env1 \<le> ce_now env2"
    and "\<forall>r \<in> set records. lr_reported_ms r \<le> history_newest (bp_settings (cc_processor cfg)) (ce_now env1)"
    and "quiet (ce_attempts env2 0)" and "\<And>db. at_world (ce_attempts env2 0) db = db"
    and "handle cfg env1 entries c = (ok1, c1)" and "handle cfg env2 entries c1 = (ok2, c2)"
  shows "cs_db c2 = cs_db c1 \<and> cs_sent c2 = cs_sent c1"
proof (cases "records = []")
  case True
  then show ?thesis using assms(1,8)
    by (auto simp: handle_def Let_def write_dead_letters_def publish_empty rejected_letters_def
        split: if_splits option.splits dest!: acknowledge_frame)
next
  case False
  have c1: "cs_db c1 = db'"
    using assms(1,2,7) False
    by (auto simp: handle_def Let_def write_dead_letters_def split: if_splits option.splits dest!: acknowledge_frame)
  obtain n rejected where again: "apply_batch (cc_processor cfg) (cc_postgis cfg) (cc_shard cfg) (ce_now env2) (ce_attempts env2) records db' =
      (Inr \<lparr>br_accepted = [], br_alerts = [], br_stale = n, br_rejected = rejected\<rparr>, db')"
    using reapply_batch [where ?envs2.0 = "ce_attempts env2", OF assms(2,3,4,5)] assms(6) by blast
  show ?thesis
    using assms(1,8) False again c1
    by (auto simp: handle_def Let_def write_dead_letters_def publish_empty split: if_splits option.splits dest!: acknowledge_frame)
qed

end
