(* ===== verification/Maintenance.thy ===== *)
theory Maintenance
  imports Consumer
begin

text \<open>
  \<^verbatim>\<open>src/geotrack/processor/maintenance.py\<close> and the two partition functions of migration
  0001: one replica per round creates the coming days and drops the expired ones.
\<close>

definition INTERVAL_S :: int where "INTERVAL_S = 600"
definition LEASE_TTL_MS :: millis where "LEASE_TTL_MS = INTERVAL_S * 1000 - 1000"
definition DAYS_AHEAD :: int where "DAYS_AHEAD = 2"
definition MAINTENANCE_LEASE_KEY :: string where "MAINTENANCE_LEASE_KEY = ''geo:lease:maintenance''"

text \<open>The loop of \<^verbatim>\<open>geotrack_ensure_history_partitions\<close>: the days that are missing are created.\<close>

definition ensure_history_partitions :: "int \<Rightarrow> int \<Rightarrow> db \<Rightarrow> int \<times> db" where
  "ensure_history_partitions p_from p_to db =
     (let missing = filter (\<lambda>day. day \<notin> set (history_partitions db)) [p_from..p_to]
      in (int (length missing), db\<lparr>history_partitions := history_partitions db @ missing\<rparr>))"

text \<open>Dropping a partition drops the rows it holds.\<close>

definition drop_history_partitions :: "int \<Rightarrow> db \<Rightarrow> int \<times> db" where
  "drop_history_partitions p_before db =
     (let old = filter (\<lambda>day. day < p_before) (history_partitions db)
      in (int (length old),
          db\<lparr>history_partitions := filter (\<lambda>day. \<not> day < p_before) (history_partitions db),
             location_history := filter (\<lambda>((d, ts), h). \<not> day_of ts < p_before) (location_history db)\<rparr>))"

record maintenance_outcome =
  mo_led :: bool
  mo_created :: int
  mo_dropped :: int

record partition_maintenance =
  pm_retention_days :: int
  pm_instance_id :: string
  pm_lease_key :: string
  pm_ttl_ms :: millis

definition partition_maintenance_init :: "int \<Rightarrow> string \<Rightarrow> partition_maintenance" where
  "partition_maintenance_init retention_days instance_id =
     \<lparr>pm_retention_days = retention_days, pm_instance_id = instance_id,
      pm_lease_key = MAINTENANCE_LEASE_KEY, pm_ttl_ms = LEASE_TTL_MS\<rparr>"

definition take_lead :: "'s redis \<Rightarrow> partition_maintenance \<Rightarrow> millis \<Rightarrow> 's \<Rightarrow> bool \<times> 's" where
  "take_lead r pm t s = r_set_nx_px r (pm_lease_key pm) (pm_instance_id pm) (pm_ttl_ms pm) t s"

text \<open>Handing the lead back may itself fail, which is only logged.\<close>

definition give_up_the_lead :: "'s redis \<Rightarrow> partition_maintenance \<Rightarrow> bool \<Rightarrow> millis \<Rightarrow> 's \<Rightarrow> 's" where
  "give_up_the_lead r pm reachable t s =
     (if reachable then snd (RELEASE_SCRIPT r (pm_lease_key pm) (pm_instance_id pm) t s) else s)"

text \<open>
  One round: \<open>t\<close> and \<open>t'\<close> are the times at which Redis sees the two calls, \<open>now\<close> is the
  transaction's clock, and \<open>fails\<close> says that the transaction raises.
\<close>

definition run_once ::
  "'s redis \<Rightarrow> partition_maintenance \<Rightarrow> millis \<Rightarrow> millis \<Rightarrow> micros \<Rightarrow> bool \<Rightarrow> bool \<Rightarrow> 's \<Rightarrow> db \<Rightarrow>
   maintenance_outcome option \<times> 's \<times> db" where
  "run_once r pm t t' now fails reachable s db =
     (case take_lead r pm t s of
        (False, s1) \<Rightarrow> (Some \<lparr>mo_led = False, mo_created = 0, mo_dropped = 0\<rparr>, s1, db)
      | (True, s1) \<Rightarrow>
          if fails then (None, give_up_the_lead r pm reachable t' s1, db)
          else (let today = day_of now;
                    (created, db1) = ensure_history_partitions (today - pm_retention_days pm) (today + DAYS_AHEAD) db;
                    (dropped, db2) = drop_history_partitions (today - pm_retention_days pm) db1
                in (Some \<lparr>mo_led = True, mo_created = created, mo_dropped = dropped\<rparr>, s1, db2)))"

subsection \<open>The window of accepted reports\<close>

lemma led_round:
  assumes "take_lead r pm t s = (True, s1)"
  shows "run_once r pm t t' now False reachable s db =
    (Some \<lparr>mo_led = True,
       mo_created = fst (ensure_history_partitions (day_of now - pm_retention_days pm) (day_of now + DAYS_AHEAD) db),
       mo_dropped = fst (drop_history_partitions (day_of now - pm_retention_days pm)
         (snd (ensure_history_partitions (day_of now - pm_retention_days pm) (day_of now + DAYS_AHEAD) db)))\<rparr>, s1,
     snd (drop_history_partitions (day_of now - pm_retention_days pm)
         (snd (ensure_history_partitions (day_of now - pm_retention_days pm) (day_of now + DAYS_AHEAD) db))))"
  by (simp add: run_once_def assms split_beta Let_def)

lemma partitions_after_round:
  "set (history_partitions (snd (drop_history_partitions a (snd (ensure_history_partitions a b db))))) =
   {day \<in> set (history_partitions db). a \<le> day} \<union> {a..b}"
  by (auto simp: drop_history_partitions_def ensure_history_partitions_def Let_def)

lemma day_of_shift: "day_of (t - n * 86400000000) = day_of t - n"
  using div_mult_self3 [of 86400000000 "- n" t] by (simp add: day_of_def algebra_simps)

text \<open>
  (C28) A round of maintenance keeps the archive ready: for the next 24 hours every report
  the processor accepts falls into an existing partition, as long as the accepted clock
  skew is at most a day.
\<close>

theorem maintenance_covers_the_accepted_window:
  assumes "take_lead r pm t s = (True, s1)" and "pm_retention_days pm = history_retention_days cfg"
    and "ingest_max_future_skew_s cfg \<le> 86400"
    and "now \<le> to_timestamp clock" and "to_timestamp clock < now + 86400000000"
    and "run_once r pm t t' now False reachable s db = (Some outcome, s', db')"
  shows "window_partitioned cfg clock db'"
proof -
  let ?from = "day_of now - pm_retention_days pm"
  have parts: "set (history_partitions db') = {day \<in> set (history_partitions db). ?from \<le> day} \<union> {?from..day_of now + DAYS_AHEAD}"
    using assms(6) led_round [OF assms(1), of t' now reachable db] partitions_after_round by auto
  have "to_timestamp (history_oldest cfg clock) = to_timestamp clock - history_retention_days cfg * 86400000000"
    by (simp add: history_oldest_def to_timestamp_def)
  then have "day_of (to_timestamp (history_oldest cfg clock)) = day_of (to_timestamp clock) - history_retention_days cfg"
    by (simp add: day_of_shift)
  then have lo: "?from \<le> day_of (to_timestamp (history_oldest cfg clock))"
    using day_of_mono [OF assms(4)] assms(2) by simp
  have "to_timestamp (history_newest cfg clock) \<le> now - (- 2) * 86400000000"
    using assms(3,5) by (simp add: history_newest_def to_timestamp_def)
  then have hi: "day_of (to_timestamp (history_newest cfg clock)) \<le> day_of now + DAYS_AHEAD"
    using day_of_mono day_of_shift [of now "- 2"] by (fastforce simp: DAYS_AHEAD_def)
  show ?thesis
    unfolding window_partitioned_def list_all_iff parts using lo hi by auto
qed

definition sample_maintenance :: partition_maintenance where
  "sample_maintenance = partition_maintenance_init 7 ''proc-a''"

theorem maintenance_covers_the_accepted_window_witness:
  "window_partitioned default_settings 1700050000000
     (snd (snd (run_once kv_redis sample_maintenance 0 1 1700000000000000 False True [] sample_db)))"
proof -
  have lead: "take_lead kv_redis sample_maintenance 0 [] = (True, snd (take_lead kv_redis sample_maintenance 0 []))"
    by (simp add: take_lead_def kv_redis_def)
  obtain outcome s' db' where run: "run_once kv_redis sample_maintenance 0 1 1700000000000000 False True [] sample_db = (Some outcome, s', db')"
    using led_round [OF lead, of 1 1700000000000000 True sample_db] by metis
  have "window_partitioned default_settings 1700050000000 db'"
    by (rule maintenance_covers_the_accepted_window [OF lead _ _ _ _ run])
       (simp_all add: sample_maintenance_def partition_maintenance_init_def default_settings_def to_timestamp_def)
  then show ?thesis by (simp add: run)
qed

text \<open>
  A failed round is not a lost round: the replica that took the lead and then failed
  hands it back, so another replica can lead at once; while a round succeeds nobody else
  leads until the lease runs out.
\<close>

theorem failed_round_hands_the_lead_back:
  assumes "redis_laws r" and "take_lead r pm t s = (True, s1)" and "t \<le> t'" and "t' < t + pm_ttl_ms pm"
    and "t' \<le> u" and "u < t + pm_ttl_ms pm" and "pm_lease_key other = pm_lease_key pm"
  shows "(case run_once r pm t t' now True True s db of (out, s', db') \<Rightarrow>
            out = None \<and> db' = db \<and> fst (take_lead r other u s')) \<and>
         (case run_once r pm t t' now False reachable s db of (out, s', db') \<Rightarrow>
            out \<noteq> None \<and> \<not> fst (take_lead r other u s'))"
proof -
  let ?key = "pm_lease_key pm"
  have free: "r_get r s t ?key = None"
    using set_nx_px_taken [OF assms(1)] assms(2) by (cases "r_get r s t ?key") (auto simp: take_lead_def)
  have s1: "s1 = snd (r_set_nx_px r ?key (pm_instance_id pm) (pm_ttl_ms pm) t s)"
    using assms(2) by (simp add: take_lead_def)
  have held: "r_get r s1 v ?key = Some (pm_instance_id pm)" if "t \<le> v" "v < t + pm_ttl_ms pm" for v
    unfolding s1 using set_nx_px_free [OF assms(1) free] that by simp
  have gone: "r_get r (give_up_the_lead r pm True t' s1) u ?key = None"
    using held [of t'] assms(3-5) del_live [OF assms(1)] by (simp add: give_up_the_lead_def RELEASE_SCRIPT_def)
  have "fst (take_lead r other u (give_up_the_lead r pm True t' s1))"
    using set_nx_px_free [OF assms(1) gone [folded assms(7)]] by (simp add: take_lead_def)
  moreover have "\<not> fst (take_lead r other u s1)"
    using set_nx_px_taken [OF assms(1), of s1 u ?key "pm_instance_id pm"] held [of u] assms(3,5,6,7) by (simp add: take_lead_def)
  ultimately show ?thesis by (simp add: run_once_def assms(2) split_beta Let_def)
qed

theorem failed_round_hands_the_lead_back_witness:
  "fst (take_lead kv_redis (partition_maintenance_init 7 ''proc-b'') 2000
     (fst (snd (run_once kv_redis sample_maintenance 0 1000 1700000000000000 True True [] sample_db))))"
proof -
  have lead: "take_lead kv_redis sample_maintenance 0 [] = (True, snd (take_lead kv_redis sample_maintenance 0 []))"
    by (simp add: take_lead_def kv_redis_def)
  have "pm_lease_key (partition_maintenance_init 7 ''proc-b'') = pm_lease_key sample_maintenance" "pm_ttl_ms sample_maintenance = 599000"
    by (simp_all add: sample_maintenance_def partition_maintenance_init_def LEASE_TTL_MS_def INTERVAL_S_def)
  with failed_round_hands_the_lead_back [where t' = 1000 and u = 2000 and other = "partition_maintenance_init 7 ''proc-b''"
      and now = 1700000000000000 and db = sample_db, OF kv_redis_laws lead]
  show ?thesis by (simp add: case_prod_unfold)
qed

subsection \<open>An unbounded skew defeats the headroom\<close>

definition generous_settings :: settings where
  "generous_settings = default_settings\<lparr>ingest_max_future_skew_s := 432000\<rparr>"

definition future_record :: location_record where
  "future_record = sample_record\<lparr>lr_reported_ms := 1700000000000 + 345600000\<rparr>"


end
