(* ===== verification/Service.thy ===== *)
theory Service
  imports Leases Settings
begin

text \<open>
  \<^verbatim>\<open>src/geotrack/processor/service.py\<close>: the control plane of a replica. The coroutines run
  on one event loop, so code between two awaits is atomic; each such stretch is one event
  of the model, and a run is any sequence of events. The control loop's own position is
  part of the state: the owned set it asked the lease manager about, the candidates still
  to try with their target, and the acquire it is waiting for. A consumer is known by
  whether its task has ended, a shard being handed back by whether its lease is still ours
  to release; \<open>sv_released\<close> logs the calls of \<^verbatim>\<open>lease.release\<close>.
\<close>

definition CONTROL_INTERVAL_S :: int where "CONTROL_INTERVAL_S = 2"

record service =
  sv_lease :: lease_manager
  sv_consumers :: "(int \<times> bool) list"
  sv_draining :: "(int \<times> bool) list"
  sv_released :: "int list"
  sv_asked :: "int list option"
  sv_candidates :: "int list"
  sv_target :: int
  sv_acquiring :: "int option"
  sv_last_heartbeat_ms :: millis

definition service_init :: "settings \<Rightarrow> string \<Rightarrow> service" where
  "service_init cfg instance_id =
     \<lparr>sv_lease = lease_manager_init (ingest_shards cfg) (processor_lease_ttl_ms cfg) instance_id
        (Some (max (processor_lease_ttl_ms cfg) (CONTROL_INTERVAL_S * 4000))),
      sv_consumers = [], sv_draining = [], sv_released = [], sv_asked = None, sv_candidates = [],
      sv_target = 0, sv_acquiring = None, sv_last_heartbeat_ms = 0\<rparr>"

definition owned_shards :: "service \<Rightarrow> int list" where
  "owned_shards s = keys (sv_consumers s)"

definition is_consuming :: "int \<Rightarrow> service \<Rightarrow> bool" where
  "is_consuming shard s \<longleftrightarrow> map_of (sv_consumers s) shard = Some False"

definition start_consumer :: "int \<Rightarrow> service \<Rightarrow> service" where
  "start_consumer shard s = s\<lparr>sv_consumers := AList.update shard False (sv_consumers s)\<rparr>"

definition begin_drain :: "bool \<Rightarrow> int \<Rightarrow> service \<Rightarrow> service" where
  "begin_drain rel shard s =
     (if map_of (sv_consumers s) shard = None then s
      else s\<lparr>sv_consumers := AList.delete shard (sv_consumers s),
             sv_draining := AList.update shard rel (sv_draining s)\<rparr>)"

definition reap_finished_consumers :: "service \<Rightarrow> service" where
  "reap_finished_consumers s = fold (begin_drain True) (map fst (filter snd (sv_consumers s))) s"

text \<open>The end of \<^verbatim>\<open>_drain\<close>: forget the shard, and hand the lease back if it is still ours.\<close>

definition drain_ends :: "int \<Rightarrow> service \<Rightarrow> service" where
  "drain_ends shard s =
     (case map_of (sv_draining s) shard of
        None \<Rightarrow> s
      | Some rel \<Rightarrow> s\<lparr>sv_draining := AList.delete shard (sv_draining s),
                      sv_released := (if rel then sv_released s @ [shard] else sv_released s)\<rparr>)"

definition lose_lease :: "int \<Rightarrow> service \<Rightarrow> service" where
  "lose_lease shard s =
     (case map_of (sv_draining s) shard of
        Some rel \<Rightarrow> s\<lparr>sv_draining := AList.update shard False (sv_draining s)\<rparr>
      | None \<Rightarrow> begin_drain False shard s)"

definition shards_to_renew :: "service \<Rightarrow> int list" where
  "shards_to_renew s = keys (sv_consumers s) @ map fst (filter snd (sv_draining s))"

text \<open>The answers to the renewals that were asked for, applied when they have all arrived.\<close>

definition renew_leases :: "int list \<Rightarrow> bool list \<Rightarrow> service \<Rightarrow> service" where
  "renew_leases shards held s =
     fold lose_lease (map fst (filter (\<lambda>p. \<not> snd p) (zip shards held))) s"

definition plan_arrives :: "millis \<Rightarrow> int list \<Rightarrow> service \<Rightarrow> service" where
  "plan_arrives now results s =
     (case sv_asked s of
        None \<Rightarrow> s
      | Some owned \<Rightarrow>
          let plan = rebalance (sv_lease s) owned results;
              s1 = s\<lparr>sv_asked := None, sv_last_heartbeat_ms := now\<rparr>;
              s2 = fold (begin_drain True) (rp_release plan) s1
          in s2\<lparr>sv_candidates := rp_candidates plan, sv_target := rp_target plan\<rparr>)"

definition try_candidate :: "service \<Rightarrow> service" where
  "try_candidate s =
     (case sv_candidates s of
        [] \<Rightarrow> s
      | shard # rest \<Rightarrow>
          if sv_acquiring s \<noteq> None then s
          else if int (length (sv_consumers s)) \<ge> sv_target s then s\<lparr>sv_candidates := []\<rparr>
          else if map_of (sv_draining s) shard \<noteq> None then s\<lparr>sv_candidates := rest\<rparr>
          else s\<lparr>sv_candidates := rest, sv_acquiring := Some shard\<rparr>)"

definition acquire_arrives :: "bool \<Rightarrow> service \<Rightarrow> service" where
  "acquire_arrives taken s =
     (case sv_acquiring s of
        None \<Rightarrow> s
      | Some shard \<Rightarrow>
          let s1 = s\<lparr>sv_acquiring := None\<rparr>
          in if taken then start_consumer shard s1 else s1)"

definition begin_round :: "service \<Rightarrow> service" where
  "begin_round s =
     (if sv_asked s \<noteq> None \<or> sv_candidates s \<noteq> [] \<or> sv_acquiring s \<noteq> None then s
      else let s1 = reap_finished_consumers s in s1\<lparr>sv_asked := Some (owned_shards s1)\<rparr>)"

text \<open>A Redis error in the middle of a round ends it.\<close>

definition round_fails :: "service \<Rightarrow> service" where
  "round_fails s = s\<lparr>sv_asked := None, sv_candidates := [], sv_acquiring := None\<rparr>"

definition task_ends :: "int \<Rightarrow> service \<Rightarrow> service" where
  "task_ends shard s =
     (if map_of (sv_consumers s) shard = None then s
      else s\<lparr>sv_consumers := AList.update shard True (sv_consumers s)\<rparr>)"

datatype service_event =
    BeginRound | PlanArrives millis "int list" | TryCandidate | AcquireArrives bool | RoundFails
  | LeasesAnswered "int list" "bool list" | DrainEnds int | TaskEnds int

fun service_step :: "service_event \<Rightarrow> service \<Rightarrow> service" where
  "service_step BeginRound s = begin_round s"
| "service_step (PlanArrives now results) s = plan_arrives now results s"
| "service_step TryCandidate s = try_candidate s"
| "service_step (AcquireArrives taken) s = acquire_arrives taken s"
| "service_step RoundFails s = round_fails s"
| "service_step (LeasesAnswered shards held) s = renew_leases shards held s"
| "service_step (DrainEnds shard) s = drain_ends shard s"
| "service_step (TaskEnds shard) s = task_ends shard s"

text \<open>
  \<^verbatim>\<open>stop\<close>: the loops are gone; every consumer is drained, the drains that are not over
  within the budget are cut short, and then whatever was held is released once more.
  \<open>finished\<close> are the drains that end in time.
\<close>

definition stop :: "int list \<Rightarrow> service \<Rightarrow> service" where
  "stop finished s =
     (let held = keys (sv_consumers s) @ keys (sv_draining s);
          s1 = fold (begin_drain True) (keys (sv_consumers s)) s;
          s2 = fold drain_ends (filter (\<lambda>shard. shard \<in> set (keys (sv_draining s1))) finished) s1
      in s2\<lparr>sv_draining := [], sv_released := sv_released s2 @ held\<rparr>)"

definition is_ready :: "settings \<Rightarrow> millis \<Rightarrow> bool \<Rightarrow> bool \<Rightarrow> service \<Rightarrow> bool" where
  "is_ready cfg now running dependencies_answer s \<longleftrightarrow>
     running \<and> \<not> (now - sv_last_heartbeat_ms s > processor_lease_ttl_ms cfg) \<and> dependencies_answer"

datatype start_error = ShardCountMismatch int int

text \<open>\<^verbatim>\<open>recorded\<close> is what the cluster's key holds after the conditional write.\<close>

definition verify_shard_count :: "settings \<Rightarrow> int option \<Rightarrow> start_error + unit" where
  "verify_shard_count cfg recorded =
     (case recorded of
        Some n \<Rightarrow> if n \<noteq> ingest_shards cfg then Inl (ShardCountMismatch (ingest_shards cfg) n) else Inr ()
      | None \<Rightarrow> Inr ())"

subsection \<open>One reader per shard\<close>

text \<open>The invariant over the sets of shards that are read, handed back and still to be tried.\<close>

definition roles_ok ::
  "int set \<Rightarrow> int set \<Rightarrow> int list \<Rightarrow> int list option \<Rightarrow> int option \<Rightarrow> bool" where
  "roles_ok reading draining candidates asked acquiring \<longleftrightarrow>
     reading \<inter> draining = {} \<and> distinct candidates \<and> set candidates \<inter> reading = {} \<and>
     (\<forall>owned. asked = Some owned \<longrightarrow> reading \<subseteq> set owned \<and> candidates = [] \<and> acquiring = None) \<and>
     (\<forall>shard. acquiring = Some shard \<longrightarrow>
        shard \<notin> reading \<and> shard \<notin> draining \<and> shard \<notin> set candidates)"

definition service_inv :: "service \<Rightarrow> bool" where
  "service_inv s \<longleftrightarrow>
     distinct (keys (sv_consumers s)) \<and> distinct (keys (sv_draining s)) \<and>
     roles_ok (set (keys (sv_consumers s))) (set (keys (sv_draining s))) (sv_candidates s) (sv_asked s) (sv_acquiring s) \<and>
     (sv_acquiring s \<noteq> None \<longrightarrow> int (length (sv_consumers s)) < sv_target s)"

lemma map_of_None_keys: "map_of d k = None \<longleftrightarrow> k \<notin> set (keys d)"
  by (simp add: map_of_eq_None_iff)

lemma length_delete: "length (AList.delete k d) \<le> length d"
  by (rule length_delete_le)

lemma roles_ok_drain: "roles_ok C D cs a q \<Longrightarrow> shard \<in> C \<Longrightarrow> roles_ok (C - {shard}) (insert shard D) cs a q"
  by (auto simp: roles_ok_def)

lemma length_update_le: "length (AList.update k v d) \<le> Suc (length d)"
  by (induction d) auto

lemma service_inv_begin_drain: "service_inv s \<Longrightarrow> service_inv (begin_drain rel shard s)"
proof (cases "map_of (sv_consumers s) shard = None")
  case False
  assume inv: "service_inv s"
  from False have "shard \<in> set (keys (sv_consumers s))" by (simp add: map_of_None_keys)
  with inv have "roles_ok (set (keys (sv_consumers s)) - {shard}) (insert shard (set (keys (sv_draining s))))
      (sv_candidates s) (sv_asked s) (sv_acquiring s)"
    by (intro roles_ok_drain) (simp_all add: service_inv_def)
  with inv False length_delete [of shard "sv_consumers s"] show ?thesis
    by (auto simp: service_inv_def begin_drain_def dict_simps)
qed (simp add: begin_drain_def)

lemma begin_drain_frame [simp]:
  "sv_asked (begin_drain rel shard s) = sv_asked s" "sv_candidates (begin_drain rel shard s) = sv_candidates s"
  "sv_acquiring (begin_drain rel shard s) = sv_acquiring s" "sv_lease (begin_drain rel shard s) = sv_lease s"
  "sv_target (begin_drain rel shard s) = sv_target s" "sv_released (begin_drain rel shard s) = sv_released s"
  by (simp_all add: begin_drain_def)

lemma begin_drain_consumers: "set (keys (sv_consumers (begin_drain rel shard s))) = set (keys (sv_consumers s)) - {shard}"
  by (auto simp: begin_drain_def image_fst_delete map_of_None_keys)

lemma service_inv_fold_drain: "service_inv s \<Longrightarrow> service_inv (fold (begin_drain rel) shards s)"
  by (induction shards arbitrary: s) (auto intro: service_inv_begin_drain)

lemma fold_drain_frame [simp]:
  "sv_asked (fold (begin_drain rel) shards s) = sv_asked s"
  "sv_candidates (fold (begin_drain rel) shards s) = sv_candidates s"
  "sv_acquiring (fold (begin_drain rel) shards s) = sv_acquiring s"
  "sv_lease (fold (begin_drain rel) shards s) = sv_lease s"
  by (induction shards arbitrary: s) simp_all

lemma fold_drain_consumers:
  "set (keys (sv_consumers (fold (begin_drain rel) shards s))) = set (keys (sv_consumers s)) - set shards"
proof (induction shards arbitrary: s)
  case (Cons x xs)
  from Cons [of "begin_drain rel x s"] show ?case using begin_drain_consumers [of rel x s] by auto
qed simp

lemma service_inv_lose_lease: "service_inv s \<Longrightarrow> service_inv (lose_lease shard s)"
proof (cases "map_of (sv_draining s) shard")
  case (Some rel)
  then have "insert shard (fst ` set (sv_draining s)) = fst ` set (sv_draining s)" by (force dest: map_of_SomeD)
  then show "service_inv s \<Longrightarrow> ?thesis" using Some
    by (simp add: lose_lease_def service_inv_def dict_simps)
qed (simp add: lose_lease_def service_inv_begin_drain)

lemma service_inv_renew: "service_inv s \<Longrightarrow> service_inv (renew_leases shards held s)"
proof -
  have "service_inv s \<Longrightarrow> service_inv (fold lose_lease xs s)" for xs
    by (induction xs arbitrary: s) (auto intro: service_inv_lose_lease)
  then show "service_inv s \<Longrightarrow> ?thesis" by (simp add: renew_leases_def)
qed

lemma plan_candidates_fresh:
  "distinct (rp_candidates (fair_share_plan shards owned live offset)) \<and>
   set (rp_candidates (fair_share_plan shards owned live offset)) \<inter> set owned = {}"
proof (cases "0 < shards")
  case True
  then show ?thesis using rotation_set(2) [of shards "offset mod shards"] by (auto simp: fair_share_plan_def Let_def)
next
  case False
  then show ?thesis by (simp add: fair_share_plan_def Let_def)
qed

lemma service_inv_plan: "service_inv s \<Longrightarrow> service_inv (plan_arrives now results s)"
proof (cases "sv_asked s")
  case (Some owned)
  assume inv: "service_inv s"
  let ?plan = "rebalance (sv_lease s) owned results"
  let ?s2 = "fold (begin_drain True) (rp_release ?plan) (s\<lparr>sv_asked := None, sv_last_heartbeat_ms := now\<rparr>)"
  have "roles_ok C D cs None q" if "roles_ok C D cs a q" for C D cs a q using that by (auto simp: roles_ok_def)
  then have "service_inv (s\<lparr>sv_asked := None, sv_last_heartbeat_ms := now\<rparr>)" using inv by (auto simp: service_inv_def)
  then have inv2: "service_inv ?s2" by (rule service_inv_fold_drain)
  have own: "set (keys (sv_consumers s)) \<subseteq> set owned" "sv_acquiring s = None"
    using inv Some by (auto simp: service_inv_def roles_ok_def)
  have sub: "set (keys (sv_consumers ?s2)) \<subseteq> set owned" using own(1) unfolding fold_drain_consumers by auto
  have fresh: "distinct (rp_candidates ?plan)" "set (rp_candidates ?plan) \<inter> set owned = {}"
    unfolding rebalance_def using plan_candidates_fresh by blast+
  have "roles_ok (set (keys (sv_consumers ?s2))) (set (keys (sv_draining ?s2))) (rp_candidates ?plan) None None"
    using inv2 sub fresh unfolding service_inv_def roles_ok_def by blast
  then show ?thesis using inv2 own(2) by (simp add: plan_arrives_def Some Let_def service_inv_def)
qed (simp add: plan_arrives_def)

lemma roles_ok_try:
  "roles_ok C D (shard # rest) a None \<Longrightarrow>
   roles_ok C D [] a None \<and> roles_ok C D rest a None \<and> (shard \<notin> D \<longrightarrow> roles_ok C D rest a (Some shard))"
  by (auto simp: roles_ok_def)

lemma service_inv_try: "service_inv s \<Longrightarrow> service_inv (try_candidate s)"
proof (cases "sv_candidates s")
  case (Cons shard rest)
  assume inv: "service_inv s"
  show ?thesis
  proof (cases "sv_acquiring s")
    case None
    with inv Cons roles_ok_try [of "set (keys (sv_consumers s))" "set (keys (sv_draining s))" shard rest "sv_asked s"]
    show ?thesis
      unfolding try_candidate_def by (simp add: service_inv_def map_of_None_keys del: set_map)
  qed (use inv Cons in \<open>simp add: try_candidate_def\<close>)
qed (simp add: try_candidate_def)

lemma service_inv_acquired: "service_inv s \<Longrightarrow> service_inv (acquire_arrives taken s)"
proof (cases "sv_acquiring s")
  case (Some shard)
  assume inv: "service_inv s"
  have "roles_ok C D cs a (Some shard) \<Longrightarrow> roles_ok C D cs a None \<and> roles_ok (insert shard C) D cs a None" for C D cs a
    by (auto simp: roles_ok_def)
  with inv Some show ?thesis
    by (auto simp: acquire_arrives_def start_consumer_def service_inv_def Let_def dict_simps)
qed (simp add: acquire_arrives_def)

lemma service_inv_begin_round: "service_inv s \<Longrightarrow> service_inv (begin_round s)"
proof (cases "sv_asked s \<noteq> None \<or> sv_candidates s \<noteq> [] \<or> sv_acquiring s \<noteq> None")
  case False
  assume "service_inv s"
  then have inv: "service_inv (reap_finished_consumers s)" unfolding reap_finished_consumers_def by (rule service_inv_fold_drain)
  moreover have "sv_candidates (reap_finished_consumers s) = []" "sv_acquiring (reap_finished_consumers s) = None"
    using False by (simp_all add: reap_finished_consumers_def)
  ultimately show ?thesis using False
    by (auto simp: begin_round_def Let_def service_inv_def owned_shards_def roles_ok_def)
qed (simp add: begin_round_def)

lemma service_inv_drain_ends: "service_inv s \<Longrightarrow> service_inv (drain_ends shard s)"
proof -
  have "roles_ok C D cs a q \<Longrightarrow> roles_ok C (D - {shard}) cs a q" for C D cs a q by (auto simp: roles_ok_def)
  then show "service_inv s \<Longrightarrow> ?thesis"
    by (auto simp: drain_ends_def service_inv_def dict_simps split: option.splits)
qed

lemma service_inv_task_ends: "service_inv s \<Longrightarrow> service_inv (task_ends shard s)"
proof (cases "map_of (sv_consumers s) shard = None")
  case False
  then have mem: "shard \<in> fst ` set (sv_consumers s)" by (simp add: map_of_None_keys)
  then have "insert shard (fst ` set (sv_consumers s)) = fst ` set (sv_consumers s)" by blast
  then show "service_inv s \<Longrightarrow> ?thesis" using False mem
    by (simp add: task_ends_def service_inv_def dict_simps)
qed (simp add: task_ends_def)

lemma service_inv_round_fails: "service_inv s \<Longrightarrow> service_inv (round_fails s)"
  by (auto simp: round_fails_def service_inv_def roles_ok_def)

lemmas service_inv_steps = service_inv_begin_round service_inv_plan service_inv_try service_inv_acquired
  service_inv_round_fails service_inv_renew service_inv_drain_ends service_inv_task_ends

interpretation control: step_system service_step service_inv
proof
  fix s e assume "service_inv s"
  then show "service_inv (service_step e s)" by (cases e) (simp_all add: service_inv_steps)
qed


lemma service_init_inv: "service_inv (service_init cfg me)"
  by (simp add: service_init_def service_inv_def roles_ok_def)

lemma consumers_grow:
  assumes "length (sv_consumers s) < length (sv_consumers (service_step e s))"
  shows "\<exists>shard. sv_acquiring s = Some shard \<and> service_step e s = start_consumer shard (s\<lparr>sv_acquiring := None\<rparr>)"
proof -
  have drain: "length (sv_consumers (begin_drain rel shard s)) \<le> length (sv_consumers s)" for rel shard s
    using length_delete [of shard "sv_consumers s"] by (simp add: begin_drain_def)
  have drains: "length (sv_consumers (fold (begin_drain rel) shards s)) \<le> length (sv_consumers s)" for rel shards s
    by (induction shards arbitrary: s) (auto intro: order_trans [OF _ drain])
  have lose: "length (sv_consumers (fold lose_lease shards s)) \<le> length (sv_consumers s)" for shards s
  proof (induction shards arbitrary: s)
    case (Cons x xs)
    have "length (sv_consumers (lose_lease x s)) \<le> length (sv_consumers s)"
      using drain by (simp add: lose_lease_def split: option.splits)
    with Cons [of "lose_lease x s"] show ?case by simp
  qed simp
  have ends: "length (sv_consumers (task_ends shard s)) = length (sv_consumers s)" for shard
    by (simp add: task_ends_def map_of_None_keys length_update_present)
  show ?thesis
  proof (cases e)
    case (PlanArrives now results)
    have "length (sv_consumers (plan_arrives now results s)) \<le> length (sv_consumers s)"
      using drains [of True _ "s\<lparr>sv_asked := None, sv_last_heartbeat_ms := now\<rparr>"]
      by (simp add: plan_arrives_def Let_def split: option.splits)
    with assms PlanArrives show ?thesis by simp
  next
    case BeginRound
    with assms drains [of True _ s] show ?thesis by (auto simp: begin_round_def reap_finished_consumers_def Let_def split: if_splits)
        (metis not_less)
  next
    case (AcquireArrives taken)
    with assms show ?thesis by (auto simp: acquire_arrives_def Let_def split: option.splits if_splits)
  qed (use assms lose ends in \<open>auto simp: try_candidate_def round_fails_def renew_leases_def drain_ends_def
      split: list.splits if_splits option.splits dest: leD\<close>)
qed

text \<open>
  (C16) One reader per shard, within the fair share. Over every interleaving of the control
  loop, the renewals, ending drains and ending tasks, no shard is read by a consumer while
  an earlier consumer of it is still winding down, and a consumer is only ever started
  while the replica is below its target.
\<close>

theorem one_reader_per_shard:
  assumes "s = fold service_step events (service_init cfg me)"
  shows "distinct (keys (sv_consumers s)) \<and>
    set (keys (sv_consumers s)) \<inter> set (keys (sv_draining s)) = {} \<and>
    (length (sv_consumers s) < length (sv_consumers (service_step e s)) \<longrightarrow>
       int (length (sv_consumers (service_step e s))) \<le> sv_target s)"
proof -
  have inv: "service_inv s" unfolding assms by (rule control.run_keeps [OF service_init_inv])
  have "int (length (sv_consumers (service_step e s))) \<le> sv_target s"
    if grows: "length (sv_consumers s) < length (sv_consumers (service_step e s))"
  proof -
    obtain shard where acq: "sv_acquiring s = Some shard" and st: "service_step e s = start_consumer shard (s\<lparr>sv_acquiring := None\<rparr>)"
      using consumers_grow [OF grows] by blast
    have "length (AList.update shard False (sv_consumers s)) \<le> Suc (length (sv_consumers s))"
        by (rule length_update_le)
    then show ?thesis using inv acq st by (simp add: service_inv_def start_consumer_def)
  qed
  with inv show ?thesis by (auto simp: service_inv_def roles_ok_def)
qed

theorem one_reader_per_shard_witness:
  "set (keys (sv_consumers (fold service_step [BeginRound, PlanArrives 5 [1], TryCandidate, AcquireArrives True, TryCandidate]
      (service_init default_settings ''proc-a'')))) \<inter>
   set (keys (sv_draining (fold service_step [BeginRound, PlanArrives 5 [1], TryCandidate, AcquireArrives True, TryCandidate]
      (service_init default_settings ''proc-a'')))) = {}"
  using one_reader_per_shard [OF refl, of "[BeginRound, PlanArrives 5 [1], TryCandidate, AcquireArrives True, TryCandidate]"
      default_settings "''proc-a''" TryCandidate] by blast

subsection \<open>Leases that were lost, and shutting down\<close>

definition not_ours :: "int \<Rightarrow> service \<Rightarrow> bool" where
  "not_ours shard s \<longleftrightarrow> shard \<notin> set (keys (sv_consumers s)) \<and> map_of (sv_draining s) shard \<noteq> Some True"

lemma lose_lease_keeps: "not_ours shard s \<Longrightarrow> not_ours shard (lose_lease other s)"
  by (auto simp: not_ours_def lose_lease_def begin_drain_def image_fst_delete map_of_None_keys split: option.splits if_splits)

lemma lose_lease_makes:
  assumes "service_inv s"
  shows "not_ours shard (lose_lease shard s)"
proof (cases "map_of (sv_draining s) shard")
  case (Some rel)
  then have "shard \<in> set (keys (sv_draining s))" by (force dest: map_of_SomeD)
  then have "shard \<notin> set (keys (sv_consumers s))" using assms by (auto simp: service_inv_def roles_ok_def)
  with Some show ?thesis by (simp add: not_ours_def lose_lease_def)
next
  case None
  have "shard \<notin> set (keys (sv_consumers (begin_drain False shard s)))" unfolding begin_drain_consumers by simp
  with None show ?thesis by (simp add: not_ours_def lose_lease_def begin_drain_def)
qed

lemma fold_lose_lease: "service_inv s \<Longrightarrow> shard \<in> set lost \<Longrightarrow> not_ours shard (fold lose_lease lost s)"
proof (induction lost arbitrary: s)
  case (Cons x xs)
  have keep: "not_ours shard t \<Longrightarrow> not_ours shard (fold lose_lease ys t)" for ys t
    by (induction ys arbitrary: t) (auto intro: lose_lease_keeps)
  show ?case
  proof (cases "x = shard")
    case True
    with lose_lease_makes [OF Cons.prems(1)] keep show ?thesis by simp
  next
    case False
    with Cons service_inv_lose_lease show ?thesis by simp
  qed
qed simp

text \<open>
  A lost lease is never handed back: when a renewal says that a shard belongs to
  somebody else, the replica stops reading it, and the end of its drain does not release
  it, so the new owner's lease is left alone.
\<close>

theorem lost_lease_is_not_released:
  assumes "s = fold service_step events (service_init cfg me)"
    and "(shard, False) \<in> set (zip shards held)"
  shows "shard \<notin> set (keys (sv_consumers (renew_leases shards held s))) \<and>
    sv_released (drain_ends shard (renew_leases shards held s)) = sv_released (renew_leases shards held s)"
proof -
  have "service_inv s" unfolding assms(1) by (rule control.run_keeps [OF service_init_inv])
  moreover have "shard \<in> set (map fst (filter (\<lambda>p. \<not> snd p) (zip shards held)))" using assms(2) by force
  ultimately have "not_ours shard (renew_leases shards held s)" unfolding renew_leases_def by (rule fold_lose_lease)
  then show ?thesis by (auto simp: not_ours_def drain_ends_def split: option.splits)
qed

theorem lost_lease_is_not_released_witness:
  "2 \<notin> set (keys (sv_consumers (renew_leases [1, 2] [True, False]
     (fold service_step [BeginRound, PlanArrives 5 [1], TryCandidate, AcquireArrives True] (service_init default_settings ''proc-a'')))))"
  using lost_lease_is_not_released [OF refl, of 2 "[1, 2]" "[True, False]"
      "[BeginRound, PlanArrives 5 [1], TryCandidate, AcquireArrives True]" default_settings "''proc-a''"] by simp

text \<open>
  Shutting down lets go of everything: no consumer and no drain is left, and every
  shard the replica read or was handing back has been released, whichever drains ended in
  time.
\<close>

theorem stop_releases_every_shard:
  "sv_consumers (stop finished s) = [] \<and> sv_draining (stop finished s) = [] \<and>
   set (keys (sv_consumers s)) \<union> set (keys (sv_draining s)) \<subseteq> set (sv_released (stop finished s))"
proof -
  have ends: "sv_consumers (fold drain_ends xs t) = sv_consumers t" for xs t
  proof (induction xs arbitrary: t)
    case (Cons x xs)
    then show ?case by (simp add: drain_ends_def split: option.splits)
  qed simp
  have "set (keys (sv_consumers (fold (begin_drain True) (keys (sv_consumers s)) s))) = {}"
    unfolding fold_drain_consumers by simp
  then show ?thesis by (auto simp: stop_def Let_def ends)
qed

subsection \<open>Readiness\<close>

text \<open>
  The smallest lease time the settings allow is below the control interval, and
  readiness compares the age of the last heartbeat with the lease time: a replica whose
  control loop is on schedule still reports not ready for part of every interval.
\<close>

theorem ready_replica_reports_not_ready:
  "valid_settings (default_settings\<lparr>processor_lease_ttl_ms := 1000\<rparr>) \<and>
   1500 < CONTROL_INTERVAL_S * 1000 \<and>
   \<not> is_ready (default_settings\<lparr>processor_lease_ttl_ms := 1000\<rparr>) (now + 1500) True True
      ((service_init (default_settings\<lparr>processor_lease_ttl_ms := 1000\<rparr>) me)\<lparr>sv_last_heartbeat_ms := now\<rparr>)"
proof (intro conjI)
  show "valid_settings (default_settings\<lparr>processor_lease_ttl_ms := 1000\<rparr>)"
    unfolding valid_settings_checks
    by (simp add: field_checks_def default_settings_def between_def require_asyncpg_def
        require_redis_scheme_def check_backlog_watermarks_def) code_simp
qed (simp_all add: CONTROL_INTERVAL_S_def is_ready_def)

end
