(* ===== verification/Hub.thy ===== *)
theory Hub
  imports Protocol Grid Clock Database
begin

text \<open>
  \<^verbatim>\<open>src/geotrack/realtime/hub.py\<close>: the gateway's picture of where every device is. A Python
  set is a list without duplicates, in an order the model fixes; the serialised chunks are
  bytes, with \<open>dumps\<close> standing for orjson.
\<close>

definition getl :: "('k \<times> 'v list) list \<Rightarrow> 'k \<Rightarrow> 'v list" where
  "getl d k = (case map_of d k of None \<Rightarrow> [] | Some xs \<Rightarrow> xs)"

definition add_to :: "'a \<Rightarrow> 'a list \<Rightarrow> 'a list" where
  "add_to x xs = (if x \<in> set xs then xs else xs @ [x])"

record departure =
  de_device_id :: device_id
  de_moved_to :: "cell option"

record tick_delta =
  td_t_ms :: millis
  td_chunks :: "(cell \<times> bytes) list"
  td_departures :: "(cell \<times> departure list) list"

definition td_is_empty :: "tick_delta \<Rightarrow> bool" where
  "td_is_empty d \<longleftrightarrow> td_chunks d = [] \<and> td_departures d = []"

definition td_removed :: "tick_delta \<Rightarrow> device_id list" where
  "td_removed d =
     concat (map (\<lambda>(cell, ds). map de_device_id (filter (\<lambda>x. de_moved_to x = None) ds)) (td_departures d))"

record hub =
  hb_cell_size_deg :: rat
  hb_stale_after_ms :: millis
  hb_latest :: "(device_id \<times> position_item \<times> cell) list"
  hb_cells :: "(cell \<times> device_id list) list"
  hb_changed :: "(cell \<times> device_id list) list"
  hb_departed :: "(cell \<times> (device_id \<times> cell option) list) list"
  hb_snapshots :: "(cell \<times> bytes) list"
  hb_updates :: int

definition hub_init :: "rat \<Rightarrow> int \<Rightarrow> hub" where
  "hub_init cell_size_deg stale_after_s =
     \<lparr>hb_cell_size_deg = cell_size_deg, hb_stale_after_ms = stale_after_s * 1000, hb_latest = [], hb_cells = [],
      hb_changed = [], hb_departed = [], hb_snapshots = [], hb_updates = 0\<rparr>"

definition item_ms :: "position_item \<Rightarrow> millis" where
  "item_ms i = (case i of (d, la, lo, ms) \<Rightarrow> ms)"

definition item_cell :: "hub \<Rightarrow> position_item \<Rightarrow> cell" where
  "item_cell h i = (case i of (d, la, lo, ms) \<Rightarrow> cell_of la lo (hb_cell_size_deg h))"

definition touch :: "cell \<Rightarrow> device_id \<Rightarrow> hub \<Rightarrow> hub" where
  "touch c d h =
     h\<lparr>hb_changed := AList.update c (add_to d (getl (hb_changed h) c)) (hb_changed h),
       hb_departed := (case map_of (hb_departed h) c of
                         None \<Rightarrow> hb_departed h
                       | Some moves \<Rightarrow> AList.update c (AList.delete d moves) (hb_departed h)),
       hb_snapshots := AList.delete c (hb_snapshots h)\<rparr>"

definition leave :: "cell \<Rightarrow> device_id \<Rightarrow> cell option \<Rightarrow> hub \<Rightarrow> hub" where
  "leave c d moved_to h =
     h\<lparr>hb_cells := (case map_of (hb_cells h) c of
                      None \<Rightarrow> hb_cells h
                    | Some ds \<Rightarrow> if removeAll d ds = [] then AList.delete c (hb_cells h)
                                else AList.update c (removeAll d ds) (hb_cells h)),
       hb_changed := (case map_of (hb_changed h) c of
                        None \<Rightarrow> hb_changed h
                      | Some ds \<Rightarrow> AList.update c (removeAll d ds) (hb_changed h)),
       hb_departed := AList.update c (AList.update d moved_to (getl (hb_departed h) c)) (hb_departed h),
       hb_snapshots := AList.delete c (hb_snapshots h)\<rparr>"

definition enter_cell :: "position_item \<Rightarrow> cell \<Rightarrow> hub \<Rightarrow> hub" where
  "enter_cell item c h =
     (let d = fst item;
          h1 = h\<lparr>hb_latest := AList.update d (item, c) (hb_latest h),
                 hb_cells := AList.update c (add_to d (getl (hb_cells h) c)) (hb_cells h)\<rparr>
      in (touch c d h1)\<lparr>hb_updates := hb_updates h + 1\<rparr>)"

definition apply_item :: "hub \<Rightarrow> position_item \<Rightarrow> hub" where
  "apply_item h item =
     (let c = item_cell h item in
      case map_of (hb_latest h) (fst item) of
        None \<Rightarrow> enter_cell item c h
      | Some (old, was) \<Rightarrow>
          if item_ms item \<le> item_ms old then h
          else enter_cell item c (if was \<noteq> c then leave was (fst item) (Some c) h else h))"

definition hub_apply :: "position_item list \<Rightarrow> hub \<Rightarrow> hub" where
  "hub_apply items h = foldl apply_item h items"

definition encode_chunk :: "dumps \<Rightarrow> position_item list \<Rightarrow> bytes" where
  "encode_chunk dumps items = join '','' (map (encode_position_item dumps) items)"

text \<open>\<^verbatim>\<open>self._latest[device].item\<close>; the invariant shows that the key is always there.\<close>

definition items_of :: "hub \<Rightarrow> device_id list \<Rightarrow> position_item list" where
  "items_of h ds = map (\<lambda>d. fst (the (map_of (hb_latest h) d))) ds"

definition clear_pending :: "hub \<Rightarrow> hub" where
  "clear_pending h = h\<lparr>hb_changed := [], hb_departed := []\<rparr>"

definition drain :: "dumps \<Rightarrow> millis \<Rightarrow> hub \<Rightarrow> tick_delta \<times> hub" where
  "drain dumps t_ms h =
     (\<lparr>td_t_ms = t_ms,
       td_chunks = map (\<lambda>(c, ds). (c, encode_chunk dumps (items_of h ds))) (filter (\<lambda>(c, ds). ds \<noteq> []) (hb_changed h)),
       td_departures = map (\<lambda>(c, moves). (c, map (\<lambda>(d, to). \<lparr>de_device_id = d, de_moved_to = to\<rparr>) moves))
         (filter (\<lambda>(c, moves). moves \<noteq> []) (hb_departed h))\<rparr>,
      clear_pending h)"

definition discard_pending :: "hub \<Rightarrow> hub" where
  "discard_pending h = clear_pending h"

text \<open>The generator of \<^verbatim>\<open>snapshot_chunks\<close>, consumed at once: it yields chunks and fills the cache.\<close>

definition snapshot_cell :: "dumps \<Rightarrow> cell \<times> device_id list \<Rightarrow> hub \<Rightarrow> bytes \<times> hub" where
  "snapshot_cell dumps cd h =
     (case cd of (c, ds) \<Rightarrow>
        (case map_of (hb_snapshots h) c of
           Some chunk \<Rightarrow> (chunk, h)
         | None \<Rightarrow> let chunk = encode_chunk dumps (items_of h ds)
                   in (chunk, h\<lparr>hb_snapshots := AList.update c chunk (hb_snapshots h)\<rparr>)))"

fun snapshot_cells :: "dumps \<Rightarrow> cell_rect list \<Rightarrow> (cell \<times> device_id list) list \<Rightarrow> hub \<Rightarrow> bytes list \<times> hub" where
  "snapshot_cells dumps rects [] h = ([], h)"
| "snapshot_cells dumps rects (cd # cds) h =
     (if covers rects (fst cd) then
        (case snapshot_cell dumps cd h of (chunk, h1) \<Rightarrow>
           (case snapshot_cells dumps rects cds h1 of (chunks, h2) \<Rightarrow> (chunk # chunks, h2)))
      else snapshot_cells dumps rects cds h)"

definition snapshot_chunks :: "dumps \<Rightarrow> cell_rect list \<Rightarrow> hub \<Rightarrow> bytes list \<times> hub" where
  "snapshot_chunks dumps rects h = snapshot_cells dumps rects (hb_cells h) h"

definition forget :: "device_id \<Rightarrow> hub \<Rightarrow> hub" where
  "forget d h =
     (case map_of (hb_latest h) d of
        None \<Rightarrow> h
      | Some (item, c) \<Rightarrow> leave c d None (h\<lparr>hb_latest := AList.delete d (hb_latest h)\<rparr>))"

definition sweep :: "millis \<Rightarrow> hub \<Rightarrow> hub" where
  "sweep now h =
     (let cutoff = now - hb_stale_after_ms h;
          stale = map fst (filter (\<lambda>(d, item, c). item_ms item < cutoff) (hb_latest h))
      in fold forget stale h)"

text \<open>The rows of \<^verbatim>\<open>_WARM_START_SQL\<close>, in batches; applying them one by one is the same fold.\<close>

definition warm_start :: "millis \<Rightarrow> (device_id \<times> device_position) list \<Rightarrow> hub \<Rightarrow> int \<times> hub" where
  "warm_start now positions h =
     (let cutoff = from_epoch_ms (now - hb_stale_after_ms h);
          rows = filter (\<lambda>(d, dp). cutoff \<le> dp_reported_at dp) positions;
          items = map (\<lambda>(d, dp). (d, fst (dp_position dp), snd (dp_position dp), to_epoch_ms (dp_reported_at dp))) rows
      in (int (length rows), clear_pending (hub_apply items h)))"

datatype hub_event =
  Apply "position_item list" | Drain millis | DiscardPending | Sweep millis | Snapshot "cell_rect list"

fun hub_step :: "dumps \<Rightarrow> hub_event \<Rightarrow> hub \<Rightarrow> hub" where
  "hub_step dumps (Apply items) h = hub_apply items h"
| "hub_step dumps (Drain t) h = snd (drain dumps t h)"
| "hub_step dumps DiscardPending h = discard_pending h"
| "hub_step dumps (Sweep now) h = sweep now h"
| "hub_step dumps (Snapshot rects) h = snd (snapshot_chunks dumps rects h)"

subsection \<open>Reading the picture\<close>

definition where_is :: "hub \<Rightarrow> device_id \<Rightarrow> (position_item \<times> cell) option" where
  "where_is h d = map_of (hb_latest h) d"

definition devices_at :: "hub \<Rightarrow> cell \<Rightarrow> device_id list" where
  "devices_at h c = getl (hb_cells h) c"

definition changed_at :: "hub \<Rightarrow> cell \<Rightarrow> device_id list" where
  "changed_at h c = getl (hb_changed h) c"

definition moves_at :: "hub \<Rightarrow> cell \<Rightarrow> (device_id \<times> cell option) list" where
  "moves_at h c = getl (hb_departed h) c"

definition departed_at :: "hub \<Rightarrow> cell \<Rightarrow> device_id \<Rightarrow> cell option option" where
  "departed_at h c d = map_of (moves_at h c) d"

lemma getl_simps [simp]:
  "getl [] k = []" "getl (AList.update k v d) k' = (if k' = k then v else getl d k')"
  "getl (AList.delete k d) k' = (if k' = k then [] else getl d k')"
  by (simp_all add: getl_def)

lemma getl_entry: "x \<in> set (getl d k) \<Longrightarrow> (k, getl d k) \<in> set d"
  by (cases "map_of d k") (auto simp: getl_def dest: map_of_SomeD)

lemma set_add_to [simp]: "set (add_to x xs) = insert x (set xs)"
  by (auto simp: add_to_def)

lemma distinct_add_to [simp]: "distinct (add_to x xs) = distinct xs"
  by (auto simp: add_to_def)

lemma add_to_not_Nil [simp]: "add_to x xs \<noteq> []"
  by (auto simp: add_to_def)

lemma touch_reads [simp]:
  "where_is (touch c d h) = where_is h" "devices_at (touch c d h) = devices_at h"
  "hb_latest (touch c d h) = hb_latest h" "hb_cells (touch c d h) = hb_cells h"
  "hb_cell_size_deg (touch c d h) = hb_cell_size_deg h"
  "changed_at (touch c d h) x = (if x = c then add_to d (changed_at h c) else changed_at h x)"
  "moves_at (touch c d h) x = (if x = c then AList.delete d (moves_at h c) else moves_at h x)"
  "departed_at (touch c d h) x e = (if x = c \<and> e = d then None else departed_at h x e)"
  "map_of (hb_snapshots (touch c d h)) x = (if x = c then None else map_of (hb_snapshots h) x)"
  by (auto simp: touch_def where_is_def devices_at_def changed_at_def departed_at_def moves_at_def fun_eq_iff getl_def
      split: option.splits)

lemma leave_reads [simp]:
  "where_is (leave c d m h) = where_is h" "hb_latest (leave c d m h) = hb_latest h"
  "hb_cell_size_deg (leave c d m h) = hb_cell_size_deg h"
  "devices_at (leave c d m h) x = (if x = c then removeAll d (devices_at h c) else devices_at h x)"
  "changed_at (leave c d m h) x = (if x = c then removeAll d (changed_at h c) else changed_at h x)"
  "moves_at (leave c d m h) x = (if x = c then AList.update d m (moves_at h c) else moves_at h x)"
  "departed_at (leave c d m h) x e = (if x = c \<and> e = d then Some m else departed_at h x e)"
  "map_of (hb_snapshots (leave c d m h)) x = (if x = c then None else map_of (hb_snapshots h) x)"
  by (auto simp: leave_def where_is_def devices_at_def changed_at_def departed_at_def moves_at_def getl_def
      split: option.splits)

lemma enter_cell_reads [simp]:
  "where_is (enter_cell item c h) d = (if d = fst item then Some (item, c) else where_is h d)"
  "devices_at (enter_cell item c h) x = (if x = c then add_to (fst item) (devices_at h c) else devices_at h x)"
  "changed_at (enter_cell item c h) x = (if x = c then add_to (fst item) (changed_at h c) else changed_at h x)"
  "moves_at (enter_cell item c h) x = (if x = c then AList.delete (fst item) (moves_at h c) else moves_at h x)"
  "departed_at (enter_cell item c h) x e = (if x = c \<and> e = fst item then None else departed_at h x e)"
  "map_of (hb_snapshots (enter_cell item c h)) x = (if x = c then None else map_of (hb_snapshots h) x)"
  "hb_cell_size_deg (enter_cell item c h) = hb_cell_size_deg h"
  unfolding enter_cell_def Let_def
  by (auto simp: where_is_def devices_at_def changed_at_def departed_at_def moves_at_def touch_def getl_def split: option.splits)

lemma clear_pending_reads [simp]:
  "where_is (clear_pending h) = where_is h" "devices_at (clear_pending h) = devices_at h"
  "changed_at (clear_pending h) c = []" "moves_at (clear_pending h) c = []" "departed_at (clear_pending h) c d = None"
  "hb_snapshots (clear_pending h) = hb_snapshots h" "hb_cells (clear_pending h) = hb_cells h"
  "hb_latest (clear_pending h) = hb_latest h" "hb_cell_size_deg (clear_pending h) = hb_cell_size_deg h"
  by (simp_all add: clear_pending_def where_is_def devices_at_def changed_at_def departed_at_def moves_at_def fun_eq_iff)

lemma items_of_reads: "items_of h ds = map (\<lambda>d. fst (the (where_is h d))) ds"
  by (simp add: items_of_def where_is_def)

lemma item_cell_cong: "hb_cell_size_deg h = hb_cell_size_deg h' \<Longrightarrow> item_cell h = item_cell h'"
  by (simp add: item_cell_def fun_eq_iff split: prod.splits)

subsection \<open>The invariant of the picture\<close>

declare split_paired_All [simp del] split_paired_Ex [simp del]

definition keys_ok :: "hub \<Rightarrow> bool" where
  "keys_ok h \<longleftrightarrow> distinct (keys (hb_latest h)) \<and> distinct (keys (hb_cells h)) \<and>
     distinct (keys (hb_changed h)) \<and> distinct (keys (hb_departed h)) \<and> [] \<notin> snd ` set (hb_cells h)"

definition picture_ok :: "hub \<Rightarrow> bool" where
  "picture_ok h \<longleftrightarrow>
     (\<forall>c. distinct (devices_at h c)) \<and>
     (\<forall>d c. d \<in> set (devices_at h c) \<longleftrightarrow> (\<exists>i. where_is h d = Some (i, c))) \<and>
     (\<forall>d i c. where_is h d = Some (i, c) \<longrightarrow> fst i = d \<and> item_cell h i = c)"

definition pending_ok :: "hub \<Rightarrow> bool" where
  "pending_ok h \<longleftrightarrow>
     (\<forall>c. distinct (keys (moves_at h c))) \<and>
     (\<forall>c. distinct (changed_at h c) \<and> set (changed_at h c) \<subseteq> set (devices_at h c)) \<and>
     (\<forall>c d. departed_at h c d \<noteq> None \<longrightarrow> d \<notin> set (devices_at h c))"

definition cache_ok :: "dumps \<Rightarrow> hub \<Rightarrow> bool" where
  "cache_ok dumps h \<longleftrightarrow>
     (\<forall>c chunk. map_of (hb_snapshots h) c = Some chunk \<longrightarrow> chunk = encode_chunk dumps (items_of h (devices_at h c)))"

definition hub_inv :: "dumps \<Rightarrow> hub \<Rightarrow> bool" where
  "hub_inv dumps h \<longleftrightarrow> keys_ok h \<and> picture_ok h \<and> pending_ok h \<and> cache_ok dumps h"

lemmas hub_reads = where_is_def devices_at_def changed_at_def departed_at_def moves_at_def

lemma hub_inv_init: "hub_inv dumps (hub_init size_deg stale)"
  by (simp add: hub_inv_def keys_ok_def picture_ok_def pending_ok_def cache_ok_def hub_init_def hub_reads getl_def)

lemma no_empty_update: "v \<noteq> [] \<Longrightarrow> [] \<notin> snd ` set d \<Longrightarrow> [] \<notin> snd ` set (AList.update k v d)"
  using set_update_entries [of k v d] by fastforce

lemma no_empty_delete: "[] \<notin> snd ` set d \<Longrightarrow> [] \<notin> snd ` set (AList.delete k d)"
  using set_delete_entries [of k d] by fastforce

lemmas keys_rules = distinct_update_keys distinct_delete_keys no_empty_update no_empty_delete

lemma keys_leave: "keys_ok h \<Longrightarrow> keys_ok (leave c d m h)"
  unfolding keys_ok_def leave_def by (simp add: keys_rules split: option.splits)

lemma keys_enter: "keys_ok h \<Longrightarrow> keys_ok (enter_cell item c h)"
  unfolding keys_ok_def enter_cell_def Let_def touch_def by (simp add: keys_rules split: option.splits)

text \<open>
  Between \<open>leave\<close> and the step that follows it the device is in no cell; \<open>picture_but\<close> is
  what still holds of the others.
\<close>

definition absent :: "device_id \<Rightarrow> hub \<Rightarrow> bool" where
  "absent d h \<longleftrightarrow> (\<forall>c. d \<notin> set (devices_at h c))"

definition picture_but :: "device_id \<Rightarrow> hub \<Rightarrow> bool" where
  "picture_but d h \<longleftrightarrow>
     (\<forall>c. distinct (devices_at h c)) \<and>
     (\<forall>e c. e \<noteq> d \<longrightarrow> (e \<in> set (devices_at h c) \<longleftrightarrow> (\<exists>i. where_is h e = Some (i, c)))) \<and>
     (\<forall>e i c. e \<noteq> d \<longrightarrow> where_is h e = Some (i, c) \<longrightarrow> fst i = e \<and> item_cell h i = c)"

lemma picture_but_leave: "picture_but d h \<Longrightarrow> picture_but d (leave c d m h)"
  using item_cell_cong [of "leave c d m h" h] by (auto simp: picture_but_def distinct_removeAll)

lemma picture_but_weaken: "picture_ok h \<Longrightarrow> picture_but d h"
  by (auto simp: picture_but_def picture_ok_def)

lemma absent_leave: "picture_ok h \<Longrightarrow> where_is h d = Some (i, c) \<Longrightarrow> absent d (leave c d m h)"
  by (auto simp: absent_def picture_ok_def)

lemma absent_new: "picture_ok h \<Longrightarrow> where_is h d = None \<Longrightarrow> absent d h"
  by (auto simp: absent_def picture_ok_def)

lemma picture_enter:
  assumes "picture_but (fst item) h" "\<forall>x. x \<noteq> c \<longrightarrow> fst item \<notin> set (devices_at h x)" "item_cell h item = c"
  shows "picture_ok (enter_cell item c h)"
  using assms item_cell_cong [of "enter_cell item c h" h] unfolding picture_ok_def picture_but_def by auto

lemma pending_leave: "pending_ok h \<Longrightarrow> pending_ok (leave c d m h)"
  by (auto simp: pending_ok_def distinct_removeAll distinct_update_keys)

lemma pending_enter: "pending_ok h \<Longrightarrow> pending_ok (enter_cell item c h)"
  by (auto simp: pending_ok_def distinct_delete_keys)

lemma items_of_cong: "(\<And>d. d \<in> set ds \<Longrightarrow> where_is h d = where_is h' d) \<Longrightarrow> items_of h ds = items_of h' ds"
  by (simp add: items_of_reads)

lemma cache_leave: "cache_ok dumps h \<Longrightarrow> cache_ok dumps (leave c d m h)"
  by (auto simp: cache_ok_def items_of_reads split: if_splits)

lemma cache_enter:
  assumes "cache_ok dumps h" "\<forall>x. x \<noteq> c \<longrightarrow> fst item \<notin> set (devices_at h x)"
  shows "cache_ok dumps (enter_cell item c h)"
proof -
  have "items_of (enter_cell item c h) (devices_at h x) = items_of h (devices_at h x)" if "x \<noteq> c" for x
    by (rule items_of_cong) (use that assms(2) in auto)
  with assms(1) show ?thesis by (auto simp: cache_ok_def split: if_splits)
qed

lemma hub_inv_enter:
  assumes "keys_ok h" "picture_but (fst item) h" "pending_ok h" "cache_ok dumps h"
    and "\<forall>x. x \<noteq> c \<longrightarrow> fst item \<notin> set (devices_at h x)" "item_cell h item = c"
  shows "hub_inv dumps (enter_cell item c h)"
  unfolding hub_inv_def using assms by (blast intro: keys_enter picture_enter pending_enter cache_enter)

lemma hub_inv_apply_item: "hub_inv dumps h \<Longrightarrow> hub_inv dumps (apply_item h item)"
proof -
  assume inv: "hub_inv dumps h"
  then have parts: "keys_ok h" "picture_ok h" "pending_ok h" "cache_ok dumps h" by (auto simp: hub_inv_def)
  let ?d = "fst item" and ?c = "item_cell h item"
  consider (new) "where_is h ?d = None" | (seen) old was where "where_is h ?d = Some (old, was)"
    by (cases "where_is h ?d") auto
  then show ?thesis
  proof cases
    case new
    then have "hub_inv dumps (enter_cell item ?c h)"
      using absent_new [OF parts(2) new]
      by (intro hub_inv_enter parts picture_but_weaken) (auto simp: absent_def)
    with new show ?thesis by (simp add: apply_item_def where_is_def Let_def)
  next
    case seen
    let ?h = "if was \<noteq> ?c then leave was ?d (Some ?c) h else h"
    have elsewhere: "\<forall>x. x \<noteq> ?c \<longrightarrow> ?d \<notin> set (devices_at ?h x)"
      using parts(2) seen by (auto simp: picture_ok_def)
    have "hub_inv dumps (enter_cell item ?c ?h)"
      by (rule hub_inv_enter [OF _ _ _ _ elsewhere])
        (use parts in \<open>auto intro: keys_leave picture_but_leave picture_but_weaken pending_leave cache_leave
           simp: item_cell_def\<close>)
    with seen inv show ?thesis by (simp add: apply_item_def where_is_def Let_def)
  qed
qed

lemma hub_inv_apply: "hub_inv dumps h \<Longrightarrow> hub_inv dumps (hub_apply items h)"
  unfolding hub_apply_def by (induction items arbitrary: h) (auto intro: hub_inv_apply_item)

lemma hub_inv_clear: "hub_inv dumps h \<Longrightarrow> hub_inv dumps (clear_pending h)"
  using item_cell_cong [of "clear_pending h" h]
  by (simp add: hub_inv_def keys_ok_def picture_ok_def pending_ok_def cache_ok_def items_of_reads)
    (simp add: clear_pending_def)

definition forgotten :: "device_id \<Rightarrow> hub \<Rightarrow> hub" where
  "forgotten d h = h\<lparr>hb_latest := AList.delete d (hb_latest h)\<rparr>"

lemma forgotten_reads [simp]:
  "where_is (forgotten d h) e = (if e = d then None else where_is h e)" "devices_at (forgotten d h) = devices_at h"
  "changed_at (forgotten d h) = changed_at h" "moves_at (forgotten d h) = moves_at h" "departed_at (forgotten d h) = departed_at h"
  "hb_snapshots (forgotten d h) = hb_snapshots h" "hb_cell_size_deg (forgotten d h) = hb_cell_size_deg h"
  by (simp_all add: forgotten_def hub_reads fun_eq_iff)

lemma hub_inv_forget: "hub_inv dumps h \<Longrightarrow> hub_inv dumps (forget d h)"
proof (cases "where_is h d")
  case (Some ic)
  assume inv: "hub_inv dumps h"
  then have parts: "keys_ok h" "picture_ok h" "pending_ok h" "cache_ok dumps h" by (auto simp: hub_inv_def)
  obtain i c where ic: "ic = (i, c)" by (cases ic)
  let ?h = "leave c d None (forgotten d h)"
  have at_c: "\<forall>x. x \<noteq> c \<longrightarrow> d \<notin> set (devices_at h x)" using parts(2) Some ic by (auto simp: picture_ok_def)
  have "keys_ok ?h"
    by (rule keys_leave) (use parts(1) in \<open>auto simp: keys_ok_def forgotten_def distinct_delete_keys\<close>)
  moreover have "picture_ok ?h"
    using parts(2) at_c item_cell_cong [of ?h h] unfolding picture_ok_def by (auto simp: distinct_removeAll)
  moreover have "pending_ok ?h" using parts(3) by (auto simp: pending_ok_def distinct_removeAll distinct_update_keys)
  moreover have "cache_ok dumps ?h"
  proof -
    have "items_of ?h (devices_at h x) = items_of h (devices_at h x)" if "x \<noteq> c" for x
      by (rule items_of_cong) (use that at_c in auto)
    with parts(4) show ?thesis by (auto simp: cache_ok_def split: if_splits)
  qed
  ultimately show ?thesis using Some ic by (simp add: hub_inv_def forget_def forgotten_def where_is_def)
qed (simp add: forget_def where_is_def)

lemma hub_inv_sweep: "hub_inv dumps h \<Longrightarrow> hub_inv dumps (sweep now h)"
proof -
  have "hub_inv dumps h \<Longrightarrow> hub_inv dumps (fold forget ds h)" for ds h
    by (induction ds arbitrary: h) (auto intro: hub_inv_forget)
  then show "hub_inv dumps h \<Longrightarrow> hub_inv dumps (sweep now h)" by (simp add: sweep_def Let_def)
qed

subsection \<open>The snapshot\<close>

lemma snapshots_reads [simp]:
  "where_is (h\<lparr>hb_snapshots := s\<rparr>) = where_is h" "devices_at (h\<lparr>hb_snapshots := s\<rparr>) = devices_at h"
  "changed_at (h\<lparr>hb_snapshots := s\<rparr>) = changed_at h" "moves_at (h\<lparr>hb_snapshots := s\<rparr>) = moves_at h" "departed_at (h\<lparr>hb_snapshots := s\<rparr>) = departed_at h"
  "item_cell (h\<lparr>hb_snapshots := s\<rparr>) = item_cell h" "items_of (h\<lparr>hb_snapshots := s\<rparr>) = items_of h"
  by (simp_all add: hub_reads item_cell_def items_of_def fun_eq_iff)

lemma same_parts:
  "keys_ok (h\<lparr>hb_snapshots := s\<rparr>) = keys_ok h" "picture_ok (h\<lparr>hb_snapshots := s\<rparr>) = picture_ok h"
  "pending_ok (h\<lparr>hb_snapshots := s\<rparr>) = pending_ok h"
  by (simp_all add: keys_ok_def picture_ok_def pending_ok_def)

lemma snapshot_cell_result:
  assumes "cache_ok dumps h" "devices_at h c = ds"
  shows "\<exists>s. snapshot_cell dumps (c, ds) h = (encode_chunk dumps (items_of h ds), h\<lparr>hb_snapshots := s\<rparr>) \<and>
    cache_ok dumps (h\<lparr>hb_snapshots := s\<rparr>)"
proof (cases "map_of (hb_snapshots h) c")
  case None
  let ?s = "AList.update c (encode_chunk dumps (items_of h ds)) (hb_snapshots h)"
  have "cache_ok dumps (h\<lparr>hb_snapshots := ?s\<rparr>)"
    using assms by (auto simp: cache_ok_def items_of_def devices_at_def split: if_splits)
  with None show ?thesis by (auto simp: snapshot_cell_def Let_def)
next
  case (Some chunk)
  with assms have "chunk = encode_chunk dumps (items_of h ds)" by (auto simp: cache_ok_def)
  with Some assms(1) show ?thesis by (intro exI [of _ "hb_snapshots h"]) (simp add: snapshot_cell_def)
qed

lemma snapshot_cells_result:
  assumes "cache_ok dumps h" "\<forall>(c, ds) \<in> set cds. devices_at h c = ds"
  shows "\<exists>s. snapshot_cells dumps rects cds h =
      (map (\<lambda>(c, ds). encode_chunk dumps (items_of h ds)) (filter (covers rects \<circ> fst) cds), h\<lparr>hb_snapshots := s\<rparr>) \<and>
    cache_ok dumps (h\<lparr>hb_snapshots := s\<rparr>)"
  using assms
proof (induction cds arbitrary: h)
  case Nil
  then show ?case by (intro exI [of _ "hb_snapshots h"]) simp
next
  case (Cons cd cds)
  obtain c ds where cd: "cd = (c, ds)" by (cases cd)
  show ?case
  proof (cases "covers rects c")
    case False
    with Cons cd show ?thesis by simp
  next
    case True
    from Cons.prems cd have "devices_at h c = ds" by simp
    from snapshot_cell_result [OF Cons.prems(1) this] obtain s
      where s: "snapshot_cell dumps (c, ds) h = (encode_chunk dumps (items_of h ds), h\<lparr>hb_snapshots := s\<rparr>)"
        "cache_ok dumps (h\<lparr>hb_snapshots := s\<rparr>)" by blast
    have "\<forall>(c, ds) \<in> set cds. devices_at (h\<lparr>hb_snapshots := s\<rparr>) c = ds"
      using Cons.prems(2) by (auto simp: devices_at_def)
    from Cons.IH [OF s(2) this] s(1) True cd show ?thesis by (auto simp: items_of_def)
  qed
qed

lemma cells_are_devices_at: "keys_ok h \<Longrightarrow> \<forall>(c, ds) \<in> set (hb_cells h). devices_at h c = ds"
  by (auto simp: keys_ok_def devices_at_def getl_def)

definition snapshot_groups :: "cell_rect list \<Rightarrow> hub \<Rightarrow> position_item list list" where
  "snapshot_groups rects h = map (\<lambda>(c, ds). items_of h ds) (filter (covers rects \<circ> fst) (hb_cells h))"

lemma snapshot_chunks_result:
  assumes "hub_inv dumps h"
  obtains s where "snapshot_chunks dumps rects h = (map (encode_chunk dumps) (snapshot_groups rects h), h\<lparr>hb_snapshots := s\<rparr>)"
    "hub_inv dumps (h\<lparr>hb_snapshots := s\<rparr>)"
proof -
  from assms have "cache_ok dumps h" "\<forall>(c, ds) \<in> set (hb_cells h). devices_at h c = ds"
    by (auto simp: hub_inv_def cells_are_devices_at [unfolded case_prod_beta] case_prod_beta)
  from snapshot_cells_result [OF this, of rects] obtain s
    where s: "snapshot_cells dumps rects (hb_cells h) h =
      (map (\<lambda>(c, ds). encode_chunk dumps (items_of h ds)) (filter (covers rects \<circ> fst) (hb_cells h)), h\<lparr>hb_snapshots := s\<rparr>)"
      "cache_ok dumps (h\<lparr>hb_snapshots := s\<rparr>)" by blast
  have "hub_inv dumps (h\<lparr>hb_snapshots := s\<rparr>)"
    using assms s(2) unfolding hub_inv_def by (auto simp: same_parts)
  with s(1) show thesis
    by (intro that [of s]) (simp_all add: snapshot_chunks_def snapshot_groups_def case_prod_beta comp_def)
qed

lemma hub_inv_step: "hub_inv dumps h \<Longrightarrow> hub_inv dumps (hub_step dumps e h)"
proof (cases e)
  case (Snapshot rects)
  assume "hub_inv dumps h"
  then show ?thesis using Snapshot by (auto elim: snapshot_chunks_result [of dumps h rects])
qed (auto simp: drain_def discard_pending_def intro: hub_inv_apply hub_inv_clear hub_inv_sweep)

interpretation hub: step_system "hub_step dumps" "hub_inv dumps" for dumps
  by unfold_locales (rule hub_inv_step)

definition hub_after :: "dumps \<Rightarrow> rat \<Rightarrow> int \<Rightarrow> hub_event list \<Rightarrow> hub" where
  "hub_after dumps size_deg stale es = fold (hub_step dumps) es (hub_init size_deg stale)"

lemma hub_inv_after: "hub_inv dumps (hub_after dumps size_deg stale es)"
  unfolding hub_after_def by (rule hub.run_keeps [OF hub_inv_init])

lemma keys_of_items:
  assumes "picture_ok h" "set ds \<subseteq> set (devices_at h c)"
  shows "map fst (items_of h ds) = ds"
  using assms(2)
proof (induction ds)
  case (Cons d ds)
  then have "d \<in> set (devices_at h c)" by simp
  with assms(1) obtain i where "where_is h d = Some (i, c)" "fst i = d" by (auto simp: picture_ok_def)
  with Cons show ?case by (simp add: items_of_reads)
qed (simp add: items_of_def)

lemma set_items_of:
  assumes "picture_ok h" "set ds \<subseteq> set (devices_at h c)"
  shows "set (items_of h ds) = {i. \<exists>d. d \<in> set ds \<and> where_is h d = Some (i, c)}"
proof -
  have "\<exists>i. where_is h d = Some (i, c)" if "d \<in> set ds" for d
    using assms that by (auto simp: picture_ok_def)
  then show ?thesis by (force simp: items_of_reads)
qed

text \<open>The devices and positions a window shows.\<close>

definition visible :: "hub \<Rightarrow> cell_rect list \<Rightarrow> device_id \<Rightarrow> position_item option" where
  "visible h rects d =
     (case where_is h d of None \<Rightarrow> None | Some (i, c) \<Rightarrow> if covers rects c then Some i else None)"

lemma visible_Some: "visible h rects d = Some i \<longleftrightarrow> (\<exists>c. where_is h d = Some (i, c) \<and> covers rects c)"
  by (auto simp: visible_def split: option.splits if_splits)

lemma visible_None: "visible h rects d = None \<longleftrightarrow> (\<forall>i c. where_is h d = Some (i, c) \<longrightarrow> \<not> covers rects c)"
  by (auto simp: visible_def split: option.splits if_splits)

lemma cells_devices_distinct:
  assumes "picture_ok h" "distinct (keys cds)" "\<forall>(c, ds) \<in> set cds. set ds \<subseteq> set (devices_at h c) \<and> distinct ds"
  shows "distinct (concat (map snd cds))"
  using assms(2, 3)
proof (induction cds)
  case (Cons cd cds)
  obtain c ds where cd: "cd = (c, ds)" by (cases cd)
  have "set ds \<inter> set ds' = {}" if "(c', ds') \<in> set cds" for c' ds'
  proof -
    have "c' \<noteq> c" using Cons.prems(1) that cd by force
    moreover have "set ds \<subseteq> set (devices_at h c)" "set ds' \<subseteq> set (devices_at h c')" using Cons.prems(2) that cd by auto
    ultimately show ?thesis using assms(1) unfolding picture_ok_def by fastforce
  qed
  with Cons cd show ?case by fastforce
qed simp

lemma map_fst_concat_items:
  assumes "picture_ok h" "\<forall>(c, ds) \<in> set cds. set ds \<subseteq> set (devices_at h c)"
  shows "map fst (concat (map (\<lambda>(c, ds). items_of h ds) cds)) = concat (map snd cds)"
  using assms(2) by (induction cds) (auto simp: keys_of_items [OF assms(1)])

lemma snapshot_groups_ok:
  assumes "hub_inv dumps h"
  shows "[] \<notin> set (snapshot_groups rects h)" "distinct (map fst (concat (snapshot_groups rects h)))"
    "i \<in> set (concat (snapshot_groups rects h)) \<longleftrightarrow> visible h rects (fst i) = Some i"
proof -
  let ?cds = "filter (covers rects \<circ> fst) (hb_cells h)"
  from assms have ok: "keys_ok h" "picture_ok h" by (auto simp: hub_inv_def)
  note at = cells_are_devices_at [OF ok(1)]
  have sub: "\<forall>(c, ds) \<in> set ?cds. set ds \<subseteq> set (devices_at h c) \<and> distinct ds"
    using at ok(2) by (auto simp: picture_ok_def)
  then have sub': "\<forall>(c, ds) \<in> set ?cds. set ds \<subseteq> set (devices_at h c)" by auto
  show "[] \<notin> set (snapshot_groups rects h)"
    using ok(1) by (force simp: snapshot_groups_def keys_ok_def items_of_def)
  show "distinct (map fst (concat (snapshot_groups rects h)))"
    unfolding snapshot_groups_def map_fst_concat_items [OF ok(2) sub']
    by (rule cells_devices_distinct [OF ok(2) _ sub]) (use ok(1) in \<open>simp add: keys_ok_def distinct_map_filter\<close>)
  show "i \<in> set (concat (snapshot_groups rects h)) \<longleftrightarrow> visible h rects (fst i) = Some i"
  proof
    assume "i \<in> set (concat (snapshot_groups rects h))"
    then obtain c ds where c: "(c, ds) \<in> set ?cds" "i \<in> set (items_of h ds)"
      by (auto simp: snapshot_groups_def)
    then have "set ds \<subseteq> set (devices_at h c)" using sub by auto
    from c(2) set_items_of [OF ok(2) this] obtain d where d: "where_is h d = Some (i, c)" by auto
    with ok(2) have "fst i = d" by (auto simp: picture_ok_def)
    with d c(1) show "visible h rects (fst i) = Some i" by (auto simp: visible_Some)
  next
    assume "visible h rects (fst i) = Some i"
    then obtain c where c: "where_is h (fst i) = Some (i, c)" "covers rects c" by (auto simp: visible_Some)
    then have d: "fst i \<in> set (devices_at h c)" using ok(2) unfolding picture_ok_def by blast
    then obtain ds where ds: "(c, ds) \<in> set (hb_cells h)" "devices_at h c = ds"
      unfolding devices_at_def by (blast dest: getl_entry)
    have "i \<in> set (items_of h ds)" using set_items_of [OF ok(2), of ds c] d c ds by auto
    with ds c show "i \<in> set (concat (snapshot_groups rects h))" by (auto simp: snapshot_groups_def)
  qed
qed

subsection \<open>The delta of a tick\<close>

text \<open>
  What a client that watches \<open>rects\<close> is told of a drained tick: the items of the changed cells
  it sees, and the devices that left a cell it sees for one it does not.
\<close>

definition delta_groups :: "cell_rect list \<Rightarrow> hub \<Rightarrow> position_item list list" where
  "delta_groups rects h =
     map (\<lambda>(c, ds). items_of h ds) (filter (\<lambda>(c, ds). ds \<noteq> [] \<and> covers rects c) (hb_changed h))"

definition left_view :: "cell_rect list \<Rightarrow> tick_delta \<Rightarrow> device_id list" where
  "left_view rects delta =
     concat (map (\<lambda>(c, ds). if covers rects c then
        map de_device_id (filter (\<lambda>x. case de_moved_to x of None \<Rightarrow> True | Some to \<Rightarrow> \<not> covers rects to) ds) else [])
       (td_departures delta))"

lemma delta_item:
  assumes "hub_inv dumps h"
  shows "i \<in> set (concat (delta_groups rects h)) \<longleftrightarrow>
    (\<exists>c. covers rects c \<and> fst i \<in> set (changed_at h c) \<and> where_is h (fst i) = Some (i, c))"
proof -
  from assms have ok: "keys_ok h" "picture_ok h" "pending_ok h" by (auto simp: hub_inv_def)
  have at_c: "changed_at h c = ds" if "(c, ds) \<in> set (hb_changed h)" for c ds
    using ok(1) that by (auto simp: keys_ok_def changed_at_def getl_def)
  have items: "set (items_of h (changed_at h c)) = {i. \<exists>d. d \<in> set (changed_at h c) \<and> where_is h d = Some (i, c)}" for c
    by (rule set_items_of [OF ok(2)]) (use ok(3) in \<open>auto simp: pending_ok_def\<close>)
  have fst_i: "where_is h d = Some (i, c) \<Longrightarrow> fst i = d" for d i c using ok(2) by (auto simp: picture_ok_def)
  show ?thesis
  proof
    assume "i \<in> set (concat (delta_groups rects h))"
    then obtain c ds where "(c, ds) \<in> set (hb_changed h)" "covers rects c" "i \<in> set (items_of h ds)"
      by (auto simp: delta_groups_def)
    with at_c [of c ds] items [of c] obtain d where "covers rects c" "d \<in> set (changed_at h c)" "where_is h d = Some (i, c)"
      by auto
    with fst_i [of d i c] show "\<exists>c. covers rects c \<and> fst i \<in> set (changed_at h c) \<and> where_is h (fst i) = Some (i, c)"
      by blast
  next
    assume "\<exists>c. covers rects c \<and> fst i \<in> set (changed_at h c) \<and> where_is h (fst i) = Some (i, c)"
    then obtain c where c: "covers rects c" "fst i \<in> set (changed_at h c)" "where_is h (fst i) = Some (i, c)" by blast
    then have "(c, changed_at h c) \<in> set (hb_changed h)" "changed_at h c \<noteq> []"
      unfolding changed_at_def by (auto dest: getl_entry)
    moreover have "i \<in> set (items_of h (changed_at h c))" using items [of c] c by auto
    ultimately show "i \<in> set (concat (delta_groups rects h))" using c(1) unfolding delta_groups_def by force
  qed
qed

lemma left_view_entries:
  "left_view rects (fst (drain dumps t h)) =
     concat (map (\<lambda>cm. if covers rects (fst cm) then
        map fst (filter (\<lambda>m. snd m = None \<or> \<not> covers rects (the (snd m))) (snd cm)) else [])
       (filter (\<lambda>cm. snd cm \<noteq> []) (hb_departed h)))"
proof -
  have "map de_device_id (filter (\<lambda>x. case de_moved_to x of None \<Rightarrow> True | Some to \<Rightarrow> \<not> covers rects to)
      (map (\<lambda>(d, to). \<lparr>de_device_id = d, de_moved_to = to\<rparr>) ms)) =
    map fst (filter (\<lambda>m. snd m = None \<or> \<not> covers rects (the (snd m))) ms)" for ms
    by (induction ms) (auto split: option.splits)
  then show ?thesis by (simp add: left_view_def drain_def comp_def case_prod_unfold cong: if_cong)
qed

lemma left_view_drain:
  assumes "hub_inv dumps h"
  shows "d \<in> set (left_view rects (fst (drain dumps t h))) \<longleftrightarrow>
    (\<exists>c to. covers rects c \<and> departed_at h c d = Some to \<and> (to = None \<or> \<not> covers rects (the to)))"
proof -
  let ?away = "\<lambda>to. to = None \<or> \<not> covers rects (the to)"
  from assms have ok: "keys_ok h" "pending_ok h" by (auto simp: hub_inv_def)
  have at_c: "moves_at h c = ms" if "(c, ms) \<in> set (hb_departed h)" for c ms
    using ok(1) that by (auto simp: keys_ok_def moves_at_def getl_def)
  have look: "(d, to) \<in> set (moves_at h c) \<longleftrightarrow> departed_at h c d = Some to" for c to
    using ok(2) by (simp add: pending_ok_def departed_at_def)
  have left: "d \<in> set (left_view rects (fst (drain dumps t h))) \<longleftrightarrow>
    (\<exists>c ms to. (c, ms) \<in> set (hb_departed h) \<and> covers rects c \<and> (d, to) \<in> set ms \<and> ?away to)"
    unfolding left_view_entries by (auto split: if_splits) (force split: if_splits)+
  show ?thesis
  proof
    assume "d \<in> set (left_view rects (fst (drain dumps t h)))"
    then show "\<exists>c to. covers rects c \<and> departed_at h c d = Some to \<and> ?away to" unfolding left using at_c look by blast
  next
    assume "\<exists>c to. covers rects c \<and> departed_at h c d = Some to \<and> ?away to"
    then obtain c to where c: "covers rects c" "(d, to) \<in> set (moves_at h c)" "?away to" using look by blast
    from c(2) have "(c, moves_at h c) \<in> set (hb_departed h)" unfolding moves_at_def by (rule getl_entry)
    with c show "d \<in> set (left_view rects (fst (drain dumps t h)))" unfolding left by blast
  qed
qed

text \<open>
  While changes collect, two things hold against the picture \<open>h0\<close> of the last tick: a device whose
  entry differs is marked as changed, and a device that left the window is on record as having done so.
\<close>

definition recorded :: "hub \<Rightarrow> cell_rect list \<Rightarrow> hub \<Rightarrow> bool" where
  "recorded h0 rects h \<longleftrightarrow>
     (\<forall>d i c. where_is h d = Some (i, c) \<longrightarrow> where_is h0 d \<noteq> Some (i, c) \<longrightarrow> d \<in> set (changed_at h c)) \<and>
     (\<forall>d. visible h0 rects d \<noteq> None \<longrightarrow> visible h rects d = None \<longrightarrow>
        (\<exists>c to. covers rects c \<and> departed_at h c d = Some to \<and> (to = None \<or> \<not> covers rects (the to))))"

lemma recorded_other:
  assumes "recorded h0 rects h" "e \<noteq> d" "where_is h' e = where_is h e"
    and "\<And>c. e \<in> set (changed_at h c) \<Longrightarrow> e \<in> set (changed_at h' c)" "\<And>c. departed_at h' c e = departed_at h c e"
  shows "where_is h' e = Some (i, c) \<Longrightarrow> where_is h0 e \<noteq> Some (i, c) \<Longrightarrow> e \<in> set (changed_at h' c)"
    and "visible h0 rects e \<noteq> None \<Longrightarrow> visible h' rects e = None \<Longrightarrow>
      \<exists>c to. covers rects c \<and> departed_at h' c e = Some to \<and> (to = None \<or> \<not> covers rects (the to))"
proof -
  have "visible h' rects e = visible h rects e" by (simp add: visible_def assms(3))
  then show "visible h0 rects e \<noteq> None \<Longrightarrow> visible h' rects e = None \<Longrightarrow>
      \<exists>c to. covers rects c \<and> departed_at h' c e = Some to \<and> (to = None \<or> \<not> covers rects (the to))"
    using assms(1, 5) unfolding recorded_def by auto
  show "where_is h' e = Some (i, c) \<Longrightarrow> where_is h0 e \<noteq> Some (i, c) \<Longrightarrow> e \<in> set (changed_at h' c)"
    using assms(1, 3, 4) unfolding recorded_def by auto
qed

lemma recordedI:
  assumes "recorded h0 rects h"
    and other: "\<And>e. e \<noteq> d \<Longrightarrow> where_is h' e = where_is h e"
      "\<And>e c. e \<noteq> d \<Longrightarrow> e \<in> set (changed_at h c) \<Longrightarrow> e \<in> set (changed_at h' c)"
      "\<And>e c. e \<noteq> d \<Longrightarrow> departed_at h' c e = departed_at h c e"
    and self: "\<And>i c. where_is h' d = Some (i, c) \<Longrightarrow> d \<in> set (changed_at h' c)"
      "visible h0 rects d \<noteq> None \<Longrightarrow> visible h' rects d = None \<Longrightarrow>
        \<exists>c to. covers rects c \<and> departed_at h' c d = Some to \<and> (to = None \<or> \<not> covers rects (the to))"
  shows "recorded h0 rects h'"
  unfolding recorded_def
proof (intro conjI allI impI)
  fix e i c
  assume "where_is h' e = Some (i, c)" "where_is h0 e \<noteq> Some (i, c)"
  then show "e \<in> set (changed_at h' c)"
    using self(1) recorded_other(1) [OF assms(1), of e d h' i c] other by (cases "e = d") auto
next
  fix e
  assume "visible h0 rects e \<noteq> None" "visible h' rects e = None"
  then show "\<exists>c to. covers rects c \<and> departed_at h' c e = Some to \<and> (to = None \<or> \<not> covers rects (the to))"
    using self(2) recorded_other(2) [OF assms(1), of e d h'] other by (cases "e = d") auto
qed

lemma recorded_gone:
  "recorded h0 rects h \<Longrightarrow> visible h0 rects d \<noteq> None \<Longrightarrow> visible h rects d = None \<Longrightarrow>
    \<exists>c to. covers rects c \<and> departed_at h c d = Some to \<and> (to = None \<or> \<not> covers rects (the to))"
  by (auto simp: recorded_def)

lemma recorded_apply_item:
  assumes "recorded h0 rects h"
  shows "recorded h0 rects (apply_item h item)"
proof -
  let ?d = "fst item" and ?c = "item_cell h item"
  consider (new) "where_is h ?d = None" | (seen) old was where "where_is h ?d = Some (old, was)"
    by (cases "where_is h ?d") auto
  then show ?thesis
  proof cases
    case new
    have "recorded h0 rects (enter_cell item ?c h)"
    proof (rule recordedI [OF assms, where d = ?d])
      assume gone: "visible h0 rects ?d \<noteq> None" "visible (enter_cell item ?c h) rects ?d = None"
      then have away: "\<not> covers rects ?c" by (auto simp: visible_None)
      have "visible h rects ?d = None" using new by (simp add: visible_None)
      from recorded_gone [OF assms gone(1) this] obtain c to
        where "covers rects c" "departed_at h c ?d = Some to" "to = None \<or> \<not> covers rects (the to)" by blast
      with away show "\<exists>c to. covers rects c \<and> departed_at (enter_cell item ?c h) c ?d = Some to \<and> (to = None \<or> \<not> covers rects (the to))"
        by (intro exI [of _ c] exI [of _ to]) auto
    qed (auto split: if_splits)
    with new show ?thesis by (simp add: apply_item_def where_is_def Let_def)
  next
    case seen
    let ?h = "if was \<noteq> ?c then leave was ?d (Some ?c) h else h"
    have "recorded h0 rects (enter_cell item ?c ?h)"
    proof (rule recordedI [OF assms, where d = ?d])
      assume gone: "visible h0 rects ?d \<noteq> None" "visible (enter_cell item ?c ?h) rects ?d = None"
      then have away: "\<not> covers rects ?c" by (auto simp: visible_None)
      show "\<exists>c to. covers rects c \<and> departed_at (enter_cell item ?c ?h) c ?d = Some to \<and> (to = None \<or> \<not> covers rects (the to))"
      proof (cases "covers rects was")
        case True
        with away show ?thesis by (intro exI [of _ was] exI [of _ "Some ?c"]) auto
      next
        case False
        then have "visible h rects ?d = None" using seen by (auto simp: visible_None)
        from recorded_gone [OF assms gone(1) this] obtain c to
          where "covers rects c" "departed_at h c ?d = Some to" "to = None \<or> \<not> covers rects (the to)" by blast
        with False away show ?thesis by (intro exI [of _ c] exI [of _ to]) auto
      qed
    qed (auto split: if_splits)
    with seen assms show ?thesis by (simp add: apply_item_def where_is_def Let_def)
  qed
qed

lemma recorded_forget:
  assumes "recorded h0 rects h"
  shows "recorded h0 rects (forget d h)"
proof (cases "where_is h d")
  case (Some ic)
  obtain i c where ic: "ic = (i, c)" by (cases ic)
  let ?h = "leave c d None (forgotten d h)"
  have "recorded h0 rects ?h"
  proof (rule recordedI [OF assms, where d = d])
    assume gone: "visible h0 rects d \<noteq> None" "visible ?h rects d = None"
    show "\<exists>c to. covers rects c \<and> departed_at ?h c d = Some to \<and> (to = None \<or> \<not> covers rects (the to))"
    proof (cases "covers rects c")
      case True
      then show ?thesis by (intro exI [of _ c] exI [of _ None]) auto
    next
      case False
      then have "visible h rects d = None" using Some ic by (auto simp: visible_None)
      from recorded_gone [OF assms gone(1) this] obtain x to
        where "covers rects x" "departed_at h x d = Some to" "to = None \<or> \<not> covers rects (the to)" by blast
      with False show ?thesis by (intro exI [of _ x] exI [of _ to]) auto
    qed
  qed auto
  with Some ic show ?thesis by (simp add: forget_def forgotten_def where_is_def)
qed (use assms in \<open>simp add: forget_def where_is_def\<close>)

fun collects :: "hub_event \<Rightarrow> bool" where
  "collects (Apply items) = True"
| "collects (Sweep now) = True"
| "collects (Snapshot rects) = True"
| "collects (Drain t) = False"
| "collects DiscardPending = False"

lemma recorded_step:
  assumes "hub_inv dumps h" "recorded h0 rects h" "collects e"
  shows "recorded h0 rects (hub_step dumps e h)"
proof (cases e)
  case (Apply items)
  have "recorded h0 rects h \<Longrightarrow> recorded h0 rects (foldl apply_item h items)" for h
    by (induction items arbitrary: h) (auto intro: recorded_apply_item)
  with Apply assms show ?thesis by (simp add: hub_apply_def)
next
  case (Sweep now)
  have "recorded h0 rects h \<Longrightarrow> recorded h0 rects (fold forget ds h)" for ds h
    by (induction ds arbitrary: h) (auto intro: recorded_forget)
  with Sweep assms show ?thesis by (simp add: sweep_def Let_def)
next
  case (Snapshot rs)
  obtain s where s: "snapshot_chunks dumps rs h = (map (encode_chunk dumps) (snapshot_groups rs h), h\<lparr>hb_snapshots := s\<rparr>)"
    by (rule snapshot_chunks_result [OF assms(1)])
  have "recorded h0 rects (h\<lparr>hb_snapshots := s\<rparr>) = recorded h0 rects h"
    unfolding recorded_def visible_def snapshots_reads ..
  with Snapshot s assms(2) show ?thesis by simp
qed (use assms in auto)

lemma recorded_run:
  "hub_inv dumps h \<Longrightarrow> recorded h0 rects h \<Longrightarrow> list_all collects es \<Longrightarrow> recorded h0 rects (fold (hub_step dumps) es h)"
  by (induction es arbitrary: h) (auto intro: recorded_step hub_inv_step)

lemma recorded_start: "recorded h rects h"
  unfolding recorded_def by auto

text \<open>What the dashboard does with a delta: put the items in, then take the removed devices out.\<close>

definition show_delta :: "position_item list \<Rightarrow> device_id list \<Rightarrow> (device_id \<Rightarrow> position_item option) \<Rightarrow>
    device_id \<Rightarrow> position_item option" where
  "show_delta items removed view d =
     (if d \<in> set removed then None
      else (case map_of (map (\<lambda>i. (fst i, i)) (rev items)) d of Some i \<Rightarrow> Some i | None \<Rightarrow> view d))"

lemma shown_item:
  assumes "inj_on fst (set items)"
  shows "map_of (map (\<lambda>i. (fst i, i)) (rev items)) d = Some i \<longleftrightarrow> i \<in> set items \<and> fst i = d"
proof
  assume "map_of (map (\<lambda>i. (fst i, i)) (rev items)) d = Some i"
  from map_of_SomeD [OF this] show "i \<in> set items \<and> fst i = d" by auto
next
  assume i: "i \<in> set items \<and> fst i = d"
  then have "map_of (map (\<lambda>i. (fst i, i)) (rev items)) d \<noteq> None" by (auto simp: map_of_eq_None_iff image_iff)
  then obtain j where j: "map_of (map (\<lambda>i. (fst i, i)) (rev items)) d = Some j" by blast
  from map_of_SomeD [OF this] have "j \<in> set items" "fst j = d" by auto
  with i inj_onD [OF assms, of j i] j show "map_of (map (\<lambda>i. (fst i, i)) (rev items)) d = Some i" by simp
qed

lemma shown_nothing: "map_of (map (\<lambda>i. (fst i, i)) (rev items)) d = None \<longleftrightarrow> (\<forall>j \<in> set items. fst j \<noteq> d)"
  by (auto simp: map_of_eq_None_iff image_iff)

lemma show_delta_Some:
  assumes "inj_on fst (set items)"
  shows "show_delta items removed view d = Some i \<longleftrightarrow>
    d \<notin> set removed \<and> (i \<in> set items \<and> fst i = d \<or> (\<forall>j \<in> set items. fst j \<noteq> d) \<and> view d = Some i)"
proof (cases "map_of (map (\<lambda>i. (fst i, i)) (rev items)) d")
  case None
  then show ?thesis unfolding show_delta_def using shown_nothing [of items d] by auto
next
  case (Some j)
  with shown_item [OF assms, of d j] have j: "j \<in> set items" "fst j = d" by auto
  then have "i \<in> set items \<and> fst i = d \<longleftrightarrow> i = j" using inj_onD [OF assms, of i j] by auto
  moreover have "\<not> (\<forall>j \<in> set items. fst j \<noteq> d)" using j by blast
  ultimately show ?thesis unfolding show_delta_def Some by auto
qed

lemma show_delta_None:
  "show_delta items removed view d = None \<longleftrightarrow> d \<in> set removed \<or> (\<forall>j \<in> set items. fst j \<noteq> d) \<and> view d = None"
  unfolding show_delta_def using shown_nothing [of items d]
  by (cases "map_of (map (\<lambda>i. (fst i, i)) (rev items)) d") auto

lemma delta_shows_the_picture:
  fixes h0 h :: hub and rects :: "cell_rect list" and dumps :: dumps and t :: millis
  defines "v \<equiv> show_delta (concat (delta_groups rects h)) (left_view rects (fst (drain dumps t h))) (visible h0 rects)"
  assumes inv: "hub_inv dumps h" and rec: "recorded h0 rects h"
  shows "v d = Some i \<Longrightarrow> visible h rects d = Some i"
    and "visible h rects d = Some i \<Longrightarrow> v d = None \<Longrightarrow>
      \<exists>c to. covers rects c \<and> departed_at h c d = Some to \<and> to \<noteq> map_option snd (where_is h d)"
proof -
  let ?items = "concat (delta_groups rects h)" and ?gone = "left_view rects (fst (drain dumps t h))"
  have "inj_on fst (set ?items)"
  proof (rule inj_onI)
    fix i j assume ij: "i \<in> set ?items" "j \<in> set ?items" "fst i = fst j"
    from iffD1 [OF delta_item [OF inv] ij(1)] iffD1 [OF delta_item [OF inv] ij(2)] ij(3) show "i = j"
      by (metis fst_conv option.inject)
  qed
  note shown = show_delta_Some [OF this]
  show "visible h rects d = Some i" if vd: "v d = Some i"
  proof (cases "i \<in> set ?items \<and> fst i = d")
    case True
    then show ?thesis unfolding delta_item [OF inv] by (auto simp: visible_Some)
  next
    case False
    with vd have not_gone: "d \<notin> set ?gone" and new: "\<forall>j \<in> set ?items. fst j \<noteq> d"
      and v0: "visible h0 rects d = Some i"
      unfolding v_def shown by blast+
    have "visible h rects d \<noteq> None"
      using not_gone v0 recorded_gone [OF rec, of d] unfolding left_view_drain [OF inv] by auto
    then obtain j c where j: "where_is h d = Some (j, c)" "covers rects c" by (auto simp: visible_None)
    then have "fst j = d" using inv by (auto simp: hub_inv_def picture_ok_def)
    with new j have "d \<notin> set (changed_at h c)" using delta_item [OF inv] by blast
    with rec j(1) have "where_is h0 d = Some (j, c)" unfolding recorded_def by blast
    with v0 j show ?thesis by (auto simp: visible_Some)
  qed
  show "\<exists>c to. covers rects c \<and> departed_at h c d = Some to \<and> to \<noteq> map_option snd (where_is h d)"
    if vis: "visible h rects d = Some i" and vd: "v d = None"
  proof -
    from vis obtain c where c: "where_is h d = Some (i, c)" "covers rects c" by (auto simp: visible_Some)
    then have "fst i = d" using inv by (auto simp: hub_inv_def picture_ok_def)
    have "d \<in> set ?gone"
    proof (rule ccontr)
      assume "d \<notin> set ?gone"
      with vd have "visible h0 rects d = None" "i \<notin> set ?items"
        unfolding v_def show_delta_None using \<open>fst i = d\<close> by blast+
      with c \<open>fst i = d\<close> have "d \<notin> set (changed_at h c)" unfolding delta_item [OF inv] by auto
      with rec c have "where_is h0 d = Some (i, c)" unfolding recorded_def by blast
      with c(2) \<open>visible h0 rects d = None\<close> show False by (auto simp: visible_None)
    qed
    then obtain x to where "covers rects x" "departed_at h x d = Some to" "to = None \<or> \<not> covers rects (the to)"
      unfolding left_view_drain [OF inv] by blast
    with c show ?thesis by (intro exI [of _ x] exI [of _ to]) auto
  qed
qed

subsection \<open>Newest report, replay and sweep\<close>

definition shown_ms :: "hub \<Rightarrow> device_id \<Rightarrow> millis option" where
  "shown_ms h d = map_option (item_ms \<circ> fst) (where_is h d)"

lemma where_is_apply_item:
  "where_is (apply_item h item) d =
     (if d = fst item \<and> (case where_is h d of None \<Rightarrow> True | Some (old, was) \<Rightarrow> item_ms old < item_ms item)
      then Some (item, item_cell h item) else where_is h d)"
proof (cases "where_is h (fst item)")
  case None
  then show ?thesis by (simp add: apply_item_def Let_def flip: where_is_def)
next
  case (Some e)
  then show ?thesis by (cases e) (auto simp: apply_item_def Let_def simp flip: where_is_def)
qed

lemma apply_item_stale: "where_is h (fst item) = Some (old, was) \<Longrightarrow> item_ms item \<le> item_ms old \<Longrightarrow> apply_item h item = h"
  by (simp add: apply_item_def Let_def where_is_def)

interpretation hub_newest: newest_wins fst item_ms shown_ms apply_item
proof
  fix h :: hub and item :: position_item and d :: device_id and t :: int
  show "shown_ms (apply_item h item) (fst item) = newest_stamp (shown_ms h (fst item)) (item_ms item)"
    by (cases "where_is h (fst item)") (auto simp: shown_ms_def where_is_apply_item)
  show "d \<noteq> fst item \<Longrightarrow> shown_ms (apply_item h item) d = shown_ms h d"
    by (simp add: shown_ms_def where_is_apply_item)
  show "shown_ms h (fst item) = Some t \<Longrightarrow> item_ms item \<le> t \<Longrightarrow> apply_item h item = h"
    by (auto simp: shown_ms_def intro: apply_item_stale)
qed

lemma where_is_forget: "where_is (forget d h) e = (if e = d then None else where_is h e)"
proof (cases "where_is h d")
  case None
  then show ?thesis by (simp add: forget_def where_is_def)
next
  case (Some ie)
  obtain i c where "ie = (i, c)" by (cases ie)
  with Some have "forget d h = leave c d None (forgotten d h)" by (simp add: forget_def forgotten_def where_is_def)
  then show ?thesis by simp
qed

lemma where_is_forget_all: "where_is (fold forget ds h) e = (if e \<in> set ds then None else where_is h e)"
  by (induction ds arbitrary: h) (auto simp: where_is_forget)

lemma where_is_sweep:
  assumes "keys_ok h"
  shows "where_is (sweep now h) d =
     (case where_is h d of None \<Rightarrow> None
      | Some (i, c) \<Rightarrow> if item_ms i < now - hb_stale_after_ms h then None else Some (i, c))"
proof -
  let ?stale = "map fst (filter (\<lambda>(d, item, c). item_ms item < now - hb_stale_after_ms h) (hb_latest h))"
  have "(d, i, c) \<in> set (hb_latest h) \<longleftrightarrow> where_is h d = Some (i, c)" for i c
    using assms by (simp add: keys_ok_def where_is_def)
  then have "d \<in> set ?stale \<longleftrightarrow> (\<exists>i c. where_is h d = Some (i, c) \<and> item_ms i < now - hb_stale_after_ms h)"
    by (auto simp: image_iff split: prod.splits) blast
  then show ?thesis
    unfolding sweep_def Let_def where_is_forget_all by (cases "where_is h d") (auto split: prod.splits)
qed

subsection \<open>Properties\<close>

text \<open>(C19) Whatever sequence of batches, ticks, sweeps and snapshots a hub went through, a snapshot of a window
  is a list of non-empty encoded groups that together list every device visible in the window exactly
  once, with its latest position, although chunks are served from a cache.\<close>

theorem snapshot_lists_every_visible_device_once:
  "\<exists>groups. fst (snapshot_chunks dumps rects (hub_after dumps size_deg stale es)) = map (encode_chunk dumps) groups \<and>
     [] \<notin> set groups \<and> distinct (map fst (concat groups)) \<and>
     (\<forall>i. i \<in> set (concat groups) \<longleftrightarrow> visible (hub_after dumps size_deg stale es) rects (fst i) = Some i)"
proof -
  let ?h = "hub_after dumps size_deg stale es"
  note inv = hub_inv_after [of dumps size_deg stale es]
  obtain s where s: "snapshot_chunks dumps rects ?h = (map (encode_chunk dumps) (snapshot_groups rects ?h), ?h\<lparr>hb_snapshots := s\<rparr>)"
    by (rule snapshot_chunks_result [OF inv])
  show ?thesis
    by (intro exI [of _ "snapshot_groups rects ?h"] conjI allI snapshot_groups_ok [OF inv]) (simp add: s)
qed


text \<open>Batches of different shards interleave: the stamp the hub shows for a device is the newest among
  what it had and what came, whatever the order, and positions that are delivered again change nothing.\<close>

theorem hub_shows_the_newest_report:
  assumes "mset items = mset items'" "set again \<subseteq> set items"
  shows "shown_ms (hub_apply items h) d = shown_ms (hub_apply items' h) d \<and>
    shown_ms (hub_apply items h) d = foldl newest_stamp (shown_ms h d) (map item_ms (filter (\<lambda>i. fst i = d) items)) \<and>
    hub_apply again (hub_apply items h) = hub_apply items h"
proof -
  have "mset (map item_ms (filter (\<lambda>i. fst i = d) items)) = mset (map item_ms (filter (\<lambda>i. fst i = d) items'))"
    using assms(1) by simp
  from foldl_newest_perm [OF this] hub_newest.replay [OF assms(2)] show ?thesis
    by (simp add: hub_apply_def hub_newest.look_foldl)
qed

text \<open>A sweep forgets the devices whose last report is older than the stale limit, and no other.\<close>

theorem sweep_forgets_exactly_the_stale:
  fixes dumps :: dumps and size_deg :: rat and stale :: int and es :: "hub_event list"
  defines "h \<equiv> hub_after dumps size_deg stale es"
  shows "where_is (sweep now h) d =
     (case where_is h d of None \<Rightarrow> None
      | Some (i, c) \<Rightarrow> if item_ms i < now - hb_stale_after_ms h then None else Some (i, c))"
  by (rule where_is_sweep) (use hub_inv_after [of dumps size_deg stale es] in \<open>simp add: h_def hub_inv_def\<close>)

definition three_reports :: "hub_event list" where
  "three_reports =
     [Apply [(''dev'', 0, 0, 1000)], Drain 1000,
      Apply [(''dev'', 0, 50, 2000)], Apply [(''dev'', 0, 1, 3000)]]"

definition two_cells :: "cell_rect list" where
  "two_cells = [\<lparr>min_x = 0, min_y = 0, max_x = 1, max_y = 0\<rparr>]"

lemma sample_cells: "cell_of 0 0 1 = (0, 0)" "cell_of 0 50 1 = (50, 0)" "cell_of 0 1 1 = (1, 0)"
  by code_simp+

lemmas hub_evaluation = hub_after_def three_reports_def hub_init_def hub_apply_def apply_item_def item_cell_def item_ms_def
  enter_cell_def touch_def leave_def getl_def add_to_def drain_def clear_pending_def Let_def sample_cells

lemma hub_after_three: "hub_after plain_dumps 1 60 three_reports =
    \<lparr>hb_cell_size_deg = 1, hb_stale_after_ms = 60000, hb_latest = [(''dev'', (''dev'', 0, 1, 3000), 1, 0)],
     hb_cells = [((1, 0), [''dev''])], hb_changed = [((50, 0), []), ((1, 0), [''dev''])],
     hb_departed = [((0, 0), [(''dev'', Some (50, 0))]), ((50, 0), [(''dev'', Some (1, 0))])], hb_snapshots = [], hb_updates = 3\<rparr>"
  by (simp add: hub_evaluation)

lemma hub_after_one: "hub_after plain_dumps 1 60 [Apply [(''dev'', 0, 0, 1000)], Drain 1000] =
    \<lparr>hb_cell_size_deg = 1, hb_stale_after_ms = 60000, hb_latest = [(''dev'', (''dev'', 0, 0, 1000), 0, 0)],
     hb_cells = [((0, 0), [''dev''])], hb_changed = [], hb_departed = [], hb_snapshots = [], hb_updates = 1\<rparr>"
  by (simp add: hub_evaluation)

lemma hub_after_two: "hub_after plain_dumps 1 60 [Apply [(''dev'', 0, 0, 1000)], Drain 1000, Apply [(''dev'', 0, 50, 2000)]] =
    \<lparr>hb_cell_size_deg = 1, hb_stale_after_ms = 60000, hb_latest = [(''dev'', (''dev'', 0, 50, 2000), 50, 0)],
     hb_cells = [((50, 0), [''dev''])], hb_changed = [((50, 0), [''dev''])], hb_departed = [((0, 0), [(''dev'', Some (50, 0))])],
     hb_snapshots = [], hb_updates = 2\<rparr>"
  by (simp add: hub_evaluation)

theorem hub_shows_the_newest_report_witness:
  "shown_ms (hub_apply [(''a'', 1, 1, 5), (''a'', 2, 2, 7)] (hub_init 1 60)) ''a'' = Some 7"
proof -
  have "mset [(''a'', 1, 1, 5), (''a'', 2, 2, 7)] = mset [(''a'', 2, 2, 7), (''a'', 1, 1, 5 :: millis) :: position_item]"
    "set [(''a'', 1, 1, 5)] \<subseteq> set [(''a'', 1, 1, 5), (''a'', 2, 2, 7 :: millis) :: position_item]" by simp_all
  from hub_shows_the_newest_report [OF this, of "hub_init 1 60" "''a''", THEN conjunct2, THEN conjunct1]
  show ?thesis by (simp add: shown_ms_def where_is_def hub_init_def item_ms_def)
qed



end
