(* ===== verification/Connection.thy ===== *)
theory Connection
  imports Hub Settings "HOL-Library.Sublist"
begin

text \<open>
  \<^verbatim>\<open>src/geotrack/realtime/connection.py\<close>: one dashboard client. Producers leave work behind
  (\<open>set_viewport\<close>, \<open>offer_positions\<close>, \<open>send_control\<close>, \<open>request_close\<close>) and wake the one task that
  writes; that task is a state machine here (\<open>sender_run\<close>, \<open>write_result\<close>), so that every
  interleaving of producers with the awaits of \<^verbatim>\<open>sender\<close> is a sequence of events. What the
  socket does with a frame is the argument of the event. \<open>utf8\<close> says whether bytes decode.
\<close>

subsection \<open>The type of a frame\<close>

definition FRAME_TYPE_PREFIX :: bytes where
  "FRAME_TYPE_PREFIX = ''{'' @ quoted ''type'' @ '':'' @ [CHR 0x22]"

definition FRAME_TYPES :: "string list" where
  "FRAME_TYPES = [''hello'', ''positions'', ''alert'', ''zone'', ''sessions'', ''stats'', ''pong'', ''error'', ''ack'', ''throttle'']"

text \<open>
  \<^verbatim>\<open>kind in _FRAME_TYPES\<close> hashes the value: a list or an object raises \<^verbatim>\<open>TypeError\<close>, the value \<open>None\<close> here.
\<close>

definition parsed_frame_type :: "loads \<Rightarrow> bytes \<Rightarrow> string option" where
  "parsed_frame_type loads frame =
     (case loads frame of
        Inr (JObj payload) \<Rightarrow>
          (case map_of payload ''type'' of
             Some (JStr kind) \<Rightarrow> Some (if kind \<in> set FRAME_TYPES then kind else ''unknown'')
           | Some (JList xs) \<Rightarrow> None
           | Some (JObj kvs) \<Rightarrow> None
           | _ \<Rightarrow> Some ''unknown'')
      | _ \<Rightarrow> Some ''unknown'')"

text \<open>\<^verbatim>\<open>frame.find\<close> of a quote past the prefix: the bytes before it are \<open>takeWhile\<close>, and it is found when one follows.\<close>

definition frame_type :: "loads \<Rightarrow> bytes \<Rightarrow> string option" where
  "frame_type loads frame =
     (let rest = drop (length FRAME_TYPE_PREFIX) frame;
          kind = takeWhile (\<lambda>b. b \<noteq> CHR 0x22) rest
      in if prefix FRAME_TYPE_PREFIX frame \<and> CHR 0x22 \<in> set rest \<and> kind \<in> set FRAME_TYPES then Some kind
         else parsed_frame_type loads frame)"

subsection \<open>State and producers\<close>

datatype phase = Waiting | Draining | Writing bytes | Finished

record connection =
  cn_user_id :: uuid
  cn_session :: session_info
  cn_close_code :: int
  cn_close_reason :: string
  cn_cell_size_deg :: rat
  cn_control_max :: int
  cn_control :: "bytes list"
  cn_wake :: bool
  cn_viewport :: "cell_rect list option"
  cn_viewport_cells :: int
  cn_pending_delta :: "bytes option"
  cn_needs_snapshot :: bool
  cn_closing :: bool
  cn_writable :: bool
  cn_phase :: phase
  cn_sent :: "bytes list"

definition new_connection :: "uuid \<Rightarrow> session_info \<Rightarrow> settings \<Rightarrow> connection" where
  "new_connection user_id session s =
     \<lparr>cn_user_id = user_id, cn_session = session, cn_close_code = 1000, cn_close_reason = [],
      cn_cell_size_deg = ws_grid_cell_deg s, cn_control_max = ws_control_queue_max s, cn_control = [], cn_wake = False,
      cn_viewport = None, cn_viewport_cells = 0, cn_pending_delta = None, cn_needs_snapshot = False,
      cn_closing = False, cn_writable = True, cn_phase = Waiting, cn_sent = []\<rparr>"

definition wants_positions :: "connection \<Rightarrow> bool" where
  "wants_positions c \<longleftrightarrow> cn_viewport c \<noteq> None \<and> \<not> cn_closing c"

definition rect_size :: "cell_rect \<Rightarrow> int" where
  "rect_size r = (max_x r - min_x r + 1) * (max_y r - min_y r + 1)"

definition set_viewport :: "bbox \<Rightarrow> connection \<Rightarrow> connection" where
  "set_viewport b c =
     (let viewport = rects_for b (cn_cell_size_deg c)
      in c\<lparr>cn_viewport := Some viewport, cn_viewport_cells := sum_list (map rect_size viewport),
           cn_pending_delta := None, cn_needs_snapshot := True, cn_wake := True\<rparr>)"

definition visible_chunks :: "connection \<Rightarrow> tick_delta \<Rightarrow> cell_rect list \<Rightarrow> bytes list" where
  "visible_chunks c delta viewport =
     (if cn_viewport_cells c \<le> int (length (td_chunks delta)) then
        concat (map (\<lambda>r. concat (map (\<lambda>x. concat (map (\<lambda>y.
          (case map_of (td_chunks delta) (x, y) of None \<Rightarrow> [] | Some chunk \<Rightarrow> [chunk]))
          [min_y r..max_y r])) [min_x r..max_x r])) viewport)
      else map snd (filter (\<lambda>(cell, chunk). covers viewport cell) (td_chunks delta)))"

definition offer_positions :: "dumps \<Rightarrow> tick_delta \<Rightarrow> connection \<Rightarrow> connection" where
  "offer_positions dumps delta c =
     (case cn_viewport c of
        None \<Rightarrow> c
      | Some viewport \<Rightarrow>
          if cn_closing c \<or> cn_needs_snapshot c then c
          else
            let chunks = visible_chunks c delta viewport; removed = left_view viewport delta in
            if chunks = [] \<and> removed = [] then c
            else (case cn_pending_delta c of
                    None \<Rightarrow> c\<lparr>cn_pending_delta := Some (positions_frame dumps False (td_t_ms delta) chunks removed), cn_wake := True\<rparr>
                  | Some old \<Rightarrow> c\<lparr>cn_pending_delta := None, cn_needs_snapshot := True, cn_wake := True\<rparr>))"

definition request_close :: "int \<Rightarrow> string \<Rightarrow> connection \<Rightarrow> connection" where
  "request_close code reason c =
     (if cn_closing c then c
      else c\<lparr>cn_closing := True, cn_close_code := code, cn_close_reason := reason, cn_control := [],
             cn_pending_delta := None, cn_needs_snapshot := False, cn_wake := True\<rparr>)"

definition send_control :: "bytes \<Rightarrow> connection \<Rightarrow> connection" where
  "send_control frame c =
     (if cn_closing c then c
      else if cn_control_max c \<le> int (length (cn_control c)) then
        request_close CLOSE_SLOW_CONSUMER ''client is not keeping up'' c
      else c\<lparr>cn_control := cn_control c @ [frame], cn_wake := True\<rparr>)"

subsection \<open>The sender\<close>

definition next_frame :: "dumps \<Rightarrow> millis \<Rightarrow> hub \<Rightarrow> connection \<Rightarrow> bytes option \<times> connection \<times> hub" where
  "next_frame dumps now h c =
     (case cn_control c of
        frame # rest \<Rightarrow> (Some frame, c\<lparr>cn_control := rest\<rparr>, h)
      | [] \<Rightarrow>
          (case (cn_needs_snapshot c, cn_viewport c) of
             (True, Some viewport) \<Rightarrow>
               (case snapshot_chunks dumps viewport h of (chunks, h') \<Rightarrow>
                  (Some (positions_frame dumps True now chunks []), c\<lparr>cn_needs_snapshot := False\<rparr>, h'))
           | _ \<Rightarrow>
               (case cn_pending_delta c of
                  Some frame \<Rightarrow> (Some frame, c\<lparr>cn_pending_delta := None\<rparr>, h)
                | None \<Rightarrow> (None, c, h))))"

text \<open>
  The part of \<^verbatim>\<open>_write\<close> before the await: a dead socket ends the sender, so does an exception of
  \<^verbatim>\<open>frame_type\<close>, which nothing catches; a frame that is not text is dropped.
\<close>

definition begin_write :: "loads \<Rightarrow> (bytes \<Rightarrow> bool) \<Rightarrow> bytes \<Rightarrow> connection \<Rightarrow> connection" where
  "begin_write loads utf8 frame c =
     (if \<not> cn_writable c then c\<lparr>cn_phase := Finished\<rparr>
      else (case frame_type loads frame of
              None \<Rightarrow> c\<lparr>cn_phase := Finished\<rparr>
            | Some kind \<Rightarrow>
                if kind \<noteq> ''positions'' \<and> \<not> utf8 frame then c\<lparr>cn_phase := Draining\<rparr>
                else c\<lparr>cn_phase := Writing frame\<rparr>))"

datatype outcome = Sent | TimedOut | PeerGone

definition write_result :: "outcome \<Rightarrow> connection \<Rightarrow> connection" where
  "write_result out c =
     (case cn_phase c of
        Writing frame \<Rightarrow>
          (case out of
             Sent \<Rightarrow> c\<lparr>cn_sent := cn_sent c @ [frame], cn_phase := Draining\<rparr>
           | TimedOut \<Rightarrow>
               (request_close CLOSE_SLOW_CONSUMER ''write timed out'' (c\<lparr>cn_writable := False\<rparr>))\<lparr>cn_phase := Finished\<rparr>
           | PeerGone \<Rightarrow>
               (request_close 1000 ''peer disconnected'' (c\<lparr>cn_writable := False\<rparr>))\<lparr>cn_phase := Finished\<rparr>)
      | _ \<Rightarrow> c)"

text \<open>The sender runs from one await to the next.\<close>

definition sender_run :: "dumps \<Rightarrow> loads \<Rightarrow> (bytes \<Rightarrow> bool) \<Rightarrow> millis \<Rightarrow> hub \<Rightarrow> connection \<Rightarrow> connection \<times> hub" where
  "sender_run dumps loads utf8 now h c =
     (case cn_phase c of
        Waiting \<Rightarrow>
          if cn_wake c then (c\<lparr>cn_wake := False, cn_phase := if cn_closing c then Finished else Draining\<rparr>, h)
          else (c, h)
      | Draining \<Rightarrow>
          if cn_closing c then (c\<lparr>cn_phase := Finished\<rparr>, h)
          else (case next_frame dumps now h c of
                  (None, c', h') \<Rightarrow> (c'\<lparr>cn_phase := Waiting\<rparr>, h')
                | (Some frame, c', h') \<Rightarrow> (begin_write loads utf8 frame c', h'))
      | _ \<Rightarrow> (c, h))"

definition aclose :: "connection \<Rightarrow> (int \<times> string) option \<times> connection" where
  "aclose c =
     (if cn_writable c
      then (Some (cn_close_code c, cn_close_reason c), c\<lparr>cn_closing := True, cn_writable := False\<rparr>)
      else (None, c\<lparr>cn_closing := True\<rparr>))"

datatype conn_event =
    SetViewport bbox
  | OfferPositions tick_delta
  | SendControl bytes
  | RequestClose int string
  | SenderRun millis hub
  | WriteResult outcome
  | AClose

fun conn_step :: "dumps \<Rightarrow> loads \<Rightarrow> (bytes \<Rightarrow> bool) \<Rightarrow> conn_event \<Rightarrow> connection \<Rightarrow> connection" where
  "conn_step dumps loads utf8 (SetViewport b) c = set_viewport b c"
| "conn_step dumps loads utf8 (OfferPositions delta) c = offer_positions dumps delta c"
| "conn_step dumps loads utf8 (SendControl frame) c = send_control frame c"
| "conn_step dumps loads utf8 (RequestClose code reason) c = request_close code reason c"
| "conn_step dumps loads utf8 (SenderRun now h) c = fst (sender_run dumps loads utf8 now h c)"
| "conn_step dumps loads utf8 (WriteResult out) c = write_result out c"
| "conn_step dumps loads utf8 AClose c = snd (aclose c)"

subsection \<open>Bounded memory and no lost wake-up\<close>

definition outstanding :: "connection \<Rightarrow> bool" where
  "outstanding c \<longleftrightarrow> cn_control c \<noteq> [] \<or> cn_needs_snapshot c \<or> cn_pending_delta c \<noteq> None"

definition conn_inv :: "connection \<Rightarrow> bool" where
  "conn_inv c \<longleftrightarrow>
     int (length (cn_control c)) \<le> cn_control_max c \<and>
     (cn_needs_snapshot c \<longrightarrow> cn_pending_delta c = None) \<and>
     (cn_needs_snapshot c \<or> cn_pending_delta c \<noteq> None \<longrightarrow> cn_viewport c \<noteq> None) \<and>
     (cn_phase c = Waiting \<and> \<not> cn_closing c \<and> outstanding c \<longrightarrow> cn_wake c) \<and>
     (\<not> cn_writable c \<longrightarrow> cn_closing c) \<and>
     (\<forall>vp. cn_viewport c = Some vp \<longrightarrow> cn_viewport_cells c = sum_list (map rect_size vp))"

lemmas conn_defs = conn_inv_def outstanding_def

lemma conn_inv_new: "valid_settings s \<Longrightarrow> conn_inv (new_connection u si s)"
  by (auto simp: conn_defs new_connection_def valid_settings_checks field_checks_def)

lemma conn_inv_set_viewport: "conn_inv c \<Longrightarrow> conn_inv (set_viewport b c)"
  by (simp add: conn_defs set_viewport_def Let_def)

lemma conn_inv_offer: "conn_inv c \<Longrightarrow> conn_inv (offer_positions dumps delta c)"
  by (auto simp: conn_defs offer_positions_def Let_def split: option.splits)

lemma conn_inv_request_close: "conn_inv c \<Longrightarrow> conn_inv (request_close code reason c)"
  by (auto simp: conn_defs request_close_def)

lemma conn_inv_send_control: "conn_inv c \<Longrightarrow> conn_inv (send_control frame c)"
  using conn_inv_request_close [of c] by (auto simp: send_control_def) (auto simp: conn_defs)

lemma next_frame_cases:
  assumes "next_frame dumps now h c = (f, c', h')"
  obtains (control) x xs where "cn_control c = x # xs" "f = Some x" "c' = c\<lparr>cn_control := xs\<rparr>"
  | (snapshot) vp where "cn_control c = []" "cn_needs_snapshot c" "cn_viewport c = Some vp"
      "f = Some (positions_frame dumps True now (fst (snapshot_chunks dumps vp h)) [])" "c' = c\<lparr>cn_needs_snapshot := False\<rparr>"
  | (delta) d where "cn_control c = []" "\<not> cn_needs_snapshot c \<or> cn_viewport c = None" "cn_pending_delta c = Some d"
      "f = Some d" "c' = c\<lparr>cn_pending_delta := None\<rparr>"
  | (empty) "cn_control c = []" "\<not> cn_needs_snapshot c \<or> cn_viewport c = None" "cn_pending_delta c = None" "f = None" "c' = c"
  using assms unfolding next_frame_def
  by (auto split: list.splits bool.splits option.splits prod.splits)

lemma next_frame_None:
  "next_frame dumps now h c = (None, c', h') \<Longrightarrow> conn_inv c \<Longrightarrow> c' = c \<and> \<not> outstanding c"
  by (erule next_frame_cases) (auto simp: conn_defs)

lemma conn_inv_next_frame:
  "next_frame dumps now h c = (Some f, c', h') \<Longrightarrow> conn_inv c \<Longrightarrow> cn_phase c = Draining \<Longrightarrow> conn_inv c' \<and> cn_phase c' = Draining"
  by (erule next_frame_cases) (auto simp: conn_defs)

lemma conn_inv_begin_write: "conn_inv c \<Longrightarrow> conn_inv (begin_write loads utf8 f c)"
  by (auto simp: conn_defs begin_write_def split: option.splits)

lemma conn_inv_sender_run:
  assumes inv: "conn_inv c"
  shows "conn_inv (fst (sender_run dumps loads utf8 now h c))"
proof (cases "cn_phase c")
  case Draining
  obtain f c' h' where n: "next_frame dumps now h c = (f, c', h')" by (metis prod_cases3)
  show ?thesis
  proof (cases f)
    case None
    with n next_frame_None [of dumps now h c c' h'] inv have "c' = c" "\<not> outstanding c" by auto
    with n None Draining inv show ?thesis by (auto simp: sender_run_def conn_defs)
  next
    case (Some g)
    with n conn_inv_next_frame [of dumps now h c g c' h'] inv Draining have "conn_inv c'" by auto
    with n Some Draining inv conn_inv_begin_write [of c'] show ?thesis
      by (auto simp: sender_run_def) (auto simp: conn_defs)
  qed
qed (use inv in \<open>auto simp: sender_run_def conn_defs\<close>)

lemma conn_inv_write_result: "conn_inv c \<Longrightarrow> conn_inv (write_result out c)"
  by (auto simp: conn_defs write_result_def request_close_def split: phase.splits outcome.splits)

lemma conn_inv_step: "conn_inv c \<Longrightarrow> conn_inv (conn_step dumps loads utf8 e c)"
  by (cases e)
    (auto intro: conn_inv_set_viewport conn_inv_offer conn_inv_send_control conn_inv_request_close
      conn_inv_sender_run conn_inv_write_result, auto simp: aclose_def conn_defs)

interpretation conn: step_system "conn_step dumps loads utf8" conn_inv for dumps loads utf8
  by unfold_locales (rule conn_inv_step)

subsection \<open>Both sides of the join\<close>

lemma rect_contains_upto:
  "rect_contains r (x, y) \<longleftrightarrow> x \<in> set [min_x r..max_x r] \<and> y \<in> set [min_y r..max_y r]"
  by (simp add: rect_contains_def)

lemma set_visible_chunks:
  assumes "distinct (keys (td_chunks delta))"
  shows "set (visible_chunks c delta vp) = {chunk. \<exists>cell. map_of (td_chunks delta) cell = Some chunk \<and> covers vp cell}"
proof (cases "cn_viewport_cells c \<le> int (length (td_chunks delta))")
  case True
  show ?thesis
    unfolding visible_chunks_def if_P [OF True] covers_def
    by (force simp: rect_contains_def split: option.splits)
next
  case False
  then show ?thesis
    unfolding visible_chunks_def if_not_P [OF False] using assms by (force simp: covers_def)
qed

lemma drained_chunks:
  "td_chunks (fst (drain dumps t h)) =
     map (\<lambda>cd. (fst cd, encode_chunk dumps (items_of h (snd cd)))) (filter (\<lambda>cd. snd cd \<noteq> []) (hb_changed h))"
  by (simp add: drain_def case_prod_unfold)

lemma drained_keys: "keys_ok h \<Longrightarrow> distinct (keys (td_chunks (fst (drain dumps t h))))"
  by (simp add: drained_chunks keys_ok_def comp_def distinct_map_filter)

lemma drained_visible_chunks:
  assumes "keys_ok h"
  shows "set (visible_chunks c (fst (drain dumps t h)) vp) = set (map (encode_chunk dumps) (delta_groups vp h))"
  unfolding set_visible_chunks [OF drained_keys [OF assms]] map_of_eq_Some_iff [OF drained_keys [OF assms]]
  by (force simp: drained_chunks delta_groups_def)

subsection \<open>Flushing\<close>

definition sendable :: "loads \<Rightarrow> (bytes \<Rightarrow> bool) \<Rightarrow> bytes \<Rightarrow> bool" where
  "sendable loads utf8 f \<longleftrightarrow> (\<exists>kind. frame_type loads f = Some kind \<and> (kind = ''positions'' \<or> utf8 f))"

definition position_frame_due :: "dumps \<Rightarrow> millis \<Rightarrow> hub \<Rightarrow> connection \<Rightarrow> bytes list" where
  "position_frame_due dumps now h c =
     (case (cn_needs_snapshot c, cn_viewport c) of
        (True, Some vp) \<Rightarrow> [positions_frame dumps True now (fst (snapshot_chunks dumps vp h)) []]
      | _ \<Rightarrow> (case cn_pending_delta c of Some d \<Rightarrow> [d] | None \<Rightarrow> []))"

definition flush_round :: "dumps \<Rightarrow> loads \<Rightarrow> (bytes \<Rightarrow> bool) \<Rightarrow> millis \<Rightarrow> hub \<Rightarrow> connection \<Rightarrow> connection" where
  "flush_round dumps loads utf8 now h c = fold (conn_step dumps loads utf8) [SenderRun now h, WriteResult Sent] c"

lemma positions_frame_type: "frame_type loads (positions_frame dumps full t chunks removed) = Some ''positions''"
  by (simp add: frame_type_def positions_frame_def FRAME_TYPE_PREFIX_def FRAME_TYPES_def quoted_def Let_def)

lemma flush_frame:
  assumes "cn_phase c = Draining" "\<not> cn_closing c" "cn_writable c" "cn_writable c'" "cn_phase c' = Draining"
    and "next_frame dumps now h c = (Some f, c', h')" "sendable loads utf8 f"
  shows "flush_round dumps loads utf8 now h c = c'\<lparr>cn_sent := cn_sent c' @ [f]\<rparr>"
  using assms by (auto simp: flush_round_def sender_run_def sendable_def begin_write_def write_result_def)

lemma flush_position_frame:
  assumes "conn_inv c" "cn_phase c = Draining" "\<not> cn_closing c" "cn_writable c" "cn_control c = []"
    and "\<forall>f \<in> set (position_frame_due dumps now h c). sendable loads utf8 f"
  shows "\<exists>n. (flush_round dumps loads utf8 now h ^^ n) c =
    c\<lparr>cn_needs_snapshot := False, cn_pending_delta := None, cn_phase := Waiting,
      cn_sent := cn_sent c @ position_frame_due dumps now h c\<rparr>"
proof -
  obtain f c' h' where n: "next_frame dumps now h c = (f, c', h')" by (metis prod_cases3)
  have idle: "flush_round dumps loads utf8 now h c = c\<lparr>cn_phase := Waiting\<rparr>"
    if "cn_phase c = Draining" "\<not> cn_closing c" "cn_control c = []" "\<not> cn_needs_snapshot c" "cn_pending_delta c = None" for c
    using that by (simp add: flush_round_def sender_run_def next_frame_def write_result_def)
  from n show ?thesis
  proof (cases rule: next_frame_cases)
    case (control x xs)
    with assms(5) show ?thesis by simp
  next
    case (snapshot vp)
    then have due: "position_frame_due dumps now h c = [the f]" by (simp add: position_frame_due_def)
    have pend: "cn_pending_delta c = None" using assms(1) snapshot by (simp add: conn_inv_def)
    have "flush_round dumps loads utf8 now h c = c'\<lparr>cn_sent := cn_sent c @ [the f]\<rparr>"
      using flush_frame [of c c' dumps now h "the f" h' loads utf8] n snapshot assms due by simp
    then have "(flush_round dumps loads utf8 now h ^^ Suc (Suc 0)) c =
        c\<lparr>cn_needs_snapshot := False, cn_phase := Waiting, cn_sent := cn_sent c @ [the f]\<rparr>"
      using idle [of "c'\<lparr>cn_sent := cn_sent c @ [the f]\<rparr>"] snapshot assms pend by simp
    with due pend show ?thesis by (intro exI [of _ "Suc (Suc 0)"]) (cases c, simp)
  next
    case (delta d)
    have needs: "\<not> cn_needs_snapshot c" using assms(1) delta by (auto simp: conn_inv_def)
    then have due: "position_frame_due dumps now h c = [d]" using delta by (simp add: position_frame_due_def)
    have "flush_round dumps loads utf8 now h c = c'\<lparr>cn_sent := cn_sent c @ [d]\<rparr>"
      using flush_frame [of c c' dumps now h d h' loads utf8] n delta assms due by simp
    then have "(flush_round dumps loads utf8 now h ^^ Suc (Suc 0)) c =
        c\<lparr>cn_pending_delta := None, cn_phase := Waiting, cn_sent := cn_sent c @ [d]\<rparr>"
      using idle [of "c'\<lparr>cn_sent := cn_sent c @ [d]\<rparr>"] delta assms needs by simp
    with due needs show ?thesis by (intro exI [of _ "Suc (Suc 0)"]) (cases c, simp)
  next
    case empty
    then have needs: "\<not> cn_needs_snapshot c" using assms(1) unfolding conn_inv_def by blast
    with empty have "position_frame_due dumps now h c = []" by (auto simp: position_frame_due_def split: bool.splits option.splits)
    with empty needs idle [of c] assms show ?thesis by (intro exI [of _ "Suc 0"]) (cases c, simp)
  qed
qed

lemma flush_all:
  assumes "conn_inv c" "cn_phase c = Draining" "\<not> cn_closing c" "cn_writable c"
    and "\<forall>f \<in> set (cn_control c @ position_frame_due dumps now h c). sendable loads utf8 f"
  shows "\<exists>n. (flush_round dumps loads utf8 now h ^^ n) c =
    c\<lparr>cn_control := [], cn_needs_snapshot := False, cn_pending_delta := None, cn_phase := Waiting,
      cn_sent := cn_sent c @ cn_control c @ position_frame_due dumps now h c\<rparr>"
  using assms
proof (induction "cn_control c" arbitrary: c)
  case Nil
  then have "cn_control c = []" by simp
  with Nil flush_position_frame [of c dumps now h loads utf8] obtain n where
    "(flush_round dumps loads utf8 now h ^^ n) c =
      c\<lparr>cn_needs_snapshot := False, cn_pending_delta := None, cn_phase := Waiting,
        cn_sent := cn_sent c @ position_frame_due dumps now h c\<rparr>" by auto
  with \<open>cn_control c = []\<close> show ?case by (intro exI [of _ n]) (cases c, simp)
next
  case (Cons x xs)
  then have ctl: "cn_control c = x # xs" by simp
  let ?c = "c\<lparr>cn_control := xs, cn_sent := cn_sent c @ [x]\<rparr>"
  have due: "position_frame_due dumps now h ?c = position_frame_due dumps now h c"
    by (auto simp: position_frame_due_def split: bool.splits option.splits)
  have step: "flush_round dumps loads utf8 now h c = ?c"
    using flush_frame [of c "c\<lparr>cn_control := xs\<rparr>" dumps now h x h loads utf8] Cons.prems ctl
    by (simp add: next_frame_def)
  have "conn_inv ?c" using Cons.prems(1) ctl by (auto simp: conn_defs)
  with Cons.hyps(1) [of ?c] Cons.prems ctl due obtain n where
    "(flush_round dumps loads utf8 now h ^^ n) ?c =
      ?c\<lparr>cn_control := [], cn_needs_snapshot := False, cn_pending_delta := None, cn_phase := Waiting,
        cn_sent := cn_sent ?c @ cn_control ?c @ position_frame_due dumps now h c\<rparr>"
    by auto
  with step ctl show ?case by (intro exI [of _ "Suc n"]) (simp add: funpow_swap1)
qed

subsection \<open>Properties\<close>

text \<open>(C20) A slow client costs bounded memory and no wake-up is lost: after any interleaving of producers, writes
  and closes, at most \<^verbatim>\<open>ws_control_queue_max\<close> control frames and one position frame wait for a
  connection, and a sender that sleeps with something to send has its wake event set.\<close>

theorem client_memory_is_bounded:
  fixes c0 :: connection and es :: "conn_event list" and dumps :: dumps and loads :: loads and utf8 :: "bytes \<Rightarrow> bool"
  assumes "valid_settings s" "c0 = new_connection u si s"
  defines "c \<equiv> fold (conn_step dumps loads utf8) es c0"
  shows "int (length (cn_control c)) \<le> cn_control_max c \<and>
    \<not> (cn_needs_snapshot c \<and> cn_pending_delta c \<noteq> None) \<and>
    (cn_phase c = Waiting \<longrightarrow> \<not> cn_closing c \<longrightarrow> outstanding c \<longrightarrow> cn_wake c)"
proof -
  have "conn_inv c" unfolding c_def assms(2) by (intro conn.run_keeps conn_inv_new assms(1))
  then show ?thesis by (auto simp: conn_inv_def)
qed

definition sample_connection :: connection where
  "sample_connection = new_connection 7 \<lparr>si_id = 1, si_label = [], si_connected_at = 0\<rparr> default_settings"

definition no_json :: loads where
  "no_json b = Inl ''not json''"

lemma sample_sends [simp]:
  "send_control f sample_connection = sample_connection\<lparr>cn_control := [f], cn_wake := True\<rparr>"
  "cn_phase sample_connection = Waiting" "\<not> cn_closing sample_connection" "cn_writable sample_connection"
  "\<not> cn_needs_snapshot sample_connection" "cn_pending_delta sample_connection = None" "cn_control sample_connection = []" "cn_sent sample_connection = []"
  by (simp_all add: sample_connection_def send_control_def new_connection_def default_settings_def)

theorem client_memory_is_bounded_witness:
  "cn_wake (fold (conn_step plain_dumps no_json (\<lambda>b. True)) [SendControl ''x''] sample_connection)"
proof -
  let ?c = "fold (conn_step plain_dumps no_json (\<lambda>b. True)) [SendControl ''x''] sample_connection"
  have "cn_phase ?c = Waiting" "\<not> cn_closing ?c" "outstanding ?c" by (simp_all add: outstanding_def)
  with client_memory_is_bounded [OF default_settings_valid sample_connection_def, of plain_dumps no_json "\<lambda>b. True" "[SendControl ''x'']"]
  show ?thesis by blast
qed



text \<open>Whichever side of the join a tick walks, the frame it leaves for a client carries the chunks of
  exactly the changed cells in the window, and the devices that left it.\<close>

theorem offered_frame_matches_the_window:
  fixes dumps :: dumps and size_deg :: rat and stale t :: int and es :: "hub_event list"
  defines "h \<equiv> hub_after dumps size_deg stale es"
  defines "delta \<equiv> fst (drain dumps t h)"
  assumes "cn_viewport c = Some vp" "\<not> cn_closing c" "\<not> cn_needs_snapshot c" "cn_pending_delta c = None"
  shows "if delta_groups vp h = [] \<and> left_view vp delta = [] then offer_positions dumps delta c = c
    else \<exists>chunks. set chunks = set (map (encode_chunk dumps) (delta_groups vp h)) \<and>
      cn_pending_delta (offer_positions dumps delta c) = Some (positions_frame dumps False t chunks (left_view vp delta))"
proof -
  have "keys_ok h" using hub_inv_after [of dumps size_deg stale es] by (simp add: h_def hub_inv_def)
  from drained_visible_chunks [OF this, of c dumps t vp]
  have chunks: "set (visible_chunks c delta vp) = set (map (encode_chunk dumps) (delta_groups vp h))"
    by (simp add: delta_def)
  then have "visible_chunks c delta vp = [] \<longleftrightarrow> delta_groups vp h = []" by (metis map_is_Nil_conv set_empty)
  moreover have "td_t_ms delta = t" by (simp add: delta_def drain_def)
  ultimately show ?thesis using assms(3-6) chunks by (auto simp: offer_positions_def Let_def)
qed



theorem offered_frame_matches_the_window_witness:
  "offer_positions plain_dumps (fst (drain plain_dumps 0 (hub_after plain_dumps 1 60 []))) (sample_connection\<lparr>cn_viewport := Some []\<rparr>)
     = sample_connection\<lparr>cn_viewport := Some []\<rparr>"
  using offered_frame_matches_the_window [of "sample_connection\<lparr>cn_viewport := Some []\<rparr>" "[]" plain_dumps 1 60 "[]" 0]
  by (simp add: delta_groups_def left_view_entries hub_after_def hub_init_def)

end
