(* ===== verification/Registry.thy ===== *)
theory Registry
  imports Prelude
begin

text \<open>
  \<^verbatim>\<open>src/geotrack/realtime/registry.py\<close>: which connections a replica holds for whom. A
  connection is its number. \<open>add\<close> and \<open>remove\<close> change the membership in one go, under the
  admission lock, and leave a caller behind in \<^verbatim>\<open>_sync_user\<close>; the callers of a user take turns under
  the user's lock, and the hook that one of them awaits is the field \<open>sy_hook\<close>. An await is where
  one event ends, so every interleaving of the coroutines is a sequence of events.
\<close>

datatype hook = OnFirst | OnLast

record sync =
  sy_callers :: nat
  sy_hook :: "hook option"

record registry =
  rg_by_user :: "(uuid \<times> int list) list"
  rg_subscribed :: "uuid list"
  rg_syncs :: "(uuid \<times> sync) list"

definition empty_registry :: registry where
  "empty_registry = \<lparr>rg_by_user = [], rg_subscribed = [], rg_syncs = []\<rparr>"

definition for_user :: "registry \<Rightarrow> uuid \<Rightarrow> int list" where
  "for_user r u = (case map_of (rg_by_user r) u of None \<Rightarrow> [] | Some cs \<Rightarrow> cs)"

definition all_connections :: "registry \<Rightarrow> int list" where
  "all_connections r = concat (map snd (rg_by_user r))"

definition connection_count :: "registry \<Rightarrow> int" where
  "connection_count r = sum_list (map (\<lambda>e. int (length (snd e))) (rg_by_user r))"

definition sync_of :: "registry \<Rightarrow> uuid \<Rightarrow> sync" where
  "sync_of r u = (case map_of (rg_syncs r) u of None \<Rightarrow> \<lparr>sy_callers = 0, sy_hook = None\<rparr> | Some s \<Rightarrow> s)"

text \<open>\<^verbatim>\<open>wanted\<close> and the membership in \<^verbatim>\<open>_subscribed\<close> that the loop of \<^verbatim>\<open>_sync_user\<close> compares.\<close>

definition wanted :: "registry \<Rightarrow> uuid \<Rightarrow> bool" where
  "wanted r u \<longleftrightarrow> map_of (rg_by_user r) u \<noteq> None"

definition subscribed :: "registry \<Rightarrow> uuid \<Rightarrow> bool" where
  "subscribed r u \<longleftrightarrow> u \<in> set (rg_subscribed r)"

definition enter_sync :: "uuid \<Rightarrow> registry \<Rightarrow> registry" where
  "enter_sync u r =
     (let s = sync_of r u in r\<lparr>rg_syncs := AList.update u (s\<lparr>sy_callers := sy_callers s + 1\<rparr>) (rg_syncs r)\<rparr>)"

definition add_connection :: "int \<Rightarrow> uuid \<Rightarrow> int \<Rightarrow> registry \<Rightarrow> bool \<times> registry" where
  "add_connection limit u c r =
     (let cs = for_user r u in
      if limit \<le> int (length cs) then (False, r)
      else (True, enter_sync u (r\<lparr>rg_by_user := AList.update u (if c \<in> set cs then cs else cs @ [c]) (rg_by_user r)\<rparr>)))"

definition remove_connection :: "uuid \<Rightarrow> int \<Rightarrow> registry \<Rightarrow> registry" where
  "remove_connection u c r =
     (case map_of (rg_by_user r) u of
        None \<Rightarrow> r
      | Some cs \<Rightarrow>
          if c \<notin> set cs then r
          else enter_sync u (r\<lparr>rg_by_user := (if remove1 c cs = [] then AList.delete u (rg_by_user r)
                                              else AList.update u (remove1 c cs) (rg_by_user r))\<rparr>))"

text \<open>
  The loop condition, evaluated by the caller that holds the lock of \<open>u\<close>: it awaits the hook
  that is due, or leaves; the last one to leave drops the entry.
\<close>

definition sync_check :: "uuid \<Rightarrow> registry \<Rightarrow> registry" where
  "sync_check u r =
     (let s = sync_of r u in
      if wanted r u \<noteq> subscribed r u then
        r\<lparr>rg_syncs := AList.update u (s\<lparr>sy_hook := Some (if wanted r u then OnFirst else OnLast)\<rparr>) (rg_syncs r)\<rparr>
      else if sy_callers s \<le> 1 then r\<lparr>rg_syncs := AList.delete u (rg_syncs r)\<rparr>
      else r\<lparr>rg_syncs := AList.update u (s\<lparr>sy_callers := sy_callers s - 1, sy_hook := None\<rparr>) (rg_syncs r)\<rparr>)"

definition take_lock :: "uuid \<Rightarrow> registry \<Rightarrow> registry" where
  "take_lock u r = (if sy_callers (sync_of r u) = 0 \<or> sy_hook (sync_of r u) \<noteq> None then r else sync_check u r)"

definition hook_done :: "uuid \<Rightarrow> registry \<Rightarrow> registry" where
  "hook_done u r =
     (case sy_hook (sync_of r u) of
        None \<Rightarrow> r
      | Some OnFirst \<Rightarrow> sync_check u (r\<lparr>rg_subscribed := List.insert u (rg_subscribed r)\<rparr>)
      | Some OnLast \<Rightarrow> sync_check u (r\<lparr>rg_subscribed := removeAll u (rg_subscribed r)\<rparr>))"

datatype registry_event = Add uuid int | Remove uuid int | TakeLock uuid | HookDone uuid

fun registry_step :: "int \<Rightarrow> registry_event \<Rightarrow> registry \<Rightarrow> registry" where
  "registry_step limit (Add u c) r = snd (add_connection limit u c r)"
| "registry_step limit (Remove u c) r = remove_connection u c r"
| "registry_step limit (TakeLock u) r = take_lock u r"
| "registry_step limit (HookDone u) r = hook_done u r"

subsection \<open>The invariant\<close>

definition members_ok :: "int \<Rightarrow> (uuid \<times> int list) list \<Rightarrow> bool" where
  "members_ok limit b \<longleftrightarrow> distinct (keys b) \<and> (\<forall>e \<in> set b. snd e \<noteq> [] \<and> distinct (snd e) \<and> int (length (snd e)) \<le> limit)"

text \<open>What holds of one user: a gap between the two sides has a caller that will close it.\<close>

definition settling :: "bool \<Rightarrow> bool \<Rightarrow> sync \<Rightarrow> bool" where
  "settling w s y \<longleftrightarrow>
     (w \<noteq> s \<or> sy_hook y \<noteq> None \<longrightarrow> 0 < sy_callers y) \<and>
     (sy_hook y = Some OnFirst \<longrightarrow> \<not> s) \<and> (sy_hook y = Some OnLast \<longrightarrow> s)"

definition registry_inv :: "int \<Rightarrow> registry \<Rightarrow> bool" where
  "registry_inv limit r \<longleftrightarrow> members_ok limit (rg_by_user r) \<and> (\<forall>u. settling (wanted r u) (subscribed r u) (sync_of r u))"

lemma sync_reads [simp]:
  "sync_of (r\<lparr>rg_by_user := b\<rparr>) = sync_of r" "sync_of (r\<lparr>rg_subscribed := l\<rparr>) = sync_of r"
  "sync_of (r\<lparr>rg_syncs := AList.update u s (rg_syncs r)\<rparr>) v = (if v = u then s else sync_of r v)"
  "sync_of (r\<lparr>rg_syncs := AList.delete u (rg_syncs r)\<rparr>) v =
     (if v = u then \<lparr>sy_callers = 0, sy_hook = None\<rparr> else sync_of r v)"
  "wanted (r\<lparr>rg_syncs := y\<rparr>) = wanted r" "wanted (r\<lparr>rg_subscribed := l\<rparr>) = wanted r"
  "subscribed (r\<lparr>rg_syncs := y\<rparr>) = subscribed r" "subscribed (r\<lparr>rg_by_user := b\<rparr>) = subscribed r"
  by (simp_all add: sync_of_def wanted_def subscribed_def fun_eq_iff)

lemma wanted_update [simp]:
  "wanted (r\<lparr>rg_by_user := AList.update u cs (rg_by_user r)\<rparr>) v = (v = u \<or> wanted r v)"
  "wanted (r\<lparr>rg_by_user := AList.delete u (rg_by_user r)\<rparr>) v = (v \<noteq> u \<and> wanted r v)"
  by (auto simp: wanted_def)

lemma subscribed_update [simp]:
  "subscribed (r\<lparr>rg_subscribed := List.insert u (rg_subscribed r)\<rparr>) v = (v = u \<or> subscribed r v)"
  "subscribed (r\<lparr>rg_subscribed := removeAll u (rg_subscribed r)\<rparr>) v = (v \<noteq> u \<and> subscribed r v)"
  by (auto simp: subscribed_def)

lemma enter_sync_reads [simp]:
  "wanted (enter_sync u r) = wanted r" "subscribed (enter_sync u r) = subscribed r"
  "rg_by_user (enter_sync u r) = rg_by_user r"
  "sync_of (enter_sync u r) v = (if v = u then (sync_of r u)\<lparr>sy_callers := sy_callers (sync_of r u) + 1\<rparr> else sync_of r v)"
  by (simp_all add: enter_sync_def Let_def)

lemma settling_enter: "settling w s y \<Longrightarrow> settling w' s (y\<lparr>sy_callers := sy_callers y + 1\<rparr>)"
  by (auto simp: settling_def)

lemma members_update:
  "members_ok limit b \<Longrightarrow> cs \<noteq> [] \<Longrightarrow> distinct cs \<Longrightarrow> int (length cs) \<le> limit \<Longrightarrow> members_ok limit (AList.update u cs b)"
  using set_update_entries [of u cs b] by (auto simp: members_ok_def distinct_update_keys)

lemma members_delete: "members_ok limit b \<Longrightarrow> members_ok limit (AList.delete u b)"
  using set_delete_entries [of u b] by (auto simp: members_ok_def distinct_delete_keys)

lemma members_of: "members_ok limit b \<Longrightarrow> map_of b u = Some cs \<Longrightarrow> cs \<noteq> [] \<and> distinct cs \<and> int (length cs) \<le> limit"
  by (auto simp: members_ok_def dest: map_of_SomeD)

lemma for_user_ok:
  assumes "members_ok limit (rg_by_user r)"
  shows "distinct (for_user r u)" "0 \<le> limit \<Longrightarrow> int (length (for_user r u)) \<le> limit" "wanted r u \<longleftrightarrow> for_user r u \<noteq> []"
proof (atomize (full), cases "map_of (rg_by_user r) u")
  case (Some cs)
  with members_of [OF assms Some]
  show "distinct (for_user r u) \<and> (0 \<le> limit \<longrightarrow> int (length (for_user r u)) \<le> limit) \<and> (wanted r u \<longleftrightarrow> for_user r u \<noteq> [])"
    by (simp add: for_user_def wanted_def)
qed (simp add: for_user_def wanted_def)

lemma registry_inv_empty: "registry_inv limit empty_registry"
  by (simp add: registry_inv_def members_ok_def settling_def empty_registry_def wanted_def subscribed_def sync_of_def)

lemma registry_inv_enter:
  assumes "registry_inv limit r" "members_ok limit b" "\<And>v. v \<noteq> u \<Longrightarrow> map_of b v = map_of (rg_by_user r) v"
  shows "registry_inv limit (enter_sync u (r\<lparr>rg_by_user := b\<rparr>))"
proof -
  have "settling (wanted (r\<lparr>rg_by_user := b\<rparr>) v) (subscribed r v) (sync_of (enter_sync u (r\<lparr>rg_by_user := b\<rparr>)) v)" for v
  proof (cases "v = u")
    case True
    have "settling (wanted r u) (subscribed r u) (sync_of r u)" using assms(1) by (simp add: registry_inv_def)
    from settling_enter [OF this] True show ?thesis by simp
  next
    case False
    then have "wanted (r\<lparr>rg_by_user := b\<rparr>) v = wanted r v" using assms(3) by (simp add: wanted_def)
    with False assms(1) show ?thesis by (simp add: registry_inv_def)
  qed
  with assms(2) show ?thesis by (simp add: registry_inv_def)
qed

lemma registry_inv_add:
  assumes "registry_inv limit r"
  shows "registry_inv limit (snd (add_connection limit u c r))"
proof (cases "limit \<le> int (length (for_user r u))")
  case False
  let ?cs = "if c \<in> set (for_user r u) then for_user r u else for_user r u @ [c]"
  have ok: "members_ok limit (rg_by_user r)" using assms by (simp add: registry_inv_def)
  from for_user_ok(1) [OF ok] have "members_ok limit (AList.update u ?cs (rg_by_user r))"
    using False by (intro members_update [OF ok]) auto
  from registry_inv_enter [OF assms this, of u] False show ?thesis by (simp add: add_connection_def Let_def)
qed (use assms in \<open>simp add: add_connection_def Let_def\<close>)

lemma registry_inv_remove:
  assumes "registry_inv limit r"
  shows "registry_inv limit (remove_connection u c r)"
proof (cases "map_of (rg_by_user r) u")
  case (Some cs)
  let ?b = "if remove1 c cs = [] then AList.delete u (rg_by_user r) else AList.update u (remove1 c cs) (rg_by_user r)"
  have ok: "members_ok limit (rg_by_user r)" using assms by (simp add: registry_inv_def)
  have "int (length (remove1 c cs)) \<le> limit" "distinct (remove1 c cs)"
    using members_of [OF ok Some] by (auto simp: length_remove1)
  then have "members_ok limit ?b" using ok by (auto intro!: members_update members_delete)
  from registry_inv_enter [OF assms this, of u] assms Some show ?thesis
    by (auto simp: remove_connection_def)
qed (use assms in \<open>simp add: remove_connection_def\<close>)

lemma check_reads [simp]:
  "wanted (sync_check u r) = wanted r" "subscribed (sync_check u r) = subscribed r" "rg_by_user (sync_check u r) = rg_by_user r"
  "v \<noteq> u \<Longrightarrow> sync_of (sync_check u r) v = sync_of r v"
  by (auto simp: sync_check_def Let_def)

lemma settling_check: "0 < sy_callers (sync_of r u) \<Longrightarrow> settling (wanted r u) (subscribed r u) (sync_of (sync_check u r) u)"
  by (auto simp: sync_check_def Let_def settling_def)

lemma registry_inv_check:
  assumes "members_ok limit (rg_by_user r)" "\<And>v. v \<noteq> u \<Longrightarrow> settling (wanted r v) (subscribed r v) (sync_of r v)"
    and "0 < sy_callers (sync_of r u)"
  shows "registry_inv limit (sync_check u r)"
proof -
  have "settling (wanted r v) (subscribed r v) (sync_of (sync_check u r) v)" for v
    using assms(2) [of v] settling_check [OF assms(3)] by (cases "v = u") auto
  with assms(1) show ?thesis by (simp add: registry_inv_def)
qed

lemma registry_inv_step:
  assumes inv: "registry_inv limit r"
  shows "registry_inv limit (registry_step limit e r)"
proof (cases e)
  case (TakeLock u)
  show ?thesis
  proof (cases "sy_callers (sync_of r u) = 0 \<or> sy_hook (sync_of r u) \<noteq> None")
    case False
    then have "registry_inv limit (sync_check u r)"
      using inv by (intro registry_inv_check) (auto simp: registry_inv_def)
    with TakeLock False show ?thesis by (simp add: take_lock_def)
  qed (use inv TakeLock in \<open>simp add: take_lock_def\<close>)
next
  case (HookDone u)
  show ?thesis
  proof (cases "sy_hook (sync_of r u)")
    case (Some k)
    have "0 < sy_callers (sync_of r u)" using inv Some by (auto simp: registry_inv_def settling_def)
    then have sync: "registry_inv limit (sync_check u (r\<lparr>rg_subscribed := l\<rparr>))" if "\<And>v. v \<noteq> u \<Longrightarrow> (v \<in> set l) = subscribed r v" for l
      using inv that by (intro registry_inv_check) (auto simp: registry_inv_def subscribed_def)
    from sync [of "List.insert u (rg_subscribed r)"] sync [of "removeAll u (rg_subscribed r)"]
    have "registry_inv limit (sync_check u (r\<lparr>rg_subscribed := List.insert u (rg_subscribed r)\<rparr>))"
      "registry_inv limit (sync_check u (r\<lparr>rg_subscribed := removeAll u (rg_subscribed r)\<rparr>))"
      by (auto simp: subscribed_def)
    with HookDone Some show ?thesis by (cases k) (simp_all add: hook_done_def)
  qed (use inv HookDone in \<open>simp add: hook_done_def\<close>)
qed (use inv in \<open>auto intro: registry_inv_add registry_inv_remove\<close>)

interpretation registry: step_system "registry_step limit" "registry_inv limit" for limit
  by unfold_locales (rule registry_inv_step)

text \<open>However connects and disconnects of a user interleave with the subscription hooks, no user ever has
  more sessions than the limit, and once no caller is left in \<^verbatim>\<open>_sync_user\<close> the replica is
  subscribed for exactly the users it holds a session of.\<close>

theorem subscriptions_settle_on_the_sessions:
  fixes limit :: int and es :: "registry_event list"
  defines "r \<equiv> fold (registry_step limit) es empty_registry"
  shows "(0 \<le> limit \<longrightarrow> int (length (for_user r u)) \<le> limit) \<and>
    (map_of (rg_syncs r) u = None \<longrightarrow> (subscribed r u \<longleftrightarrow> for_user r u \<noteq> []))"
proof -
  have inv: "registry_inv limit r" unfolding r_def by (rule registry.run_keeps [OF registry_inv_empty])
  then have ok: "members_ok limit (rg_by_user r)" and settled: "settling (wanted r u) (subscribed r u) (sync_of r u)"
    by (auto simp: registry_inv_def)
  from settled for_user_ok [OF ok, of u] show ?thesis by (auto simp: settling_def sync_of_def)
qed

theorem subscriptions_settle_on_the_sessions_witness:
  "subscribed (fold (registry_step 2) [Add 7 1, TakeLock 7, HookDone 7] empty_registry) 7"
proof -
  have "map_of (rg_syncs (fold (registry_step 2) [Add 7 1, TakeLock 7, HookDone 7] empty_registry)) 7 = None"
    "for_user (fold (registry_step 2) [Add 7 1, TakeLock 7, HookDone 7] empty_registry) 7 \<noteq> []" by code_simp+
  with subscriptions_settle_on_the_sessions [of 2 "[Add 7 1, TakeLock 7, HookDone 7]" 7] show ?thesis by blast
qed

end
