(* ===== verification/Bridge.thy ===== *)
theory Bridge
  imports Hub Registry
begin

text \<open>
  \<^verbatim>\<open>src/geotrack/realtime/bridge.py\<close>: the reader of the pub/sub traffic. The channels it
  wants and the channels Redis accepted are lists without duplicates. What Redis answers to a
  subscription change, and what a read gives, are arguments of the operations. The two handlers
  the gateway passes in are \<open>hub_apply\<close> and a list of user frames to hand out.
\<close>

record bridge =
  br_wanted :: "string list"
  br_held :: "string list"
  br_running :: bool
  br_task :: bool
  br_dropped :: int
  br_retry_at :: rat

definition new_bridge :: bridge where
  "new_bridge = \<lparr>br_wanted = [POSITIONS_CHANNEL], br_held = [], br_running = False, br_task = False, br_dropped = 0, br_retry_at = 0\<rparr>"

definition in_sync :: "bridge \<Rightarrow> bool" where
  "in_sync b \<longleftrightarrow> set (br_held b) = set (br_wanted b)"

definition delivering :: "bridge \<Rightarrow> bool" where
  "delivering b \<longleftrightarrow> br_running b \<and> br_task b"

text \<open>What \<^verbatim>\<open>unsubscribe\<close> and \<^verbatim>\<open>subscribe\<close> answer: accepted, or an error or timeout.\<close>

record apply_env =
  ae_unsubscribed :: bool
  ae_subscribed :: bool

definition apply_wanted :: "apply_env \<Rightarrow> bridge \<Rightarrow> bool \<times> bridge" where
  "apply_wanted env b =
     (let stale = filter (\<lambda>c. c \<notin> set (br_wanted b)) (br_held b);
          missing = filter (\<lambda>c. c \<notin> set (br_held b)) (br_wanted b) in
      if stale = [] \<and> missing = [] then (True, b)
      else
        let (b1, ok) =
              (if stale = [] then (b, True)
               else if ae_unsubscribed env then (b\<lparr>br_held := filter (\<lambda>c. c \<notin> set stale) (br_held b)\<rparr>, True)
               else (b, False));
            b2 = (if \<not> ok \<or> missing = [] then b1
                  else if ae_subscribed env then b1\<lparr>br_held := br_held b1 @ missing\<rparr>
                  else b1)
        in (in_sync b2, b2))"

definition bridge_start :: "apply_env \<Rightarrow> bridge \<Rightarrow> bridge" where
  "bridge_start env b = (snd (apply_wanted env (b\<lparr>br_running := True\<rparr>)))\<lparr>br_task := True\<rparr>"

definition bridge_stop :: "bridge \<Rightarrow> bridge" where
  "bridge_stop b = b\<lparr>br_running := False, br_task := False\<rparr>"

definition subscribe_user :: "apply_env \<Rightarrow> uuid \<Rightarrow> bridge \<Rightarrow> bridge" where
  "subscribe_user env u b = snd (apply_wanted env (b\<lparr>br_wanted := List.insert (user_channel u) (br_wanted b)\<rparr>))"

definition unsubscribe_user :: "apply_env \<Rightarrow> uuid \<Rightarrow> bridge \<Rightarrow> bridge" where
  "unsubscribe_user env u b = snd (apply_wanted env (b\<lparr>br_wanted := removeAll (user_channel u) (br_wanted b)\<rparr>))"

subsection \<open>Delivery\<close>

text \<open>
  The decoders the dispatch relies on: JSON, the two number constructors of \<^verbatim>\<open>decode_positions\<close>,
  \<^verbatim>\<open>UUID\<close>, and whether bytes are UTF-8. A position whose coordinates are not finite makes
  \<^verbatim>\<open>hub.apply\<close> raise in the middle of its loop: the items before it have been applied.
\<close>

record decoders =
  dc_loads :: loads
  dc_float_of :: "string \<Rightarrow> pyfloat option"
  dc_int_of :: "string \<Rightarrow> int option"
  dc_uuid_of :: "string \<Rightarrow> uuid option"
  dc_utf8 :: "bytes \<Rightarrow> bool"

fun finite_prefix :: "raw_item list \<Rightarrow> position_item list \<times> bool" where
  "finite_prefix [] = ([], True)"
| "finite_prefix (i # is) =
     (case i of
        (d, Fin la, Fin lo, ms) \<Rightarrow> (case finite_prefix is of (items, ok) \<Rightarrow> ((d, la, lo, ms) # items, ok))
      | _ \<Rightarrow> ([], False))"

record received =
  rv_hub :: hub
  rv_frames :: "(uuid \<times> bytes) list"

text \<open>The flag says whether \<^verbatim>\<open>_dispatch\<close> returned or raised.\<close>

definition dispatch :: "decoders \<Rightarrow> string \<Rightarrow> bytes \<Rightarrow> received \<Rightarrow> bool \<times> received" where
  "dispatch dc channel data rv =
     (if channel = POSITIONS_CHANNEL then
        (case decode_positions (dc_float_of dc) (dc_int_of dc) (dc_loads dc) data of
           Inl e \<Rightarrow> (False, rv)
         | Inr raws \<Rightarrow>
             (case finite_prefix raws of (items, ok) \<Rightarrow> (ok, rv\<lparr>rv_hub := hub_apply items (rv_hub rv)\<rparr>)))
      else if \<not> dc_utf8 dc channel then (False, rv)
      else (case user_id_from_channel (dc_uuid_of dc) channel of
              None \<Rightarrow> (False, rv)
            | Some u \<Rightarrow> if dc_utf8 dc data then (True, rv\<lparr>rv_frames := rv_frames rv @ [(u, data)]\<rparr>) else (False, rv)))"

definition deliver :: "decoders \<Rightarrow> string \<Rightarrow> bytes \<Rightarrow> bridge \<times> received \<Rightarrow> bridge \<times> received" where
  "deliver dc channel data br =
     (case br of (b, rv) \<Rightarrow>
        (case dispatch dc channel data rv of
           (True, rv') \<Rightarrow> (b, rv')
         | (False, rv') \<Rightarrow> (b\<lparr>br_dropped := br_dropped b + 1\<rparr>, rv')))"

definition RETRY_DELAY_S :: rat where "RETRY_DELAY_S = 1/2"

text \<open>One turn of the reader's loop: a failed read, no message, or a message; then the repair.\<close>

datatype read_result = ReadFailed | NoMessage | Message string bytes

definition read_turn :: "decoders \<Rightarrow> rat \<Rightarrow> apply_env \<Rightarrow> read_result \<Rightarrow> bridge \<times> received \<Rightarrow> bridge \<times> received" where
  "read_turn dc now env res br =
     (if \<not> br_running (fst br) then br
      else
        let repair = (\<lambda>(b, rv).
          if \<not> in_sync b \<and> br_retry_at b \<le> now
          then (snd (apply_wanted env (b\<lparr>br_retry_at := now + RETRY_DELAY_S\<rparr>)), rv) else (b, rv)) in
        (case res of
           ReadFailed \<Rightarrow> (snd (apply_wanted env ((fst br)\<lparr>br_held := []\<rparr>)), snd br)
         | NoMessage \<Rightarrow> repair br
         | Message channel data \<Rightarrow> repair (deliver dc channel data br)))"

datatype bridge_event =
    Turn rat apply_env read_result
  | SubscribeUser apply_env uuid
  | UnsubscribeUser apply_env uuid

fun bridge_step :: "decoders \<Rightarrow> bridge_event \<Rightarrow> bridge \<times> received \<Rightarrow> bridge \<times> received" where
  "bridge_step dc (Turn now env res) br = read_turn dc now env res br"
| "bridge_step dc (SubscribeUser env u) br = (subscribe_user env u (fst br), snd br)"
| "bridge_step dc (UnsubscribeUser env u) br = (unsubscribe_user env u (fst br), snd br)"

lemma apply_wanted_reads [simp]:
  "br_wanted (snd (apply_wanted env b)) = br_wanted b" "br_running (snd (apply_wanted env b)) = br_running b"
  "br_task (snd (apply_wanted env b)) = br_task b" "br_dropped (snd (apply_wanted env b)) = br_dropped b"
  by (auto simp: apply_wanted_def Let_def)

lemma apply_wanted_fst: "fst (apply_wanted env b) \<longleftrightarrow> in_sync (snd (apply_wanted env b))"
  by (auto simp: apply_wanted_def in_sync_def Let_def filter_empty_conv)

lemma apply_wanted_accepted:
  "ae_unsubscribed env \<Longrightarrow> ae_subscribed env \<Longrightarrow> in_sync (snd (apply_wanted env b))"
  by (auto simp: apply_wanted_def in_sync_def Let_def filter_empty_conv)

text \<open>A change that is refused never takes away a channel that is both held and wanted.\<close>

lemma apply_wanted_keeps:
  "ch \<in> set (br_held b) \<Longrightarrow> ch \<in> set (br_wanted b) \<Longrightarrow> ch \<in> set (br_held (snd (apply_wanted env b)))"
  by (auto simp: apply_wanted_def Let_def)

subsection \<open>Registry and bridge together\<close>

text \<open>The hooks of the registry are the bridge's subscription calls: a hook that completes has changed what is wanted.\<close>

datatype replica_event =
    Join uuid int
  | Leave uuid int
  | SyncTurn uuid
  | HookReturns apply_env uuid
  | ReaderTurn rat apply_env read_result

fun event_user :: "replica_event \<Rightarrow> uuid option" where
  "event_user (Join u c) = Some u"
| "event_user (Leave u c) = Some u"
| "event_user (SyncTurn u) = Some u"
| "event_user (HookReturns env u) = Some u"
| "event_user (ReaderTurn now env res) = None"

definition valid_uuid :: "uuid \<Rightarrow> bool" where
  "valid_uuid u \<longleftrightarrow> 0 \<le> u \<and> u < 2 ^ 128"

definition event_ok :: "replica_event \<Rightarrow> bool" where
  "event_ok e \<longleftrightarrow> (case event_user e of None \<Rightarrow> True | Some u \<Rightarrow> valid_uuid u)"

type_synonym replica = "registry \<times> bridge \<times> received"

fun replica_step :: "int \<Rightarrow> decoders \<Rightarrow> replica_event \<Rightarrow> replica \<Rightarrow> replica" where
  "replica_step limit dc (Join u c) (r, b, rv) = (registry_step limit (Add u c) r, b, rv)"
| "replica_step limit dc (Leave u c) (r, b, rv) = (registry_step limit (Remove u c) r, b, rv)"
| "replica_step limit dc (SyncTurn u) (r, b, rv) = (registry_step limit (TakeLock u) r, b, rv)"
| "replica_step limit dc (HookReturns env u) (r, b, rv) =
     (registry_step limit (HookDone u) r,
      (case sy_hook (sync_of r u) of
         None \<Rightarrow> b | Some OnFirst \<Rightarrow> subscribe_user env u b | Some OnLast \<Rightarrow> unsubscribe_user env u b), rv)"
| "replica_step limit dc (ReaderTurn now env res) (r, b, rv) = (r, read_turn dc now env res (b, rv))"

definition replica_inv :: "int \<Rightarrow> replica \<Rightarrow> bool" where
  "replica_inv limit s \<longleftrightarrow>
     (case s of (r, b, rv) \<Rightarrow>
        registry_inv limit r \<and> (\<forall>u \<in> set (rg_subscribed r). valid_uuid u) \<and>
        set (br_wanted b) = insert POSITIONS_CHANNEL (user_channel ` set (rg_subscribed r)))"

lemma user_channel_inj: "valid_uuid u \<Longrightarrow> valid_uuid v \<Longrightarrow> user_channel u = user_channel v \<longleftrightarrow> u = v"
  using uuid_str_inj [of u v] by (auto simp: valid_uuid_def user_channel_def)

lemma user_channel_not_positions [simp]: "user_channel u \<noteq> POSITIONS_CHANNEL" "POSITIONS_CHANNEL \<noteq> user_channel u"
  by (simp_all add: user_channel_def POSITIONS_CHANNEL_def)

lemma rg_subscribed_steps [simp]:
  "rg_subscribed (snd (add_connection limit u c r)) = rg_subscribed r"
  "rg_subscribed (remove_connection u c r) = rg_subscribed r" "rg_subscribed (sync_check u r) = rg_subscribed r"
  "rg_subscribed (take_lock u r) = rg_subscribed r"
  by (simp_all add: add_connection_def remove_connection_def enter_sync_def sync_check_def take_lock_def Let_def
      split: option.splits)

lemma read_turn_keeps_wanted: "br_wanted (fst (read_turn dc now env res br)) = br_wanted (fst br)"
  by (cases br) (auto simp: read_turn_def deliver_def Let_def split: read_result.splits prod.splits bool.splits)

lemma unsubscribe_wanted:
  assumes "valid_uuid u" "\<forall>v \<in> set l. valid_uuid v" "set w = insert POSITIONS_CHANNEL (user_channel ` set l)"
  shows "set (removeAll (user_channel u) w) = insert POSITIONS_CHANNEL (user_channel ` set (removeAll u l))"
proof -
  have "user_channel v = user_channel u \<longleftrightarrow> v = u" if "v \<in> set l" for v
    using that assms(1, 2) user_channel_inj [of v u] by blast
  then show ?thesis unfolding set_removeAll assms(3) by auto
qed

lemma replica_inv_step:
  assumes "replica_inv limit s" "event_ok e"
  shows "replica_inv limit (replica_step limit dc e s)"
proof -
  obtain r b rv where s: "s = (r, b, rv)" by (metis prod_cases3)
  note inv = assms(1) [unfolded s replica_inv_def prod.case]
  note reg = registry_inv_step [OF inv [THEN conjunct1]]
  show ?thesis
  proof (cases e)
    case (HookReturns env u)
    with assms(2) have u: "valid_uuid u" by (simp add: event_ok_def)
    show ?thesis
    proof (cases "sy_hook (sync_of r u)")
      case None
      with HookReturns s inv reg [of "HookDone u"] show ?thesis by (simp add: replica_inv_def hook_done_def)
    next
      case (Some k)
      then show ?thesis
        using HookReturns s u inv reg [of "HookDone u"] unsubscribe_wanted [OF u, of "rg_subscribed r" "br_wanted b"]
        by (cases k) (auto simp: replica_inv_def hook_done_def subscribe_user_def unsubscribe_user_def)
    qed
  next
    case (ReaderTurn now env res)
    then show ?thesis using s inv read_turn_keeps_wanted [of dc now env res "(b, rv)"]
      by (auto simp: replica_inv_def split: prod.splits)
  qed (use s inv reg [of "Add _ _"] reg [of "Remove _ _"] reg [of "TakeLock _"] in \<open>simp_all add: replica_inv_def\<close>)
qed

lemma replica_run_keeps:
  assumes "list_all event_ok es" "replica_inv limit s"
  shows "replica_inv limit (fold (replica_step limit dc) es s)"
  using assms
proof (induction es arbitrary: s)
  case (Cons e es)
  then show ?case using replica_inv_step [of limit s e dc] by simp
qed simp

definition new_replica :: "hub \<Rightarrow> replica" where
  "new_replica h = (empty_registry, new_bridge, \<lparr>rv_hub = h, rv_frames = []\<rparr>)"

lemma replica_inv_new: "replica_inv limit (new_replica h)"
  by (simp add: replica_inv_def new_replica_def registry_inv_empty) (simp add: empty_registry_def new_bridge_def)


text \<open>
  What a message is worth to the clients of its user, independent of the state of the bridge.
\<close>

definition user_frame :: "decoders \<Rightarrow> string \<times> bytes \<Rightarrow> (uuid \<times> bytes) list" where
  "user_frame dc m =
     (if fst m \<noteq> POSITIONS_CHANNEL \<and> dc_utf8 dc (fst m) \<and> dc_utf8 dc (snd m)
      then (case user_id_from_channel (dc_uuid_of dc) (fst m) of None \<Rightarrow> [] | Some u \<Rightarrow> [(u, snd m)]) else [])"

lemma dispatch_frames:
  "rv_frames (snd (dispatch dc ch data rv)) = rv_frames rv @ user_frame dc (ch, data)"
  by (auto simp: dispatch_def user_frame_def split: option.splits sum.splits prod.splits)

lemma dispatch_dropped_frame:
  "ch \<noteq> POSITIONS_CHANNEL \<Longrightarrow> \<not> fst (dispatch dc ch data rv) \<longleftrightarrow> user_frame dc (ch, data) = []"
  by (auto simp: dispatch_def user_frame_def split: option.splits)

lemma read_turn_message:
  assumes "br_running b"
  shows "br_running (fst (read_turn dc now env (Message ch data) (b, rv)))"
    "rv_frames (snd (read_turn dc now env (Message ch data) (b, rv))) = rv_frames rv @ user_frame dc (ch, data)"
    "br_dropped (fst (read_turn dc now env (Message ch data) (b, rv))) =
       br_dropped b + (if fst (dispatch dc ch data rv) then 0 else 1)"
  using assms dispatch_frames [of dc ch data rv]
  by (auto simp: read_turn_def deliver_def Let_def split: prod.splits bool.splits)

text \<open>The reader survives what it cannot use: over any sequence of messages, readable or not, and whatever
  Redis answers meanwhile, every deliverable user frame is handed to its user, in the order of arrival,
  and the reader is still running.\<close>

theorem reader_delivers_around_bad_messages:
  assumes "br_running b"
  shows "rv_frames (snd (fold (\<lambda>(now, env, m). read_turn dc now env (Message (fst m) (snd m))) turns (b, rv))) =
      rv_frames rv @ concat (map (\<lambda>(now, env, m). user_frame dc m) turns) \<and>
    br_running (fst (fold (\<lambda>(now, env, m). read_turn dc now env (Message (fst m) (snd m))) turns (b, rv)))"
  using assms
proof (induction turns arbitrary: b rv)
  case (Cons turn turns)
  obtain now env ch data where turn: "turn = (now, env, ch, data)" by (metis prod_cases4)
  obtain b' rv' where t: "read_turn dc now env (Message ch data) (b, rv) = (b', rv')" by (metis surj_pair)
  have "br_running b'" "rv_frames rv' = rv_frames rv @ user_frame dc (ch, data)"
    using read_turn_message [OF Cons.prems, of dc now env ch data rv] t by simp_all
  with Cons.IH [of b' rv'] t turn show ?case by simp
qed simp

definition sample_decoders :: decoders where
  "sample_decoders = \<lparr>dc_loads = (\<lambda>b. Inl ''bad''), dc_float_of = (\<lambda>s. None), dc_int_of = (\<lambda>s. None),
     dc_uuid_of = (\<lambda>s. if s = uuid_str 7 then Some 7 else None), dc_utf8 = (\<lambda>b. True)\<rparr>"

definition accepted_env :: apply_env where
  "accepted_env = \<lparr>ae_unsubscribed = True, ae_subscribed = True\<rparr>"

theorem reader_delivers_around_bad_messages_witness:
  "rv_frames (snd (fold (\<lambda>(now, env, m). read_turn sample_decoders now env (Message (fst m) (snd m)))
     [(1, accepted_env, POSITIONS_CHANNEL, ''junk''), (2, accepted_env, ''noise'', ''x''), (3, accepted_env, user_channel 7, ''hi'')]
     (new_bridge\<lparr>br_running := True\<rparr>, \<lparr>rv_hub = hub_init 1 60, rv_frames = []\<rparr>))) = [(7, ''hi'')]"
proof -
  have frames: "user_frame sample_decoders (POSITIONS_CHANNEL, ''junk'') = []" "user_frame sample_decoders (''noise'', ''x'') = []"
    "user_frame sample_decoders (user_channel 7, ''hi'') = [(7, ''hi'')]" by code_simp+
  have "br_running (new_bridge\<lparr>br_running := True\<rparr>)" by simp
  from reader_delivers_around_bad_messages [OF this, of sample_decoders
      "[(1, accepted_env, POSITIONS_CHANNEL, ''junk''), (2, accepted_env, ''noise'', ''x''), (3, accepted_env, user_channel 7, ''hi'')]"]
  show ?thesis by (simp add: frames del: fold_simps)
qed


end
