(* ===== verification/Sessions.thy ===== *)
theory Sessions
  imports Protocol Clock "HOL-Library.Sublist"
begin

text \<open>
  \<^verbatim>\<open>src/geotrack/realtime/sessions.py\<close>: the label of a client and the directory of live
  sessions. Redis is outside the model: an operation of the directory is the list of commands
  it puts on a pipeline, and what Redis answers to its reads is an argument. Characters are the
  256 that a header value can hold.
\<close>

subsection \<open>The label\<close>

definition UNKNOWN_CLIENT :: string where "UNKNOWN_CLIENT = ''Unknown device''"
definition MAX_LABEL_LENGTH :: nat where "MAX_LABEL_LENGTH = 40"
definition LABEL_EXTRA_CHARS :: "char list" where "LABEL_EXTRA_CHARS = '' .-_''"

definition BROWSERS :: "(string \<times> string) list" where
  "BROWSERS = [(''Edg/'', ''Edge''), (''OPR/'', ''Opera''), (''Firefox/'', ''Firefox''), (''Chrome/'', ''Chrome''), (''Safari/'', ''Safari'')]"

definition PLATFORMS :: "(string \<times> string) list" where
  "PLATFORMS = [(''Windows NT'', ''Windows''), (''Android'', ''Android''), (''iPhone'', ''iOS''), (''iPad'', ''iPadOS''),
     (''CrOS'', ''ChromeOS''), (''Macintosh'', ''macOS''), (''Mac OS X'', ''macOS''), (''Linux'', ''Linux'')]"

definition first_match :: "(string \<times> string) list \<Rightarrow> string \<Rightarrow> string option" where
  "first_match table s = map_option snd (List.find (\<lambda>e. sublist (fst e) s) table)"

text \<open>\<^verbatim>\<open>str.isalnum\<close> on the code points below 256.\<close>

definition isalnum :: "char \<Rightarrow> bool" where
  "isalnum c =
     (let n = of_char c :: nat in
      48 \<le> n \<and> n \<le> 57 \<or> 65 \<le> n \<and> n \<le> 90 \<or> 97 \<le> n \<and> n \<le> 122 \<or>
      n \<in> set [170, 178, 179, 181, 185, 186, 188, 189, 190] \<or> 192 \<le> n \<and> n \<le> 214 \<or> 216 \<le> n \<and> n \<le> 246 \<or> 248 \<le> n \<and> n \<le> 255)"

text \<open>Of the white space that \<^verbatim>\<open>strip\<close> removes only the blank is kept by the filter before it.\<close>

definition strip_blanks :: "string \<Rightarrow> string" where
  "strip_blanks s = rev (dropWhile (\<lambda>c. c = CHR '' '') (rev (dropWhile (\<lambda>c. c = CHR '' '') s)))"

definition sanitised :: "string \<Rightarrow> string" where
  "sanitised value =
     take MAX_LABEL_LENGTH (strip_blanks (filter (\<lambda>c. isalnum c \<or> c \<in> set LABEL_EXTRA_CHARS) value))"

definition describe_client :: "string option \<Rightarrow> string" where
  "describe_client user_agent =
     (case user_agent of
        None \<Rightarrow> UNKNOWN_CLIENT
      | Some [] \<Rightarrow> UNKNOWN_CLIENT
      | Some ua \<Rightarrow>
          (case (first_match BROWSERS ua, first_match PLATFORMS ua) of
             (Some browser, Some platform) \<Rightarrow> browser @ '' on '' @ platform
           | (Some browser, None) \<Rightarrow> browser
           | (None, Some platform) \<Rightarrow> platform
           | (None, None) \<Rightarrow>
               (let label = sanitised (takeWhile (\<lambda>c. c \<noteq> CHR ''/'') ua)
                in if label = [] then UNKNOWN_CLIENT else label)))"

subsection \<open>The directory\<close>

datatype session_cmd =
    ZAdd string "(string \<times> millis) list"
  | HSet string "(string \<times> bytes) list"
  | PExpire string millis
  | ZRem string "string list"
  | HDel string "string list"

record directory =
  sd_instance :: string
  sd_ttl_ms :: millis

definition new_directory :: "string \<Rightarrow> rat \<Rightarrow> directory" where
  "new_directory inst ttl_s = \<lparr>sd_instance = inst, sd_ttl_ms = max (py_int (fl (ttl_s * 1000))) 1\<rparr>"

definition session_meta :: "string \<Rightarrow> session_info \<Rightarrow> json" where
  "session_meta inst s =
     JObj [(''label'', JStr (si_label s)), (''connected_at'', JInt (to_epoch_ms (si_connected_at s))), (''instance'', JStr inst)]"

definition refresh :: "dumps \<Rightarrow> directory \<Rightarrow> millis \<Rightarrow> uuid \<Rightarrow> session_info list \<Rightarrow> session_cmd list" where
  "refresh dumps sd now u sessions =
     (if sessions = [] then []
      else
        [ZAdd (sessions_zset_key u) (map (\<lambda>s. (uuid_str (si_id s), now + sd_ttl_ms sd)) sessions),
         HSet (sessions_meta_key u) (map (\<lambda>s. (uuid_str (si_id s), dumps (session_meta (sd_instance sd) s))) sessions),
         PExpire (sessions_zset_key u) (sd_ttl_ms sd * 3), PExpire (sessions_meta_key u) (sd_ttl_ms sd * 3)])"

definition register :: "dumps \<Rightarrow> directory \<Rightarrow> millis \<Rightarrow> uuid \<Rightarrow> session_info \<Rightarrow> session_cmd list" where
  "register dumps sd now u session = refresh dumps sd now u [session]"

definition remove_session :: "uuid \<Rightarrow> uuid \<Rightarrow> session_cmd list" where
  "remove_session u session_id =
     [ZRem (sessions_zset_key u) [uuid_str session_id], HDel (sessions_meta_key u) [uuid_str session_id]]"

text \<open>
  \<^verbatim>\<open>_parse\<close>: \<open>str_of\<close> is \<^verbatim>\<open>str\<close> on a decoded value, \<open>int_of\<close> and \<open>uuid_of\<close> the two
  constructors on text; every exception the function catches gives \<open>None\<close>.
\<close>

record entry_readers =
  er_loads :: loads
  er_str_of :: "json \<Rightarrow> string"
  er_int_of :: "string \<Rightarrow> int option"
  er_uuid_of :: "string \<Rightarrow> uuid option"

definition parse_entry :: "entry_readers \<Rightarrow> string \<Rightarrow> bytes option \<Rightarrow> session_info option" where
  "parse_entry er member payload =
     (case payload of
        None \<Rightarrow> None
      | Some raw \<Rightarrow>
          (case er_loads er raw of
             Inr (JObj meta) \<Rightarrow>
               (case (er_uuid_of er member, map_of meta ''label'', map_of meta ''connected_at'') of
                  (Some i, Some label, Some at_json) \<Rightarrow>
                    (case to_int (er_int_of er) at_json of
                       Some ms \<Rightarrow> Some \<lparr>si_id = i, si_label = er_str_of er label, si_connected_at = from_epoch_ms ms\<rparr>
                     | None \<Rightarrow> None)
                | _ \<Rightarrow> None)
           | _ \<Rightarrow> None))"

text \<open>
  The reads of \<^verbatim>\<open>list_for\<close>: the members whose score is at most now, the others by score, and
  the payloads of those, in the same order. The result is what it removes and the sessions, oldest first.
\<close>

definition list_for :: "entry_readers \<Rightarrow> uuid \<Rightarrow> string list \<Rightarrow> (string \<times> bytes option) list \<Rightarrow> session_cmd list \<times> session_info list" where
  "list_for er u expired live =
     ((if expired = [] then [] else [ZRem (sessions_zset_key u) expired, HDel (sessions_meta_key u) expired]),
      sort_key si_connected_at (List.map_filter (\<lambda>(member, payload). parse_entry er member payload) live))"

subsection \<open>Properties\<close>

lemma set_strip_blanks: "set (strip_blanks s) \<subseteq> set s"
proof -
  have "set (dropWhile P xs) \<subseteq> set xs" for P and xs :: string using set_dropWhileD by fastforce
  from this [of "\<lambda>c. c = CHR '' ''" "rev (dropWhile (\<lambda>c. c = CHR '' '') s)"] this [of "\<lambda>c. c = CHR '' ''" s]
  show ?thesis by (simp add: strip_blanks_def)
qed

lemma first_match_in: "first_match table s = Some x \<Longrightarrow> x \<in> snd ` set table"
  by (auto simp: first_match_def find_Some_iff) (metis image_eqI nth_mem snd_conv)

definition plain_char :: "char \<Rightarrow> bool" where
  "plain_char c \<longleftrightarrow> isalnum c \<or> c \<in> set LABEL_EXTRA_CHARS"

lemma plain_sanitised: "list_all plain_char (sanitised s) \<and> length (sanitised s) \<le> 40"
proof -
  have "set (sanitised s) \<subseteq> set (filter plain_char s)"
    unfolding sanitised_def plain_char_def by (rule order_trans [OF set_take_subset set_strip_blanks])
  then show ?thesis by (auto simp: list_all_iff sanitised_def MAX_LABEL_LENGTH_def)
qed

lemma plain_tables: "list_all (\<lambda>e. snd e \<noteq> [] \<and> length (snd e) \<le> 10 \<and> list_all plain_char (snd e)) (BROWSERS @ PLATFORMS)"
  by code_simp

lemma first_match_plain:
  "first_match BROWSERS s = Some x \<or> first_match PLATFORMS s = Some x \<Longrightarrow> x \<noteq> [] \<and> length x \<le> 10 \<and> list_all plain_char x"
proof -
  assume "first_match BROWSERS s = Some x \<or> first_match PLATFORMS s = Some x"
  then have "x \<in> snd ` set (BROWSERS @ PLATFORMS)" using first_match_in by (metis Un_iff image_Un set_append)
  then obtain e where "e \<in> set (BROWSERS @ PLATFORMS)" "x = snd e" by (elim imageE)
  with plain_tables [unfolded list_all_iff, THEN bspec, of e] show ?thesis by (simp add: list_all_iff)
qed

text \<open>Whatever a client sends as its user agent, its label is not empty, has at most forty characters, and is
  made of letters, digits, blanks, dots, dashes and underscores only.\<close>

theorem label_is_short_and_plain:
  "describe_client ua \<noteq> [] \<and> length (describe_client ua) \<le> 40 \<and> list_all plain_char (describe_client ua)"
proof -
  have unknown: "UNKNOWN_CLIENT \<noteq> [] \<and> length UNKNOWN_CLIENT \<le> 40 \<and> list_all plain_char UNKNOWN_CLIENT" by code_simp
  show ?thesis
  proof (cases "ua = None \<or> ua = Some []")
    case True
    with unknown show ?thesis by (auto simp: describe_client_def)
  next
    case False
    then obtain c cs where ua: "ua = Some (c # cs)" by (metis list.exhaust option.exhaust)
    have on: "list_all plain_char '' on ''" by code_simp
    note plain = first_match_plain [of "c # cs"]
    show ?thesis
    proof (cases "first_match BROWSERS (c # cs)")
      case b: None
      show ?thesis
      proof (cases "first_match PLATFORMS (c # cs)")
        case None
        with b unknown plain_sanitised [of "takeWhile (\<lambda>c. c \<noteq> CHR ''/'') (c # cs)"]
        show ?thesis unfolding ua describe_client_def option.case list.case Let_def by (simp del: takeWhile.simps)
      qed (use b plain ua in \<open>fastforce simp: describe_client_def\<close>)
    next
      case b: (Some b)
      show ?thesis
      proof (cases "first_match PLATFORMS (c # cs)")
        case (Some p)
        with plain [of b] plain [of p] on b ua show ?thesis by (simp add: describe_client_def)
      qed (use b plain ua in \<open>fastforce simp: describe_client_def\<close>)
    qed
  qed
qed

text \<open>What one replica writes for a session another replica reads back: the same id and label, and the connect
  time without its sub-millisecond part.\<close>

theorem session_entry_round_trip:
  assumes "gives_back dumps (er_loads er) (session_meta inst s)" "er_str_of er (JStr (si_label s)) = si_label s"
    and "er_uuid_of er (uuid_str (si_id s)) = Some (si_id s)"
    and "epoch_lo * 1000 \<le> si_connected_at s" "si_connected_at s < epoch_hi * 1000"
  shows "parse_entry er (uuid_str (si_id s)) (Some (dumps (session_meta inst s))) =
    Some (s\<lparr>si_connected_at := si_connected_at s div 1000 * 1000\<rparr>)"
proof -
  have ms: "to_epoch_ms (si_connected_at s) = si_connected_at s div 1000" by (rule to_epoch_ms_window [OF assms(4, 5)])
  have "from_epoch_ms (si_connected_at s div 1000) = si_connected_at s div 1000 * 1000"
    by (rule from_epoch_ms_window) (use assms(4, 5) in \<open>simp_all add: epoch_lo_def epoch_hi_def\<close>)
  with assms(1-3) ms show ?thesis by (cases s) (simp add: parse_entry_def session_meta_def gives_back_def)
qed

definition sample_dashboard :: session_info where
  "sample_dashboard = \<lparr>si_id = 7, si_label = ''Firefox on Linux'', si_connected_at = 1700000000123456\<rparr>"

theorem session_entry_round_trip_witness:
  "parse_entry \<lparr>er_loads = (\<lambda>_. Inr (session_meta ''a-1'' sample_dashboard)), er_str_of = (\<lambda>j. ''Firefox on Linux''),
      er_int_of = (\<lambda>_. None), er_uuid_of = (\<lambda>_. Some 7)\<rparr> (uuid_str (si_id sample_dashboard))
     (Some (plain_dumps (session_meta ''a-1'' sample_dashboard))) =
   Some (sample_dashboard\<lparr>si_connected_at := si_connected_at sample_dashboard div 1000 * 1000\<rparr>)"
  by (rule session_entry_round_trip)
    (simp_all add: gives_back_def sample_dashboard_def epoch_lo_def epoch_hi_def)

end
