(* ===== verification/Budget.thy ===== *)
theory Budget
  imports PyFloat
begin

text \<open>
  The budgets for malformed messages, one in \<^verbatim>\<open>realtime/gateway.py\<close> and one in
  \<^verbatim>\<open>api/routes/ws_ingest.py\<close>. Both keep the times of the offences of a sliding window, in
  floating-point seconds; they differ in when they forget and in how they compare. The locale is
  what the two have in common: noting an offence leaves those still in the window and the new one.
\<close>

locale sliding_budget =
  fixes expired :: "rat \<Rightarrow> rat \<Rightarrow> bool" and note_at :: "rat \<Rightarrow> rat list \<Rightarrow> rat list"
  assumes expired_later: "t \<le> t' \<Longrightarrow> expired t e \<Longrightarrow> expired t' e"
    and note_window: "sorted es \<Longrightarrow> (\<forall>e \<in> set es. e \<le> t) \<Longrightarrow> note_at t es = filter (\<lambda>e. \<not> expired t e) es @ [t]"
begin

lemma window_of_run: "sorted (ts @ [t]) \<Longrightarrow> fold note_at (ts @ [t]) [] = filter (\<lambda>e. \<not> expired t e) ts @ [t]"
proof (induction ts arbitrary: t rule: rev_induct)
  case Nil
  then show ?case using note_window [of "[]" t] by simp
next
  case (snoc u ts)
  let ?es = "filter (\<lambda>e. \<not> expired u e) ts @ [u]"
  have s: "sorted (ts @ [u])" "u \<le> t" "\<forall>e \<in> set ts. e \<le> u" using snoc.prems by (auto simp: sorted_append)
  have "sorted ?es" "\<forall>e \<in> set ?es. e \<le> t" using s by (auto simp: sorted_append sorted_wrt_filter)
  from note_window [OF this] have "note_at t ?es = filter (\<lambda>e. \<not> expired t e) ?es @ [t]" .
  moreover have "filter (\<lambda>e. \<not> expired t e) (filter (\<lambda>e. \<not> expired u e) ts) = filter (\<lambda>e. \<not> expired t e) ts"
    using expired_later [OF s(2)] by (auto intro!: filter_cong)
  ultimately show ?case using snoc.IH [OF s(1)] by simp
qed

lemma window_length:
  "sorted (ts @ [t]) \<Longrightarrow> length (fold note_at (ts @ [t]) []) = length (filter (\<lambda>e. \<not> expired t e) ts) + 1"
  by (simp only: window_of_run) simp

end

lemma dropWhile_sorted:
  assumes "sorted (es :: rat list)" "\<And>e e'. e \<le> e' \<Longrightarrow> P e' \<Longrightarrow> P e"
  shows "dropWhile P es = filter (\<lambda>e. \<not> P e) es"
  using assms(1)
proof (induction es)
  case (Cons e es)
  show ?case
  proof (cases "P e")
    case False
    then have "filter (\<lambda>e. \<not> P e) es = es" using Cons.prems assms(2) by (auto simp: filter_id_conv)
    with False show ?thesis by simp
  qed (use Cons in simp)
qed simp

subsection \<open>The dashboard socket\<close>

definition MALFORMED_BUDGET :: nat where "MALFORMED_BUDGET = 20"
definition MALFORMED_WINDOW_S :: rat where "MALFORMED_WINDOW_S = 60"

definition violation_expired :: "rat \<Rightarrow> rat \<Rightarrow> bool" where
  "violation_expired now e \<longleftrightarrow> e < fl (now - MALFORMED_WINDOW_S)"

definition note_violation :: "rat \<Rightarrow> rat list \<Rightarrow> rat list" where
  "note_violation now violations = dropWhile (violation_expired now) violations @ [now]"

interpretation client_budget: sliding_budget violation_expired note_violation
proof
  show "violation_expired t' e" if "t \<le> t'" "violation_expired t e" for t t' e
    using that fl_mono [of "t - MALFORMED_WINDOW_S" "t' - MALFORMED_WINDOW_S"] by (simp add: violation_expired_def)
  show "note_violation t es = filter (\<lambda>e. \<not> violation_expired t e) es @ [t]" if "sorted es" "\<forall>e \<in> set es. e \<le> t" for es t
    using dropWhile_sorted [OF that(1), of "violation_expired t"] by (simp add: note_violation_def violation_expired_def)
qed

subsection \<open>The device socket\<close>

definition MALFORMED_LIMIT :: nat where "MALFORMED_LIMIT = 20"

definition event_expired :: "rat \<Rightarrow> rat \<Rightarrow> bool" where
  "event_expired now e \<longleftrightarrow> MALFORMED_WINDOW_S < fl (now - e)"

definition note_malformed :: "rat \<Rightarrow> rat list \<Rightarrow> rat list" where
  "note_malformed now events = dropWhile (event_expired now) (events @ [now])"

text \<open>\<^verbatim>\<open>MalformedBudget.record\<close> with the default limit and window.\<close>

definition record_malformed :: "rat \<Rightarrow> rat list \<Rightarrow> bool \<times> rat list" where
  "record_malformed now events = (length (note_malformed now events) \<le> MALFORMED_LIMIT, note_malformed now events)"

interpretation device_budget: sliding_budget event_expired note_malformed
proof
  show "event_expired t' e" if "t \<le> t'" "event_expired t e" for t t' e
    using that fl_mono [of "t - e" "t' - e"] by (simp add: event_expired_def)
  show "note_malformed t es = filter (\<lambda>e. \<not> event_expired t e) es @ [t]" if es: "sorted es" "\<forall>e \<in> set es. e \<le> t" for es t
  proof -
    have older: "event_expired t e" if "e \<le> e'" "event_expired t e'" for e e'
      using that fl_mono [of "t - e'" "t - e"] by (simp add: event_expired_def)
    have "fl 0 = 0" using fl_of_int [of 0] by simp
    then have "\<not> event_expired t t" by (simp add: event_expired_def MALFORMED_WINDOW_S_def)
    moreover have "sorted (es @ [t])" using es by (simp add: sorted_append)
    ultimately show ?thesis using dropWhile_sorted [of "es @ [t]" "event_expired t"] older
      by (simp add: note_malformed_def)
  qed
qed

text \<open>A client is cut off exactly when more than twenty malformed messages of its fell into the last minute,
  however many it sent before: this holds for dashboards and for devices, whose two budgets are
  written differently.\<close>

theorem malformed_budget_is_a_sliding_window:
  assumes "sorted (ts @ [t])"
  shows "(length (fold note_violation (ts @ [t]) []) \<le> MALFORMED_BUDGET \<longleftrightarrow>
      length (filter (\<lambda>e. fl (t - 60) \<le> e) ts) < 20) \<and>
    (fst (record_malformed t (fold note_malformed ts [])) \<longleftrightarrow> length (filter (\<lambda>e. fl (t - e) \<le> 60) ts) < 20)"
proof -
  have "length (fold note_malformed (ts @ [t]) []) = length (filter (\<lambda>e. \<not> event_expired t e) ts) + 1"
    by (rule device_budget.window_length [OF assms])
  moreover note client_budget.window_length [OF assms]
  ultimately show ?thesis
    by (auto simp: record_malformed_def MALFORMED_LIMIT_def MALFORMED_BUDGET_def violation_expired_def event_expired_def
        MALFORMED_WINDOW_S_def not_less)
qed

theorem malformed_budget_is_a_sliding_window_witness:
  "length (fold note_violation (map of_nat [0..<20] @ [20]) []) \<le> MALFORMED_BUDGET \<longleftrightarrow>
     length (filter (\<lambda>e. fl (20 - 60) \<le> e) (map of_nat [0..<20])) < 20"
proof -
  have "sorted (map of_nat [0..<20] @ [20 :: rat])" by code_simp
  from malformed_budget_is_a_sliding_window [OF this] show ?thesis by (rule conjunct1)
qed

end
