(* ===== verification/Gateway.thy ===== *)
theory Gateway
  imports Connection Bridge Sessions Budget
begin

text \<open>
  \<^verbatim>\<open>src/geotrack/realtime/gateway.py\<close> and \<^verbatim>\<open>src/geotrack/api/routes/ws_client.py\<close>: one replica of the
  realtime gateway. The connection objects are kept under the numbers by which the registry
  knows them; the hub is shared. Each loop of the gateway is one function for one turn, and what
  Redis, the socket and the clocks give in that turn are arguments.
\<close>

subsection \<open>Handshake and session cap\<close>

definition WS_SUBPROTOCOL :: string where "WS_SUBPROTOCOL = ''geotrack.v1''"
definition BEARER_PREFIX :: string where "BEARER_PREFIX = ''bearer.''"

fun token_from_handshake :: "string list \<Rightarrow> string option \<Rightarrow> string option" where
  "token_from_handshake [] access_token = access_token"
| "token_from_handshake (offered # rest) access_token =
     (if prefix BEARER_PREFIX offered then Some (drop (length BEARER_PREFIX) offered)
      else token_from_handshake rest access_token)"

text \<open>\<^verbatim>\<open>client_stream\<close> up to \<^verbatim>\<open>serve\<close>: the chosen subprotocol and the claims, or the close code. \<open>decode\<close> is \<^verbatim>\<open>decode_access_token\<close>.\<close>

definition client_stream :: "(string \<Rightarrow> 'e + 'claims) \<Rightarrow> string list \<Rightarrow> string option \<Rightarrow> string option \<times> (int + 'claims)" where
  "client_stream decode offered access_token =
     ((if WS_SUBPROTOCOL \<in> set offered then Some WS_SUBPROTOCOL else None),
      (case decode (case token_from_handshake offered access_token of None \<Rightarrow> [] | Some t \<Rightarrow> t) of
         Inl e \<Rightarrow> Inl CLOSE_UNAUTHORIZED
       | Inr claims \<Rightarrow> Inr claims))"

definition session_before :: "session_info \<Rightarrow> session_info \<Rightarrow> bool" where
  "session_before a b \<longleftrightarrow>
     si_connected_at a < si_connected_at b \<or> si_connected_at a = si_connected_at b \<and> si_id a < si_id b"

definition rank_of :: "uuid \<Rightarrow> session_info list \<Rightarrow> nat" where
  "rank_of session_id sessions =
     (case List.find (\<lambda>s. si_id s = session_id) sessions of
        None \<Rightarrow> 0
      | Some mine \<Rightarrow> length (filter (\<lambda>s. session_before s mine) sessions))"

text \<open>
  \<^verbatim>\<open>_session_joined\<close>: the commands and the frame it publishes, and the verdict. Redis may fail at
  the registration, at the listing or at the publication; a failure admits the session.
\<close>

record join_env =
  je_registers :: bool
  je_lists :: bool
  je_expired :: "string list"
  je_live :: "(string \<times> bytes option) list"

definition session_joined :: "dumps \<Rightarrow> (micros \<Rightarrow> string) \<Rightarrow> entry_readers \<Rightarrow> settings \<Rightarrow> directory \<Rightarrow> millis \<Rightarrow> join_env \<Rightarrow>
    uuid \<Rightarrow> session_info \<Rightarrow> bool \<times> session_cmd list \<times> (string \<times> bytes) list" where
  "session_joined dumps isofmt er s sd now env u session =
     (if \<not> je_registers env then (True, [], [])
      else let cmds = register dumps sd now u session in
        if \<not> je_lists env then (True, cmds, [])
        else (case list_for er u (je_expired env) (je_live env) of (cleanup, sessions) \<Rightarrow>
          if ws_max_sessions_per_user s \<le> int (rank_of (si_id session) sessions) then (False, cmds @ cleanup, [])
          else (True, cmds @ cleanup, [(user_channel u, sessions_frame dumps isofmt sessions)])))"

definition session_left :: "dumps \<Rightarrow> (micros \<Rightarrow> string) \<Rightarrow> entry_readers \<Rightarrow> join_env \<Rightarrow> uuid \<Rightarrow> uuid \<Rightarrow> session_cmd list \<times> (string \<times> bytes) list" where
  "session_left dumps isofmt er env u session_id =
     (if \<not> je_registers env then ([], [])
      else if \<not> je_lists env then (remove_session u session_id, [])
      else (case list_for er u (je_expired env) (je_live env) of (cleanup, sessions) \<Rightarrow>
        (remove_session u session_id @ cleanup, [(user_channel u, sessions_frame dumps isofmt sessions)])))"

subsection \<open>State\<close>

record gateway =
  gw_settings :: settings
  gw_hub :: hub
  gw_registry :: registry
  gw_conns :: "(int \<times> connection) list"
  gw_ticks :: int
  gw_updates_mark :: "int \<times> rat"

definition new_gateway :: "settings \<Rightarrow> gateway" where
  "new_gateway s =
     \<lparr>gw_settings = s, gw_hub = hub_init (ws_grid_cell_deg s) (ws_device_stale_s s), gw_registry = empty_registry,
      gw_conns = [], gw_ticks = 0, gw_updates_mark = (0, 0)\<rparr>"

text \<open>A method of some of the connections.\<close>

definition on_conns :: "int list \<Rightarrow> (connection \<Rightarrow> connection) \<Rightarrow> gateway \<Rightarrow> gateway" where
  "on_conns ids f g = g\<lparr>gw_conns := map (\<lambda>(k, c). (k, if k \<in> set ids then f c else c)) (gw_conns g)\<rparr>"

definition gw_deliver :: "uuid \<Rightarrow> bytes \<Rightarrow> gateway \<Rightarrow> gateway" where
  "gw_deliver u frame g = on_conns (for_user (gw_registry g) u) (send_control frame) g"

subsection \<open>Receiving\<close>

definition MAX_CLIENT_MESSAGE_BYTES :: int where "MAX_CLIENT_MESSAGE_BYTES = 16 * 1024"

text \<open>\<^verbatim>\<open>_reject\<close>; the flag says whether the client may stay.\<close>

definition reject :: "dumps \<Rightarrow> rat \<Rightarrow> string \<Rightarrow> string \<Rightarrow> rat list \<Rightarrow> connection \<Rightarrow> bool \<times> rat list \<times> connection" where
  "reject dumps now code detail violations c =
     (let vs = note_violation now violations in
      if MALFORMED_BUDGET < length vs
      then (False, vs, request_close CLOSE_PROTOCOL_ERROR ''too many malformed messages'' c)
      else (True, vs, send_control (error_frame dumps code detail None) c))"

text \<open>What \<^verbatim>\<open>websocket.receive\<close> gives: an error or a disconnect, a message without content, or a payload in bytes.\<close>

datatype client_input = Gone | NoContent | Payload bytes

record receive_env =
  re_dumps :: dumps
  re_loads :: loads
  re_float_of :: "string \<Rightarrow> pyfloat option"
  re_detail :: "protocol_error \<Rightarrow> string"

definition receive_step :: "receive_env \<Rightarrow> rat \<Rightarrow> millis \<Rightarrow> client_input \<Rightarrow> rat list \<times> connection \<Rightarrow> bool \<times> rat list \<times> connection" where
  "receive_step env now wall msg vc =
     (case vc of (violations, c) \<Rightarrow>
        (case msg of
           Gone \<Rightarrow> (False, violations, c)
         | NoContent \<Rightarrow> (True, violations, c)
         | Payload payload \<Rightarrow>
             if MAX_CLIENT_MESSAGE_BYTES < int (length payload) then
               reject (re_dumps env) now ''message_too_large'' ''messages are limited to 16384 bytes'' violations c
             else (case parse_client_message (re_float_of env) (re_loads env) payload of
                     Inl e \<Rightarrow> reject (re_dumps env) now ''bad_message'' (re_detail env e) violations c
                   | Inr (ViewportMessage b) \<Rightarrow> (True, violations, set_viewport b c)
                   | Inr (PingMessage t) \<Rightarrow> (True, violations, send_control (pong_frame (re_dumps env) t wall) c))))"

text \<open>The receive loop over the messages that come: it stops at the first verdict to end.\<close>

fun receive_loop :: "receive_env \<Rightarrow> (rat \<times> millis \<times> client_input) list \<Rightarrow> rat list \<times> connection \<Rightarrow> bool \<times> rat list \<times> connection" where
  "receive_loop env [] vc = (True, vc)"
| "receive_loop env ((now, wall, msg) # msgs) vc =
     (case receive_step env now wall msg vc of
        (False, vc') \<Rightarrow> (False, vc')
      | (True, vc') \<Rightarrow> receive_loop env msgs vc')"

subsection \<open>The loops\<close>

definition gw_fan_out :: "dumps \<Rightarrow> millis \<Rightarrow> gateway \<Rightarrow> gateway" where
  "gw_fan_out dumps t_ms g =
     (let watching = filter (\<lambda>k. case map_of (gw_conns g) k of None \<Rightarrow> False | Some c \<Rightarrow> wants_positions c)
                       (all_connections (gw_registry g)) in
      if watching = [] then g\<lparr>gw_hub := discard_pending (gw_hub g)\<rparr>
      else (case drain dumps t_ms (gw_hub g) of (delta, h) \<Rightarrow>
        if td_is_empty delta then g\<lparr>gw_hub := h\<rparr>
        else on_conns watching (offer_positions dumps delta) (g\<lparr>gw_hub := h\<rparr>)))"

definition py_round :: "rat \<Rightarrow> int" where
  "py_round x =
     (let f = \<lfloor>x\<rfloor>; d = x - of_int f in
      if d < 1/2 \<or> d = 1/2 \<and> even f then f else f + 1)"

definition tick_interval_s :: "settings \<Rightarrow> rat" where
  "tick_interval_s s = fl (of_int (ws_tick_ms s) / 1000)"

definition sweep_every :: "settings \<Rightarrow> int" where
  "sweep_every s = max 1 (py_round (fl (5 / tick_interval_s s)))"

definition next_tick_at :: "settings \<Rightarrow> rat \<Rightarrow> rat \<Rightarrow> rat" where
  "next_tick_at s next_tick now = max (fl (next_tick + tick_interval_s s)) now"

definition position_tick :: "dumps \<Rightarrow> millis \<Rightarrow> gateway \<Rightarrow> gateway" where
  "position_tick dumps moment g =
     (let g1 = g\<lparr>gw_ticks := gw_ticks g + 1\<rparr>;
          g2 = (if gw_ticks g1 mod sweep_every (gw_settings g1) = 0 then g1\<lparr>gw_hub := sweep moment (gw_hub g1)\<rparr> else g1)
      in gw_fan_out dumps moment g2)"

definition stats_tick :: "dumps \<Rightarrow> (rat \<Rightarrow> rat) \<Rightarrow> millis \<Rightarrow> rat \<Rightarrow> int \<Rightarrow> gateway \<Rightarrow> gateway" where
  "stats_tick dumps round1 wall now backlog g =
     (let ids = all_connections (gw_registry g); updates = hb_updates (gw_hub g);
          (previous_updates, previous_at) = gw_updates_mark g;
          g1 = g\<lparr>gw_updates_mark := (updates, now)\<rparr> in
      if ids = [] then g1
      else on_conns ids (send_control (stats_frame dumps round1 wall (int (length (hb_latest (gw_hub g))))
             (fl (of_int (updates - previous_updates) / max (fl (now - previous_at)) (fl (1 / 1000000))))
             (int (length ids)) backlog)) g1)"

text \<open>One user's turn of the sessions loop: the commands of the heartbeat and the list for the local clients.\<close>

definition heartbeat :: "dumps \<Rightarrow> (micros \<Rightarrow> string) \<Rightarrow> entry_readers \<Rightarrow> directory \<Rightarrow> millis \<Rightarrow> join_env \<Rightarrow> uuid \<Rightarrow> gateway \<Rightarrow> session_cmd list \<times> gateway" where
  "heartbeat dumps isofmt er sd now env u g =
     (let ids = filter (\<lambda>k. case map_of (gw_conns g) k of None \<Rightarrow> False | Some c \<Rightarrow> cn_user_id c = u) (all_connections (gw_registry g));
          sessions = map (\<lambda>k. cn_session (the (map_of (gw_conns g) k))) ids in
      if \<not> je_registers env then ([], g)
      else if \<not> je_lists env then (refresh dumps sd now u sessions, g)
      else (case list_for er u (je_expired env) (je_live env) of (cleanup, listed) \<Rightarrow>
        (refresh dumps sd now u sessions @ cleanup, on_conns ids (send_control (sessions_frame dumps isofmt listed)) g)))"

definition gw_stop :: "gateway \<Rightarrow> gateway" where
  "gw_stop g = on_conns (all_connections (gw_registry g)) (request_close 1001 ''server shutting down'') g"

subsection \<open>One client from admission to cleanup\<close>

definition admit :: "int \<Rightarrow> uuid \<Rightarrow> session_info \<Rightarrow> gateway \<Rightarrow> bool \<times> gateway" where
  "admit k u session g =
     (case add_connection (ws_max_sessions_per_user (gw_settings g)) u k (gw_registry g) of
        (False, r) \<Rightarrow> (False, g\<lparr>gw_registry := r\<rparr>)
      | (True, r) \<Rightarrow> (True, g\<lparr>gw_registry := r, gw_conns := AList.update k (new_connection u session (gw_settings g)) (gw_conns g)\<rparr>))"

text \<open>
  The \<^verbatim>\<open>finally\<close> of \<^verbatim>\<open>serve\<close>: the close code that the socket gets, if it can still be written.
\<close>

definition cleanup :: "int \<Rightarrow> uuid \<Rightarrow> gateway \<Rightarrow> (int \<times> string) option \<times> gateway" where
  "cleanup k u g =
     (case map_of (gw_conns g) k of
        None \<Rightarrow> (None, g)
      | Some c \<Rightarrow>
          (case aclose (request_close (cn_close_code c) (cn_close_reason c) c) of (sent, c') \<Rightarrow>
             (sent, g\<lparr>gw_registry := remove_connection u k (gw_registry g), gw_conns := AList.delete k (gw_conns g)\<rparr>)))"

datatype gw_event =
    Positions "position_item list"
  | UserFrame uuid bytes
  | PositionTick millis
  | StatsTick millis rat int
  | Admit int uuid session_info
  | Cleanup int uuid
  | Incoming int rat millis client_input "rat list"
  | ClientSender int millis
  | ClientWrite int outcome
  | Stop

fun gw_step :: "receive_env \<Rightarrow> (bytes \<Rightarrow> bool) \<Rightarrow> (rat \<Rightarrow> rat) \<Rightarrow> gw_event \<Rightarrow> gateway \<Rightarrow> gateway" where
  "gw_step env utf8 round1 (Positions items) g = g\<lparr>gw_hub := hub_apply items (gw_hub g)\<rparr>"
| "gw_step env utf8 round1 (UserFrame u frame) g = gw_deliver u frame g"
| "gw_step env utf8 round1 (PositionTick moment) g = position_tick (re_dumps env) moment g"
| "gw_step env utf8 round1 (StatsTick wall now backlog) g = stats_tick (re_dumps env) round1 wall now backlog g"
| "gw_step env utf8 round1 (Admit k u session) g = snd (admit k u session g)"
| "gw_step env utf8 round1 (Cleanup k u) g = snd (cleanup k u g)"
| "gw_step env utf8 round1 (Incoming k now wall msg violations) g =
     on_conns [k] (\<lambda>c. snd (snd (receive_step env now wall msg (violations, c)))) g"
| "gw_step env utf8 round1 (ClientSender k now) g =
     (case map_of (gw_conns g) k of
        None \<Rightarrow> g
      | Some c \<Rightarrow> (case sender_run (re_dumps env) (re_loads env) utf8 now (gw_hub g) c of (c', h) \<Rightarrow>
          g\<lparr>gw_hub := h, gw_conns := AList.update k c' (gw_conns g)\<rparr>))"
| "gw_step env utf8 round1 (ClientWrite k out) g = on_conns [k] (write_result out) g"
| "gw_step env utf8 round1 Stop g = gw_stop g"

subsection \<open>The cap across replicas\<close>

lemma session_before_trans: "session_before a b \<Longrightarrow> session_before b c \<Longrightarrow> session_before a c"
  by (auto simp: session_before_def)

lemma session_before_total: "si_id a \<noteq> si_id b \<Longrightarrow> session_before a b \<or> session_before b a"
  by (auto simp: session_before_def)

lemma session_before_irrefl [simp]: "\<not> session_before a a"
  by (simp add: session_before_def)

lemma rank_of_card:
  assumes "distinct (map si_id sessions)" "s \<in> set sessions"
  shows "rank_of (si_id s) sessions = card {x \<in> set sessions. session_before x s}"
proof -
  have "List.find (\<lambda>x. si_id x = si_id s) sessions = Some s"
    using assms by (induction sessions) (auto simp: rev_image_eqI)
  moreover have "distinct sessions" using assms(1) by (simp add: distinct_map)
  ultimately show ?thesis by (simp add: rank_of_def distinct_card [symmetric])
qed

lemma rank_of_less:
  assumes "distinct (map si_id sessions)" "a \<in> set sessions" "b \<in> set sessions" "session_before a b"
  shows "rank_of (si_id a) sessions < rank_of (si_id b) sessions"
proof -
  have "{x \<in> set sessions. session_before x a} \<subset> {x \<in> set sessions. session_before x b}"
    using assms(2, 4) session_before_trans by force
  then show ?thesis unfolding rank_of_card [OF assms(1, 2)] rank_of_card [OF assms(1, 3)]
    by (intro psubset_card_mono) auto
qed

lemma ranks_are_positions:
  assumes "distinct (map si_id sessions)"
  shows "bij_betw (\<lambda>s. rank_of (si_id s) sessions) (set sessions) {..<length sessions}"
proof -
  let ?r = "\<lambda>s. rank_of (si_id s) sessions"
  have inj: "inj_on ?r (set sessions)"
  proof (rule inj_onI)
    fix a b assume ab: "a \<in> set sessions" "b \<in> set sessions" "?r a = ?r b"
    with rank_of_less [OF assms] session_before_total have "si_id a = si_id b" by (metis less_irrefl)
    with ab(1, 2) assms show "a = b" by (auto simp: distinct_map dest: inj_onD)
  qed
  have card: "card (set sessions) = length sessions" using assms by (simp add: distinct_map distinct_card)
  have "?r s < length sessions" if "s \<in> set sessions" for s
  proof -
    have "s \<notin> {x \<in> set sessions. session_before x s}" by simp
    with that have "{x \<in> set sessions. session_before x s} \<subset> set sessions" by blast
    from psubset_card_mono [OF _ this] show ?thesis unfolding rank_of_card [OF assms that] card by simp
  qed
  then have "?r ` set sessions \<subseteq> {..<length sessions}" by auto
  with inj card have "?r ` set sessions = {..<length sessions}" by (intro card_subset_eq) (simp_all add: card_image)
  with inj show ?thesis by (simp add: bij_betw_def)
qed

lemma ranks_admit_the_oldest:
  fixes cap :: nat
  assumes "distinct (map si_id sessions)"
  defines "admitted \<equiv> {s \<in> set sessions. rank_of (si_id s) sessions < cap}"
  shows "card admitted = min cap (length sessions) \<and>
    (\<forall>a b. a \<in> admitted \<longrightarrow> b \<in> set sessions - admitted \<longrightarrow> session_before a b)"
proof -
  let ?r = "\<lambda>s. rank_of (si_id s) sessions"
  note bij = ranks_are_positions [OF assms(1)]
  have "bij_betw ?r admitted ({..<length sessions} \<inter> {..<cap})"
    using bij unfolding bij_betw_def admitted_def by (auto intro: inj_on_subset)
  then have "card admitted = card ({..<length sessions} \<inter> {..<cap})" by (rule bij_betw_same_card)
  also have "{..<length sessions} \<inter> {..<cap} = {..<min cap (length sessions)}" by auto
  finally have "card admitted = min cap (length sessions)" by simp
  moreover have "session_before a b" if "a \<in> admitted" "b \<in> set sessions - admitted" for a b
  proof -
    from that have ab: "a \<in> set sessions" "b \<in> set sessions" "?r a < ?r b" by (auto simp: admitted_def)
    then have "si_id a \<noteq> si_id b" by auto
    with ab rank_of_less [OF assms(1) ab(2, 1)] session_before_total show ?thesis by (meson not_less_iff_gr_or_eq)
  qed
  ultimately show ?thesis by blast
qed

lemma session_joined_verdict:
  assumes "je_registers env" "je_lists env"
  shows "fst (session_joined dumps isofmt er s sd now env u x) \<longleftrightarrow>
    int (rank_of (si_id x) (snd (list_for er u (je_expired env) (je_live env)))) < ws_max_sessions_per_user s"
  using assms by (auto simp: session_joined_def Let_def split: prod.splits)

text \<open>(C22) Replicas that admit a user at the same time agree on who is surplus: of the sessions that the shared
  directory lists, each announced by its own replica with its own copy of the session, its own clock and its
  own settings of the directory, exactly as many are admitted as the cap allows, and every admitted session is
  older than every refused one.\<close>

theorem session_cap_holds_across_replicas:
  fixes dumps :: dumps and isofmt :: "micros \<Rightarrow> string" and sd :: "session_info \<Rightarrow> directory" and now :: "session_info \<Rightarrow> millis"
    and er :: entry_readers and s :: settings and env :: join_env and u :: uuid and sessions :: "session_info list" and own :: "session_info \<Rightarrow> session_info"
  assumes "valid_settings s" "je_registers env" "je_lists env"
    and "snd (list_for er u (je_expired env) (je_live env)) = sessions" "distinct (map si_id sessions)"
    and "\<forall>x \<in> set sessions. si_id (own x) = si_id x"
  defines "admitted \<equiv> {x \<in> set sessions. fst (session_joined dumps isofmt er s (sd x) (now x) env u (own x))}"
  shows "int (card admitted) = min (ws_max_sessions_per_user s) (int (length sessions)) \<and>
    (\<forall>a b. a \<in> admitted \<longrightarrow> b \<in> set sessions - admitted \<longrightarrow> session_before a b)"
proof -
  have cap: "0 \<le> ws_max_sessions_per_user s" using assms(1) by (simp add: valid_settings_checks field_checks_def)
  have "admitted = {x \<in> set sessions. rank_of (si_id x) sessions < nat (ws_max_sessions_per_user s)}"
    using assms(4, 6) cap unfolding admitted_def session_joined_verdict [OF assms(2, 3)] by (auto simp: zless_nat_conj)
  with ranks_admit_the_oldest [OF assms(5), of "nat (ws_max_sessions_per_user s)"] cap show ?thesis by auto
qed

definition two_sessions :: "(string \<times> bytes option) list" where
  "two_sessions = [(''b'', Some ''2''), (''a'', Some ''1'')]"

definition two_readers :: entry_readers where
  "two_readers = \<lparr>er_loads = (\<lambda>b. Inr (JObj [(''label'', JStr []), (''connected_at'', JInt 0)])), er_str_of = (\<lambda>_. []),
     er_int_of = (\<lambda>_. None), er_uuid_of = (\<lambda>m. Some (if m = ''a'' then 1 else 2))\<rparr>"

theorem session_cap_holds_across_replicas_witness:
  "int (card {x \<in> set (snd (list_for two_readers 7 [] two_sessions)).
     fst (session_joined plain_dumps (\<lambda>_. []) two_readers (default_settings\<lparr>ws_max_sessions_per_user := 1\<rparr>) (new_directory [] 30) 0
       \<lparr>je_registers = True, je_lists = True, je_expired = [], je_live = two_sessions\<rparr> 7 x)}) = 1"
proof -
  have l: "snd (list_for two_readers 7 [] two_sessions) =
      [\<lparr>si_id = 2, si_label = [], si_connected_at = 0\<rparr>, \<lparr>si_id = 1, si_label = [], si_connected_at = 0\<rparr>]"
    by code_simp
  have v: "valid_settings (default_settings\<lparr>ws_max_sessions_per_user := 1\<rparr>)" by code_simp
  show ?thesis
    using session_cap_holds_across_replicas [OF v, of "\<lparr>je_registers = True, je_lists = True, je_expired = [], je_live = two_sessions\<rparr>"
        two_readers 7 _ id plain_dumps "\<lambda>_. []" "\<lambda>_. new_directory [] 30" "\<lambda>_. 0"]
    by (simp add: l)
qed

subsection \<open>The invariant of a replica\<close>

definition client_ok :: "settings \<Rightarrow> connection \<Rightarrow> bool" where
  "client_ok s c \<longleftrightarrow> conn_inv c \<and> cn_control_max c = ws_control_queue_max s"

definition gw_inv :: "dumps \<Rightarrow> gateway \<Rightarrow> bool" where
  "gw_inv dumps g \<longleftrightarrow>
     valid_settings (gw_settings g) \<and> hub_inv dumps (gw_hub g) \<and>
     registry_inv (ws_max_sessions_per_user (gw_settings g)) (gw_registry g) \<and>
     (\<forall>e \<in> set (gw_conns g). client_ok (gw_settings g) (snd e))"

lemma control_max_kept [simp]:
  "cn_control_max (set_viewport b c) = cn_control_max c" "cn_control_max (offer_positions dumps d c) = cn_control_max c"
  "cn_control_max (request_close code reason c) = cn_control_max c" "cn_control_max (send_control f c) = cn_control_max c"
  "cn_control_max (write_result out c) = cn_control_max c" "cn_control_max (begin_write loads utf8 f c) = cn_control_max c"
  by (auto simp: set_viewport_def offer_positions_def request_close_def send_control_def write_result_def begin_write_def
      Let_def split: option.splits phase.splits outcome.splits)

lemma client_ok_sender_run:
  assumes "client_ok s c"
  shows "client_ok s (fst (sender_run dumps loads utf8 now h c))"
proof -
  have "cn_control_max (fst (sender_run dumps loads utf8 now h c)) = cn_control_max c"
  proof (cases "cn_phase c")
    case Draining
    obtain f c' h' where n: "next_frame dumps now h c = (f, c', h')" by (metis prod_cases3)
    then have "cn_control_max c' = cn_control_max c" by (cases rule: next_frame_cases) auto
    with n Draining show ?thesis by (simp add: sender_run_def split: option.splits)
  qed (simp_all add: sender_run_def)
  with assms conn_inv_sender_run [of c] show ?thesis by (simp add: client_ok_def)
qed

lemma hub_inv_sender_run:
  assumes "hub_inv dumps h"
  shows "hub_inv dumps (snd (sender_run dumps loads utf8 now h c))"
proof -
  have "hub_inv dumps (snd (snapshot_chunks dumps vp h))" for vp
    by (rule snapshot_chunks_result [OF assms, of vp]) simp
  then have "hub_inv dumps (snd (snd (next_frame dumps now h c)))"
    using assms by (auto simp: next_frame_def split: list.splits option.splits bool.splits prod.splits) (metis snd_conv)+
  with assms show ?thesis
    by (cases "cn_phase c") (auto simp: sender_run_def split: prod.splits option.splits)
qed

lemma client_ok_new: "valid_settings s \<Longrightarrow> client_ok s (new_connection u si s)"
  using conn_inv_new [of s u si] by (simp add: client_ok_def) (simp add: new_connection_def)

lemma client_ok_receive: "client_ok s c \<Longrightarrow> client_ok s (snd (snd (receive_step env now wall msg (vs, c))))"
  by (auto simp: client_ok_def receive_step_def reject_def Let_def
      intro: conn_inv_set_viewport conn_inv_send_control conn_inv_request_close
      split: client_input.splits sum.splits client_message.splits)

lemma gw_inv_on_conns:
  assumes "gw_inv dumps g" "\<And>c. client_ok (gw_settings g) c \<Longrightarrow> client_ok (gw_settings g) (f c)"
  shows "gw_inv dumps (on_conns ids f g)"
  using assms by (auto simp: gw_inv_def on_conns_def)

lemma client_ok_ops:
  "client_ok s c \<Longrightarrow> client_ok s (send_control frame c)" "client_ok s c \<Longrightarrow> client_ok s (request_close code reason c)"
  "client_ok s c \<Longrightarrow> client_ok s (write_result out c)" "client_ok s c \<Longrightarrow> client_ok s (offer_positions dumps delta c)"
  by (auto simp: client_ok_def intro: conn_inv_send_control conn_inv_request_close conn_inv_write_result conn_inv_offer)

lemma gw_inv_fan_out: "gw_inv dumps g \<Longrightarrow> gw_inv dumps (gw_fan_out dumps t g)"
proof -
  assume inv: "gw_inv dumps g"
  then have "gw_inv dumps (g\<lparr>gw_hub := clear_pending (gw_hub g)\<rparr>)" by (auto simp: gw_inv_def intro: hub_inv_clear)
  then show ?thesis unfolding gw_fan_out_def Let_def drain_def discard_pending_def
    by (auto intro!: gw_inv_on_conns client_ok_ops(4))
qed

lemma gw_inv_admit: "gw_inv dumps g \<Longrightarrow> gw_inv dumps (snd (admit k u si g))"
  using registry_inv_add [of "ws_max_sessions_per_user (gw_settings g)" "gw_registry g" u k]
    set_update_entries [of k "new_connection u si (gw_settings g)" "gw_conns g"]
  by (auto simp: admit_def gw_inv_def client_ok_new split: prod.splits bool.splits)

lemma gw_inv_cleanup: "gw_inv dumps g \<Longrightarrow> gw_inv dumps (snd (cleanup k u g))"
  using set_delete_entries [of k "gw_conns g"]
  by (auto simp: cleanup_def gw_inv_def registry_inv_remove split: option.splits prod.splits)

lemma gw_inv_step:
  assumes inv: "gw_inv (re_dumps env) g"
  shows "gw_inv (re_dumps env) (gw_step env utf8 round1 e g)"
proof (cases e)
  case (Positions items)
  with inv show ?thesis by (auto simp: gw_inv_def intro: hub_inv_apply)
next
  case (UserFrame u frame)
  with inv show ?thesis by (simp add: gw_deliver_def gw_inv_on_conns client_ok_ops)
next
  case (PositionTick moment)
  have "gw_inv (re_dumps env) (g\<lparr>gw_ticks := n, gw_hub := sweep moment (gw_hub g)\<rparr>)" "gw_inv (re_dumps env) (g\<lparr>gw_ticks := n\<rparr>)" for n
    using inv by (auto simp: gw_inv_def intro: hub_inv_sweep)
  with PositionTick show ?thesis by (simp add: position_tick_def Let_def gw_inv_fan_out)
next
  case (StatsTick wall now backlog)
  have "gw_inv (re_dumps env) (g\<lparr>gw_updates_mark := m\<rparr>)" for m using inv by (simp add: gw_inv_def)
  with StatsTick show ?thesis by (auto simp: stats_tick_def Let_def intro!: gw_inv_on_conns client_ok_ops split: prod.splits)
next
  case (ClientSender k now)
  show ?thesis
  proof (cases "map_of (gw_conns g) k")
    case (Some c)
    have "client_ok (gw_settings g) c" using inv map_of_SomeD [OF Some] by (auto simp: gw_inv_def)
    from client_ok_sender_run [OF this] hub_inv_sender_run [of "re_dumps env" "gw_hub g"] ClientSender Some inv
      set_update_entries [of k "fst (sender_run (re_dumps env) (re_loads env) utf8 now (gw_hub g) c)" "gw_conns g"]
    show ?thesis by (auto simp: gw_inv_def case_prod_unfold)
  qed (use inv ClientSender in simp)
qed (use inv in \<open>auto intro!: gw_inv_on_conns client_ok_ops client_ok_receive gw_inv_admit gw_inv_cleanup simp: gw_stop_def\<close>)

interpretation gw: step_system "gw_step env utf8 round1" "gw_inv (re_dumps env)" for env utf8 round1
  by unfold_locales (rule gw_inv_step)

lemma gw_inv_new: "valid_settings s \<Longrightarrow> gw_inv dumps (new_gateway s)"
  by (simp add: gw_inv_def new_gateway_def hub_inv_init registry_inv_empty)

text \<open>(C23) A replica's memory per client is bounded whatever happens: after any sequence of position messages, user
  frames, ticks, admissions, client messages, writes and disconnects, every client has at most
  \<^verbatim>\<open>ws_control_queue_max\<close> control frames and one position frame waiting, no user has more sessions than
  the cap, and a snapshot taken from the shared cache is the current picture.\<close>

theorem replica_stays_consistent:
  fixes env :: receive_env and utf8 :: "bytes \<Rightarrow> bool" and round1 :: "rat \<Rightarrow> rat" and es :: "gw_event list"
  assumes "valid_settings s"
  defines "g \<equiv> fold (gw_step env utf8 round1) es (new_gateway s)"
  shows "(\<forall>k c. map_of (gw_conns g) k = Some c \<longrightarrow>
       int (length (cn_control c)) \<le> ws_control_queue_max (gw_settings g) \<and> \<not> (cn_needs_snapshot c \<and> cn_pending_delta c \<noteq> None)) \<and>
     int (length (for_user (gw_registry g) u)) \<le> ws_max_sessions_per_user (gw_settings g) \<and>
     fst (snapshot_chunks (re_dumps env) rects (gw_hub g)) = map (encode_chunk (re_dumps env)) (snapshot_groups rects (gw_hub g))"
proof -
  have inv: "gw_inv (re_dumps env) g" unfolding g_def by (intro gw.run_keeps gw_inv_new assms(1))
  have clients: "int (length (cn_control c)) \<le> ws_control_queue_max (gw_settings g) \<and> \<not> (cn_needs_snapshot c \<and> cn_pending_delta c \<noteq> None)"
    if "map_of (gw_conns g) k = Some c" for k c
    using inv map_of_SomeD [OF that] by (auto simp: gw_inv_def client_ok_def conn_inv_def)
  have "1 \<le> ws_max_sessions_per_user (gw_settings g)"
    using inv by (auto simp: gw_inv_def valid_settings_checks field_checks_def)
  then have "int (length (for_user (gw_registry g) u)) \<le> ws_max_sessions_per_user (gw_settings g)"
    using inv for_user_ok(2) [of "ws_max_sessions_per_user (gw_settings g)" "gw_registry g" u]
    by (simp add: gw_inv_def registry_inv_def)
  moreover have "fst (snapshot_chunks (re_dumps env) rects (gw_hub g)) = map (encode_chunk (re_dumps env)) (snapshot_groups rects (gw_hub g))"
    by (rule snapshot_chunks_result [of "re_dumps env" "gw_hub g" rects]) (use inv in \<open>simp_all add: gw_inv_def\<close>)
  ultimately show ?thesis using clients by blast
qed

definition sample_receive_env :: receive_env where
  "sample_receive_env = \<lparr>re_dumps = plain_dumps, re_loads = no_json, re_float_of = (\<lambda>_. None), re_detail = (\<lambda>_. ''bad'')\<rparr>"

theorem replica_stays_consistent_witness:
  "int (length (for_user (gw_registry (fold (gw_step sample_receive_env (\<lambda>_. True) id) [Admit 1 7 sample_dashboard] (new_gateway default_settings))) 7))
     \<le> ws_max_sessions_per_user (gw_settings (fold (gw_step sample_receive_env (\<lambda>_. True) id) [Admit 1 7 sample_dashboard] (new_gateway default_settings)))"
  using replica_stays_consistent [OF default_settings_valid, of sample_receive_env "\<lambda>_. True" id "[Admit 1 7 sample_dashboard]"] by blast

end
