(* ===== verification/Ingest.thy ===== *)
theory Ingest
  imports Codec Clock Sharding Settings Protocol Budget "HOL-Library.Sublist"
begin

text \<open>
  The edge that takes device reports: \<^verbatim>\<open>schemas/ingest.py\<close>, \<^verbatim>\<open>ingest/backlog.py\<close>,
  \<^verbatim>\<open>ingest/service.py\<close>, \<^verbatim>\<open>ingest/shards.py\<close>, the HTTP route \<^verbatim>\<open>api/routes/ingest.py\<close>
  and the key check of \<^verbatim>\<open>api/deps.py\<close>. JSON decoding and type coercion by pydantic are the
  argument \<open>pydantic\<close>; the constraints that the schemas declare are definitions. Redis is the list of
  entries that the pipeline appends, and whether it fails.
\<close>

subsection \<open>Reports\<close>

definition MAX_REPORT_BYTES :: int where "MAX_REPORT_BYTES = 256"
definition MIN_PAYLOAD_BYTES :: int where "MIN_PAYLOAD_BYTES = 8 * 1024"

text \<open>A timestamp as it was sent: without a zone, or with an offset to UTC.\<close>

datatype stamp = Naive micros | Aware micros micros

fun as_utc :: "stamp \<Rightarrow> micros" where
  "as_utc (Naive t) = t"
| "as_utc (Aware t offset) = t - offset"

record raw_report =
  rr_device_id :: device_id
  rr_latitude :: pyfloat
  rr_longitude :: pyfloat
  rr_timestamp :: stamp

record location_report =
  re_device_id :: device_id
  re_latitude :: rat
  re_longitude :: rat
  re_timestamp :: micros

record validation_error =
  ve_type :: string
  ve_loc :: "string list"
  ve_msg :: string
  ve_actual_length :: "int option"

definition device_id_char :: "char \<Rightarrow> bool" where
  "device_id_char c \<longleftrightarrow>
     (let n = of_char c :: nat in 65 \<le> n \<and> n \<le> 90 \<or> 97 \<le> n \<and> n \<le> 122 \<or> 48 \<le> n \<and> n \<le> 57) \<or> c \<in> set ''._:-''"

definition DeviceId_ok :: "device_id \<Rightarrow> bool" where
  "DeviceId_ok d \<longleftrightarrow> 1 \<le> length d \<and> length d \<le> 64 \<and> list_all device_id_char d"

definition in_range :: "rat \<Rightarrow> pyfloat \<Rightarrow> rat option" where
  "in_range bound f = (case f of Fin x \<Rightarrow> if - bound \<le> x \<and> x \<le> bound then Some x else None | _ \<Rightarrow> None)"

text \<open>
  \<^verbatim>\<open>LocationReport\<close>: the constraints of its fields and the validator of its timestamp. How pydantic
  words the violations is the argument \<open>violations\<close>.
\<close>

definition LocationReport :: "(string list \<Rightarrow> raw_report \<Rightarrow> validation_error list) \<Rightarrow> string list \<Rightarrow> raw_report \<Rightarrow> validation_error list + location_report" where
  "LocationReport violations loc r =
     (case (in_range 90 (rr_latitude r), in_range 180 (rr_longitude r)) of
        (Some la, Some lo) \<Rightarrow>
          if DeviceId_ok (rr_device_id r)
          then Inr \<lparr>re_device_id = rr_device_id r, re_latitude = la, re_longitude = lo, re_timestamp = as_utc (rr_timestamp r)\<rparr>
          else Inl (violations loc r)
      | _ \<Rightarrow> Inl (violations loc r))"

text \<open>What pydantic makes of the bytes before the constraints: an element of a list may fail on its own.\<close>

type_synonym element = "validation_error list + raw_report"

record pydantic =
  pd_report :: "bytes \<Rightarrow> validation_error list + raw_report"
  pd_items :: "bytes \<Rightarrow> validation_error list + element list"
  pd_envelope :: "bytes \<Rightarrow> validation_error list + int option \<times> element list"
  pd_violations :: "string list \<Rightarrow> raw_report \<Rightarrow> validation_error list"
  pd_too_long :: "int \<Rightarrow> int \<Rightarrow> validation_error"

definition validate_element :: "pydantic \<Rightarrow> nat \<Rightarrow> element \<Rightarrow> validation_error list + location_report" where
  "validate_element pd i r =
     (case r of Inl es \<Rightarrow> Inl es | Inr raw \<Rightarrow> LocationReport (pd_violations pd) [''items'', str_int (int i)] raw)"

fun validate_each :: "pydantic \<Rightarrow> nat \<Rightarrow> element list \<Rightarrow> validation_error list + location_report list" where
  "validate_each pd i [] = Inr []"
| "validate_each pd i (r # rs) =
     (case (validate_element pd i r, validate_each pd (Suc i) rs) of
        (Inr x, Inr xs) \<Rightarrow> Inr (x # xs)
      | (Inl e, Inr xs) \<Rightarrow> Inl e
      | (Inr x, Inl es) \<Rightarrow> Inl es
      | (Inl e, Inl es) \<Rightarrow> Inl (e @ es))"

text \<open>The bounded list of \<^verbatim>\<open>_batch_adapters\<close>: its length is checked before any element becomes a model.\<close>

definition bounded_items :: "pydantic \<Rightarrow> int \<Rightarrow> element list \<Rightarrow> validation_error list + location_report list" where
  "bounded_items pd max_items rs =
     (if max_items < int (length rs) then Inl [pd_too_long pd (int (length rs)) max_items] else validate_each pd 0 rs)"

datatype parse_error =
    EmptyPayload | NoReports | BatchTooLarge int int | Invalid "validation_error list"

definition batch_limit_error :: "validation_error list \<Rightarrow> int \<Rightarrow> parse_error option" where
  "batch_limit_error errors limit =
     map_option (\<lambda>e. BatchTooLarge (case ve_actual_length e of None \<Rightarrow> limit + 1 | Some n \<Rightarrow> n) limit)
       (List.find (\<lambda>e. ve_type e = ''too_long'') errors)"

definition blank :: "char \<Rightarrow> bool" where
  "blank c \<longleftrightarrow> c \<in> set [CHR '' '', CHR 0x09, CHR 0x0A, CHR 0x0B, CHR 0x0C, CHR 0x0D]"

definition validate_payload :: "pydantic \<Rightarrow> bytes \<Rightarrow> bytes \<Rightarrow> int \<Rightarrow> validation_error list + int option \<times> location_report list" where
  "validate_payload pd data stripped max_items =
     (if take 1 stripped = ''['' then
        (case pd_items pd data of
           Inl e \<Rightarrow> Inl e
         | Inr rs \<Rightarrow> (case bounded_items pd max_items rs of Inl e \<Rightarrow> Inl e | Inr items \<Rightarrow> Inr (None, items)))
      else if sublist (quoted ''items'') stripped then
        (case pd_envelope pd data of
           Inl e \<Rightarrow> Inl e
         | Inr (seq, rs) \<Rightarrow> (case bounded_items pd max_items rs of Inl e \<Rightarrow> Inl e | Inr items \<Rightarrow> Inr (seq, items)))
      else
        (case pd_report pd data of
           Inl e \<Rightarrow> Inl e
         | Inr r \<Rightarrow> (case LocationReport (pd_violations pd) [] r of Inl e \<Rightarrow> Inl e | Inr x \<Rightarrow> Inr (None, [x]))))"

definition parse_ingest_payload :: "pydantic \<Rightarrow> bytes \<Rightarrow> int \<Rightarrow> parse_error + int option \<times> location_report list" where
  "parse_ingest_payload pd data max_items =
     (let stripped = dropWhile blank data in
      if stripped = [] then Inl EmptyPayload
      else (case validate_payload pd data stripped max_items of
              Inl errors \<Rightarrow> (case batch_limit_error errors max_items of Some e \<Rightarrow> Inl e | None \<Rightarrow> Inl (Invalid errors))
            | Inr (seq, items) \<Rightarrow> if items = [] then Inl NoReports else Inr (seq, items)))"

definition max_payload_bytes :: "int \<Rightarrow> int" where
  "max_payload_bytes max_items = max MIN_PAYLOAD_BYTES (max_items * MAX_REPORT_BYTES)"

datatype window_error = TooOld nat | TooNew nat

fun check_window_from :: "nat \<Rightarrow> location_report list \<Rightarrow> micros \<Rightarrow> micros \<Rightarrow> window_error option" where
  "check_window_from i [] oldest latest = None"
| "check_window_from i (r # rs) oldest latest =
     (if re_timestamp r < oldest then Some (TooOld i)
      else if latest < re_timestamp r then Some (TooNew i)
      else check_window_from (Suc i) rs oldest latest)"

definition check_report_window :: "location_report list \<Rightarrow> micros \<Rightarrow> micros \<Rightarrow> micros \<Rightarrow> window_error option" where
  "check_report_window reports now max_age max_future = check_window_from 0 reports (now - max_age) (now + max_future)"

definition report_window :: "settings \<Rightarrow> micros \<times> micros" where
  "report_window s = (history_retention_days s * 86400 * 1000000, ingest_max_future_skew_s s * 1000000)"

subsection \<open>The backlog gate\<close>

record backlog =
  bl_streams :: "string list"
  bl_high :: int
  bl_low :: int
  bl_poll_s :: rat
  bl_throttled :: bool
  bl_running :: bool
  bl_backlog :: int

definition new_backlog :: "int \<Rightarrow> int \<Rightarrow> int \<Rightarrow> int \<Rightarrow> string + backlog" where
  "new_backlog shards high low poll_ms =
     (if high \<le> low then Inl ''backlog low watermark must be below the high watermark''
      else Inr \<lparr>bl_streams = map ingest_stream [0..shards - 1], bl_high = high, bl_low = low,
                bl_poll_s = fl (of_int poll_ms / 1000), bl_throttled = False, bl_running = False, bl_backlog = 0\<rparr>)"

definition retry_after_ms :: "backlog \<Rightarrow> int" where
  "retry_after_ms b = max 1000 (py_int (fl (bl_poll_s b * 2000)))"

text \<open>\<^verbatim>\<open>refresh\<close> with what the pipeline of \<^verbatim>\<open>XLEN\<close> answers; \<open>None\<close> is a failed sample, which its callers log and ignore.\<close>

definition refresh_backlog :: "int list \<Rightarrow> backlog \<Rightarrow> backlog" where
  "refresh_backlog lengths b =
     (let total = sum_list lengths; b1 = b\<lparr>bl_backlog := total\<rparr> in
      if bl_high b \<le> total \<and> \<not> bl_throttled b then b1\<lparr>bl_throttled := True\<rparr>
      else if total \<le> bl_low b \<and> bl_throttled b then b1\<lparr>bl_throttled := False\<rparr>
      else b1)"

definition poll :: "int list option \<Rightarrow> backlog \<Rightarrow> backlog" where
  "poll sample b = (case sample of None \<Rightarrow> b | Some lengths \<Rightarrow> refresh_backlog lengths b)"

definition start_backlog :: "int list option \<Rightarrow> backlog \<Rightarrow> backlog" where
  "start_backlog sample b = (if bl_running b then b else (poll sample b)\<lparr>bl_running := True\<rparr>)"

definition stop_backlog :: "backlog \<Rightarrow> backlog" where
  "stop_backlog b = (if bl_running b then b\<lparr>bl_running := False\<rparr> else b)"

definition gate_inv :: "backlog \<Rightarrow> bool" where
  "gate_inv b \<longleftrightarrow> bl_low b < bl_high b \<and> (if bl_throttled b then bl_low b < bl_backlog b else bl_backlog b < bl_high b)"

interpretation gate: step_system poll gate_inv
  by unfold_locales (auto simp: poll_def refresh_backlog_def gate_inv_def Let_def split: option.splits if_splits)

subsection \<open>Submission\<close>

record submit_env =
  se_now_ms :: millis
  se_failed_after :: "nat option"

datatype submit_error = Backpressure int | QueueUnreachable | BadShardCount

definition report_record :: "millis \<Rightarrow> location_report \<Rightarrow> location_record" where
  "report_record received_ms r =
     \<lparr>lr_device_id = re_device_id r, lr_lat = re_latitude r, lr_lon = re_longitude r,
      lr_reported_ms = to_epoch_ms (re_timestamp r), lr_received_ms = received_ms\<rparr>"

fun xadds :: "dumps \<Rightarrow> int \<Rightarrow> millis \<Rightarrow> location_report list \<Rightarrow> shard_error + (string \<times> bytes) list" where
  "xadds dumps shards received_ms [] = Inr []"
| "xadds dumps shards received_ms (r # rs) =
     (case shard_for (re_device_id r) shards of
        Inl e \<Rightarrow> Inl e
      | Inr shard \<Rightarrow>
          (case xadds dumps shards received_ms rs of
             Inl e \<Rightarrow> Inl e
           | Inr cmds \<Rightarrow> Inr ((ingest_stream shard, encode_record dumps (report_record received_ms r)) # cmds)))"

text \<open>The queue is the list of entries that were appended, oldest first; a pipeline that fails has appended some prefix.\<close>

definition submit :: "dumps \<Rightarrow> settings \<Rightarrow> submit_env \<Rightarrow> backlog \<Rightarrow> location_report list \<Rightarrow> (string \<times> bytes) list \<Rightarrow>
    (submit_error + int) \<times> (string \<times> bytes) list" where
  "submit dumps s env b reports queue =
     (if reports = [] then (Inr 0, queue)
      else if bl_throttled b then (Inl (Backpressure (retry_after_ms b)), queue)
      else (case xadds dumps (ingest_shards s) (se_now_ms env) reports of
              Inl e \<Rightarrow> (Inl BadShardCount, queue)
            | Inr cmds \<Rightarrow>
                (case se_failed_after env of
                   None \<Rightarrow> (Inr (int (length reports)), queue @ cmds)
                 | Some n \<Rightarrow> (Inl QueueUnreachable, queue @ take n cmds))))"

text \<open>\<^verbatim>\<open>verify_shard_count\<close>: \<open>recorded\<close> is what \<^verbatim>\<open>SET NX GET\<close> found; the result is an error or what the key holds afterwards.\<close>

definition edge_verify_shard_count :: "int \<Rightarrow> string option \<Rightarrow> (int \<times> string) + string" where
  "edge_verify_shard_count shards recorded =
     (case recorded of
        None \<Rightarrow> Inr (str_int shards)
      | Some previous \<Rightarrow> if previous \<noteq> str_int shards then Inl (shards, previous) else Inr previous)"

subsection \<open>The HTTP route\<close>

text \<open>
  A \<^verbatim>\<open>ProblemError\<close>: the title and the detail are text for people and left out. An exception that no
  handler knows answers 500.
\<close>

record problem =
  pb_status :: int
  pb_code :: string
  pb_headers :: "(string \<times> string) list"
  pb_extra :: "(string \<times> int) list"

definition unauthorized_problem :: problem where
  "unauthorized_problem = \<lparr>pb_status = 401, pb_code = ''unauthorized'', pb_headers = [], pb_extra = []\<rparr>"

definition validation_problem :: problem where
  "validation_problem = \<lparr>pb_status = 422, pb_code = ''validation_error'', pb_headers = [], pb_extra = []\<rparr>"

text \<open>\<^verbatim>\<open>round\<close> of a quotient by 1000, which is exact on a half only.\<close>

definition round_seconds :: "int \<Rightarrow> int" where
  "round_seconds ms =
     (let q = ms div 1000; r = ms mod 1000 in
      if r < 500 \<or> r = 500 \<and> even q then q else q + 1)"

definition throttled_problem :: "int \<Rightarrow> problem" where
  "throttled_problem retry_ms =
     \<lparr>pb_status = 503, pb_code = ''ingest_throttled'', pb_headers = [(''Retry-After'', str_int (max 1 (round_seconds retry_ms)))], pb_extra = [(''retry_after_ms'', retry_ms)]\<rparr>"

definition too_large_problem :: problem where
  "too_large_problem = \<lparr>pb_status = 413, pb_code = ''payload_too_large'', pb_headers = [], pb_extra = []\<rparr>"

definition key_candidates :: "string \<Rightarrow> int list list" where
  "key_candidates provided = remdups [encode provided, map of_char provided]"

definition verify_ingest_key :: "settings \<Rightarrow> string option \<Rightarrow> bool" where
  "verify_ingest_key s provided =
     (case provided of
        None \<Rightarrow> False
      | Some p \<Rightarrow> p \<noteq> [] \<and> list_ex (\<lambda>candidate. candidate = encode (ingest_api_key s)) (key_candidates p))"

text \<open>A request: its headers of interest and its body as the chunks that arrive, possibly cut off.\<close>

datatype body_part = Chunk bytes | Disconnected

record request =
  rq_key :: "string option"
  rq_content_length :: "string option"
  rq_stream :: "body_part list"

definition check_declared_length :: "(string \<Rightarrow> int option) \<Rightarrow> int \<Rightarrow> string option \<Rightarrow> problem option" where
  "check_declared_length int_of max_bytes declared =
     (case declared of
        None \<Rightarrow> None
      | Some d \<Rightarrow>
          (case int_of d of
             None \<Rightarrow> Some \<lparr>pb_status = 400, pb_code = ''bad_request'', pb_headers = [], pb_extra = []\<rparr>
           | Some n \<Rightarrow> if max_bytes < n then Some too_large_problem else None))"

fun read_stream :: "int \<Rightarrow> bytes \<Rightarrow> body_part list \<Rightarrow> problem + bytes" where
  "read_stream max_bytes body [] = Inr body"
| "read_stream max_bytes body (Disconnected # ps) = Inl \<lparr>pb_status = 408, pb_code = ''client_disconnected'', pb_headers = [], pb_extra = []\<rparr>"
| "read_stream max_bytes body (Chunk c # ps) =
     (if max_bytes < int (length (body @ c)) then Inl too_large_problem else read_stream max_bytes (body @ c) ps)"

definition read_bounded_body :: "(string \<Rightarrow> int option) \<Rightarrow> int \<Rightarrow> request \<Rightarrow> problem + bytes" where
  "read_bounded_body int_of max_batch rq =
     (let max_bytes = max_payload_bytes max_batch in
      case check_declared_length int_of max_bytes (rq_content_length rq) of
        Some e \<Rightarrow> Inl e
      | None \<Rightarrow> read_stream max_bytes [] (rq_stream rq))"

text \<open>The counters of \<^verbatim>\<open>ingest_rejected_total\<close>, by reason.\<close>

datatype reject_reason = AuthFailed | ValidationFailed | OutsideWindow | Throttled

record edge =
  ed_queue :: "(string \<times> bytes) list"
  ed_rejected :: "(reject_reason \<times> int) list"

definition count_rejected :: "int \<Rightarrow> reject_reason \<Rightarrow> edge \<Rightarrow> edge" where
  "count_rejected n reason e =
     (if 0 < n then e\<lparr>ed_rejected := AList.update reason ((case map_of (ed_rejected e) reason of None \<Rightarrow> 0 | Some k \<Rightarrow> k) + n) (ed_rejected e)\<rparr>
      else e)"

record ingest_env =
  ie_pydantic :: pydantic
  ie_dumps :: dumps
  ie_int_of :: "string \<Rightarrow> int option"
  ie_now :: micros
  ie_submit :: submit_env

definition submit_to :: "ingest_env \<Rightarrow> settings \<Rightarrow> backlog \<Rightarrow> location_report list \<Rightarrow> edge \<Rightarrow> (submit_error + int) \<times> edge" where
  "submit_to env s b reports e =
     (case submit (ie_dumps env) s (ie_submit env) b reports (ed_queue e) of
        (Inl (Backpressure ms), q) \<Rightarrow> (Inl (Backpressure ms), count_rejected (int (length reports)) Throttled (e\<lparr>ed_queue := q\<rparr>))
      | (res, q) \<Rightarrow> (res, e\<lparr>ed_queue := q\<rparr>))"

definition accept_reports :: "ingest_env \<Rightarrow> settings \<Rightarrow> backlog \<Rightarrow> location_report list \<Rightarrow> edge \<Rightarrow> (problem + int) \<times> edge" where
  "accept_reports env s b reports e =
     (case report_window s of (max_age, max_future) \<Rightarrow>
        (case check_report_window reports (ie_now env) max_age max_future of
           Some err \<Rightarrow> (Inl validation_problem, count_rejected (int (length reports)) OutsideWindow e)
         | None \<Rightarrow>
             (case submit_to env s b reports e of
                (Inr n, e') \<Rightarrow> (Inr n, e')
              | (Inl (Backpressure ms), e') \<Rightarrow> (Inl (throttled_problem ms), e')
              | (Inl QueueUnreachable, e') \<Rightarrow>
                  (Inl \<lparr>pb_status = 503, pb_code = ''ingest_unavailable'', pb_headers = [(''Retry-After'', ''1'')], pb_extra = []\<rparr>, e')
              | (Inl BadShardCount, e') \<Rightarrow> (Inl \<lparr>pb_status = 500, pb_code = ''internal_error'', pb_headers = [], pb_extra = []\<rparr>, e'))))"

definition ingest_locations :: "ingest_env \<Rightarrow> settings \<Rightarrow> backlog \<Rightarrow> request \<Rightarrow> edge \<Rightarrow> (problem + int) \<times> edge" where
  "ingest_locations env s b rq e =
     (if \<not> verify_ingest_key s (rq_key rq) then (Inl unauthorized_problem, count_rejected 1 AuthFailed e)
      else if bl_throttled b then (Inl (throttled_problem (retry_after_ms b)), e)
      else (case read_bounded_body (ie_int_of env) (ingest_max_batch s) rq of
              Inl err \<Rightarrow> (Inl err, e)
            | Inr raw \<Rightarrow>
                (case parse_ingest_payload (ie_pydantic env) raw (ingest_max_batch s) of
                   Inl (BatchTooLarge offered limit) \<Rightarrow> (Inl validation_problem, count_rejected offered ValidationFailed e)
                 | Inl err \<Rightarrow> (Inl validation_problem, count_rejected 1 ValidationFailed e)
                 | Inr (seq, reports) \<Rightarrow> accept_reports env s b reports e)))"

subsection \<open>What an accepted batch is\<close>

definition shard_index :: "settings \<Rightarrow> location_report \<Rightarrow> int" where
  "shard_index s r = crc32 (encode (re_device_id r)) mod ingest_shards s"

definition queued_entry :: "dumps \<Rightarrow> settings \<Rightarrow> millis \<Rightarrow> location_report \<Rightarrow> string \<times> bytes" where
  "queued_entry dumps s received_ms r = (ingest_stream (shard_index s r), encode_record dumps (report_record received_ms r))"

lemma xadds_all: "1 \<le> ingest_shards s \<Longrightarrow> xadds dumps (ingest_shards s) ms rs = Inr (map (queued_entry dumps s ms) rs)"
  by (induction rs) (simp_all add: shard_for_def queued_entry_def shard_index_def)

lemma check_window_from_None:
  "check_window_from i rs oldest latest = None \<longleftrightarrow> (\<forall>r \<in> set rs. oldest \<le> re_timestamp r \<and> re_timestamp r \<le> latest)"
  by (induction rs arbitrary: i) auto

definition report_ok :: "location_report \<Rightarrow> bool" where
  "report_ok r \<longleftrightarrow> DeviceId_ok (re_device_id r) \<and> - 90 \<le> re_latitude r \<and> re_latitude r \<le> 90 \<and>
     - 180 \<le> re_longitude r \<and> re_longitude r \<le> 180"

lemma in_range_Some: "in_range bound f = Some x \<longleftrightarrow> f = Fin x \<and> - bound \<le> x \<and> x \<le> bound"
  by (auto simp: in_range_def split: pyfloat.splits if_splits)

lemma LocationReport_ok: "LocationReport vs loc r = Inr x \<Longrightarrow> report_ok x"
  by (auto simp: LocationReport_def report_ok_def in_range_Some split: option.splits if_splits)

lemma validate_each_ok: "validate_each pd i rs = Inr xs \<Longrightarrow> length xs = length rs \<and> (\<forall>x \<in> set xs. report_ok x)"
  by (induction rs arbitrary: i xs)
    (auto simp: validate_element_def split: sum.splits dest: LocationReport_ok)

lemma bounded_items_ok:
  "bounded_items pd n rs = Inr xs \<Longrightarrow> int (length xs) \<le> n \<and> (\<forall>x \<in> set xs. report_ok x)"
  using validate_each_ok by (fastforce simp: bounded_items_def split: if_splits)

lemma validate_payload_ok:
  "validate_payload pd data stripped n = Inr (seq, xs) \<Longrightarrow> 1 \<le> n \<Longrightarrow> int (length xs) \<le> n \<and> (\<forall>x \<in> set xs. report_ok x)"
  unfolding validate_payload_def
  by (simp split: if_splits sum.splits prod.splits) (use bounded_items_ok LocationReport_ok in fastforce)+

lemma parse_ingest_payload_ok:
  assumes "parse_ingest_payload pd data n = Inr (seq, xs)" "1 \<le> n"
  shows "xs \<noteq> [] \<and> int (length xs) \<le> n \<and> (\<forall>x \<in> set xs. report_ok x)"
  using assms validate_payload_ok [of pd data "dropWhile blank data" n seq xs]
  by (auto simp: parse_ingest_payload_def Let_def split: if_splits sum.splits option.splits)

lemma read_stream_bounded: "read_stream n body ps = Inr raw \<Longrightarrow> int (length body) \<le> n \<Longrightarrow> int (length raw) \<le> n"
proof (induction n body ps rule: read_stream.induct)
  case (3 n body c ps)
  then show ?case by (simp split: if_splits)
qed simp_all

lemma count_rejected_queue [simp]: "ed_queue (count_rejected n reason e) = ed_queue e"
  by (simp add: count_rejected_def)

lemma submit_to_accepted:
  assumes "submit_to env s b reports e = (Inr n, e')" "reports \<noteq> []" "1 \<le> ingest_shards s"
  shows "\<not> bl_throttled b \<and> n = int (length reports) \<and>
    ed_queue e' = ed_queue e @ map (queued_entry (ie_dumps env) s (se_now_ms (ie_submit env))) reports"
  using assms
  by (auto simp: submit_to_def submit_def xadds_all split: sum.splits submit_error.splits option.splits if_splits)

lemma submit_to_refused:
  assumes "submit_to env s b reports e = (Inl err, e')" "err \<noteq> QueueUnreachable"
  shows "ed_queue e' = ed_queue e"
  using assms
  by (auto simp: submit_to_def submit_def split: sum.splits submit_error.splits option.splits if_splits)

lemma accept_reports_accepted:
  assumes "accept_reports env s b reports e = (Inr n, e')" "reports \<noteq> []" "1 \<le> ingest_shards s"
  shows "\<not> bl_throttled b \<and> n = int (length reports) \<and>
    ed_queue e' = ed_queue e @ map (queued_entry (ie_dumps env) s (se_now_ms (ie_submit env))) reports \<and>
    (\<forall>r \<in> set reports. ie_now env - fst (report_window s) \<le> re_timestamp r \<and> re_timestamp r \<le> ie_now env + snd (report_window s))"
  using assms submit_to_accepted [of env s b reports e n e']
  by (auto simp: accept_reports_def check_report_window_def check_window_from_None
      split: prod.splits option.splits sum.splits submit_error.splits)

lemma accept_reports_refused:
  assumes "accept_reports env s b reports e = (Inl p, e')" "pb_code p \<noteq> ''ingest_unavailable''"
  shows "ed_queue e' = ed_queue e"
  using assms submit_to_refused [of env s b reports e]
  by (auto simp: accept_reports_def split: prod.splits option.splits sum.splits submit_error.splits)

subsection \<open>Properties\<close>

lemma valid_ingest_settings: "valid_settings s \<Longrightarrow> 1 \<le> ingest_shards s \<and> 1 \<le> ingest_max_batch s"
  by (auto simp: valid_settings_checks field_checks_def between_def)

text \<open>(C17) A 202 means the batch is queued: when the route accepts, the key was right, the gate was open, the body
  parsed to between one and the allowed number of valid reports inside the time window, and exactly their
  records were appended, in order, each to the stream of its device's shard. When it refuses, nothing was
  appended, unless the queue itself failed.\<close>

theorem accepted_batch_is_queued:
  assumes "valid_settings s" "ingest_locations env s b rq e = (res, e')"
  shows "case res of
      Inr n \<Rightarrow> verify_ingest_key s (rq_key rq) \<and> \<not> bl_throttled b \<and>
        (\<exists>raw seq reports. parse_ingest_payload (ie_pydantic env) raw (ingest_max_batch s) = Inr (seq, reports) \<and>
           int (length raw) \<le> max_payload_bytes (ingest_max_batch s) \<and>
           n = int (length reports) \<and> 1 \<le> n \<and> n \<le> ingest_max_batch s \<and> list_all report_ok reports \<and>
           list_all (\<lambda>r. ie_now env - fst (report_window s) \<le> re_timestamp r \<and> re_timestamp r \<le> ie_now env + snd (report_window s)) reports \<and>
           ed_queue e' = ed_queue e @ map (queued_entry (ie_dumps env) s (se_now_ms (ie_submit env))) reports)
    | Inl p \<Rightarrow> pb_code p = ''ingest_unavailable'' \<or> ed_queue e' = ed_queue e"
proof -
  have shards: "1 \<le> ingest_shards s" and batch: "1 \<le> ingest_max_batch s" using valid_ingest_settings [OF assms(1)] by auto
  consider (refused) p where "res = Inl p" "ed_queue e' = ed_queue e"
    | (submitted) raw seq reports where "verify_ingest_key s (rq_key rq)"
        "read_bounded_body (ie_int_of env) (ingest_max_batch s) rq = Inr raw"
        "parse_ingest_payload (ie_pydantic env) raw (ingest_max_batch s) = Inr (seq, reports)"
        "accept_reports env s b reports e = (res, e')"
    using assms(2) unfolding ingest_locations_def
    by (cases res) (auto split: if_splits sum.splits parse_error.splits)
  then show ?thesis
  proof cases
    case submitted
    note ok = parse_ingest_payload_ok [OF submitted(3) batch]
    have "int (length raw) \<le> max_payload_bytes (ingest_max_batch s)"
      using submitted(2) read_stream_bounded [of "max_payload_bytes (ingest_max_batch s)" "[]" "rq_stream rq" raw]
      by (auto simp: read_bounded_body_def Let_def max_payload_bytes_def MIN_PAYLOAD_BYTES_def split: option.splits)
    with ok submitted accept_reports_accepted [of env s b reports e _ e', OF _ _ shards]
      accept_reports_refused [of env s b reports e _ e']
    show ?thesis by (cases res) (auto simp: list_all_iff Suc_le_eq)
  qed simp
qed

text \<open>While the gate is shut a request costs nothing: its answer, a 503 with a retry hint of at least a second,
  and its effect do not depend on the body at all.\<close>

theorem throttled_request_is_not_read:
  assumes "bl_throttled b" "verify_ingest_key s key"
  shows "ingest_locations env s b \<lparr>rq_key = key, rq_content_length = len, rq_stream = stream\<rparr> e =
      (Inl (throttled_problem (retry_after_ms b)), e) \<and> 1000 \<le> retry_after_ms b"
  using assms by (simp add: ingest_locations_def retry_after_ms_def)

text \<open>The gate has hysteresis: after any sequence of samples, failed ones included, it is shut only while the
  last sample is above the low watermark and open only while it is below the high one, and a sample
  between the two leaves it as it was.\<close>

theorem gate_has_hysteresis:
  fixes samples :: "int list option list"
  assumes "new_backlog shards high low poll_ms = Inr b0"
  defines "b \<equiv> fold poll samples b0"
  shows "(0 < high \<longrightarrow> (if bl_throttled b then low < bl_backlog b else bl_backlog b < high)) \<and>
    (low < sum_list sample \<and> sum_list sample < high \<longrightarrow> bl_throttled (poll (Some sample) b) = bl_throttled b)"
proof -
  have marks: "bl_high (fold poll samples c) = bl_high c \<and> bl_low (fold poll samples c) = bl_low c" for c
    by (induction samples arbitrary: c) (auto simp: poll_def refresh_backlog_def Let_def split: option.splits)
  have b0: "bl_high b0 = high" "bl_low b0 = low" "0 < high \<Longrightarrow> gate_inv b0"
    using assms(1) by (auto simp: new_backlog_def gate_inv_def split: if_splits)
  have "0 < high \<Longrightarrow> gate_inv b" unfolding b_def by (intro gate.run_keeps b0(3))
  moreover have "bl_high b = high" "bl_low b = low" using marks [of b0] b0 by (simp_all add: b_def)
  ultimately show ?thesis by (auto simp: gate_inv_def poll_def refresh_backlog_def Let_def)
qed

lemma utf8_ascii: "of_char c < (128 :: int) \<Longrightarrow> utf8_char c = [of_char c]"
  by (simp add: utf8_char_def Let_def)

lemma utf8_first:
  "\<exists>b bs. utf8_char c = b # bs \<and> (if of_char c < (128 :: int) then b = of_char c \<and> bs = [] else 128 \<le> b)"
  by (auto simp: utf8_char_def Let_def)

lemma encode_ascii: "list_all (\<lambda>c. of_char c < (128 :: int)) k \<Longrightarrow> encode k = map of_char k"
  by (induction k) (simp_all add: encode_def utf8_ascii)

lemma encode_is_ascii: "list_all (\<lambda>c. of_char c < (128 :: int)) k \<Longrightarrow> encode p = map of_char k \<longleftrightarrow> p = k"
proof (induction p arbitrary: k)
  case (Cons c p)
  obtain b bs where b: "utf8_char c = b # bs" "if of_char c < (128 :: int) then b = of_char c \<and> bs = [] else 128 \<le> b"
    using utf8_first by blast
  show ?case
  proof (cases k)
    case (Cons d k')
    with b Cons.IH [of k'] Cons.prems show ?thesis by (auto simp: encode_def split: if_splits)
  qed (use b in \<open>simp add: encode_def\<close>)
qed (auto simp: encode_def)

text \<open>A device key is accepted in both readings a transport can give it, as text and as the bytes of its UTF-8
  form decoded as Latin-1; and a key of plain ASCII is accepted in no other form.\<close>

theorem only_the_configured_key_is_accepted:
  assumes "ingest_api_key s \<noteq> []"
  shows "verify_ingest_key s (Some (ingest_api_key s)) \<and>
    (map of_char p = encode (ingest_api_key s) \<longrightarrow> verify_ingest_key s (Some p)) \<and>
    (list_all (\<lambda>c. of_char c < (128 :: int)) (ingest_api_key s) \<longrightarrow> (verify_ingest_key s (Some p) \<longleftrightarrow> p = ingest_api_key s))"
proof -
  have nonempty: "encode (ingest_api_key s) \<noteq> []"
    using assms by (cases "ingest_api_key s") (auto simp: encode_def utf8_char_def Let_def)
  have verify: "verify_ingest_key s (Some q) \<longleftrightarrow>
      q \<noteq> [] \<and> (encode q = encode (ingest_api_key s) \<or> map of_char q = encode (ingest_api_key s))" for q
    by (auto simp: verify_ingest_key_def key_candidates_def)
  show ?thesis
  proof (intro conjI impI)
    show "verify_ingest_key s (Some (ingest_api_key s))" unfolding verify using assms by simp
    show "map of_char p = encode (ingest_api_key s) \<Longrightarrow> verify_ingest_key s (Some p)"
      unfolding verify using nonempty by auto
    assume ascii: "list_all (\<lambda>c. of_char c < (128 :: int)) (ingest_api_key s)"
    have "map of_char p = (map of_char (ingest_api_key s) :: int list) \<longleftrightarrow> p = ingest_api_key s"
      by (rule inj_map_eq_map) (simp add: inj_on_def)
    with ascii encode_is_ascii [OF ascii] show "verify_ingest_key s (Some p) \<longleftrightarrow> p = ingest_api_key s"
      unfolding verify encode_ascii [OF ascii] using assms by auto
  qed
qed

subsection \<open>Witnesses\<close>

definition sample_raw :: raw_report where
  "sample_raw = \<lparr>rr_device_id = ''dev-1'', rr_latitude = Fin 50, rr_longitude = Fin 30, rr_timestamp = Aware 1700007200000000 7200000000\<rparr>"

definition sample_pydantic :: pydantic where
  "sample_pydantic = \<lparr>pd_report = (\<lambda>_. Inr sample_raw), pd_items = (\<lambda>_. Inr []), pd_envelope = (\<lambda>_. Inr (None, [])),
     pd_violations = (\<lambda>_ _. []), pd_too_long = (\<lambda>n _. \<lparr>ve_type = ''too_long'', ve_loc = [], ve_msg = [], ve_actual_length = Some n\<rparr>)\<rparr>"

definition sample_ingest :: ingest_env where
  "sample_ingest = \<lparr>ie_pydantic = sample_pydantic, ie_dumps = (\<lambda>_. ''[]''), ie_int_of = (\<lambda>_. None), ie_now = 1700000001000000,
     ie_submit = \<lparr>se_now_ms = 1700000001000, se_failed_after = None\<rparr>\<rparr>"

definition sample_gate :: backlog where
  "sample_gate = \<lparr>bl_streams = [], bl_high = 10, bl_low = 5, bl_poll_s = 1 / 4, bl_throttled = False, bl_running = True, bl_backlog = 0\<rparr>"

definition sample_request :: request where
  "sample_request = \<lparr>rq_key = Some (replicate 16 CHR ''k''), rq_content_length = None, rq_stream = [Chunk ''{}'']\<rparr>"

definition fresh_edge :: edge where
  "fresh_edge = \<lparr>ed_queue = [], ed_rejected = []\<rparr>"

theorem accepted_batch_is_queued_witness:
  "length (ed_queue (snd (ingest_locations sample_ingest default_settings sample_gate sample_request fresh_edge))) = 1"
proof -
  obtain res e' where run: "ingest_locations sample_ingest default_settings sample_gate sample_request fresh_edge = (res, e')" by fastforce
  let ?report = "\<lparr>re_device_id = ''dev-1'', re_latitude = 50, re_longitude = 30, re_timestamp = 1700000000000000\<rparr>"
  have key: "verify_ingest_key default_settings (rq_key sample_request)" by code_simp
  have raw: "read_bounded_body (ie_int_of sample_ingest) (ingest_max_batch default_settings) sample_request = Inr ''{}''" by code_simp
  have parse: "parse_ingest_payload (ie_pydantic sample_ingest) ''{}'' (ingest_max_batch default_settings) = Inr (None, [?report])" by code_simp
  have win: "check_report_window [?report] (ie_now sample_ingest) (fst (report_window default_settings)) (snd (report_window default_settings)) = None"
    by code_simp
  have "fst (submit_to sample_ingest default_settings sample_gate [?report] fresh_edge) = Inr 1"
    using valid_ingest_settings [OF default_settings_valid]
    by (simp add: submit_to_def submit_def xadds_all sample_gate_def sample_ingest_def del: xadds.simps)
  then have "fst (accept_reports sample_ingest default_settings sample_gate [?report] fresh_edge) = Inr 1"
    using win by (auto simp: accept_reports_def split: prod.splits)
  then have "res = Inr 1" using run key raw parse by (simp add: ingest_locations_def sample_gate_def)
  with accepted_batch_is_queued [OF default_settings_valid run] run show ?thesis by (auto simp: fresh_edge_def)
qed

theorem throttled_request_is_not_read_witness:
  "ingest_locations sample_ingest default_settings (sample_gate\<lparr>bl_throttled := True\<rparr>)
     \<lparr>rq_key = Some (replicate 16 CHR ''k''), rq_content_length = None, rq_stream = [Disconnected]\<rparr> fresh_edge =
   (Inl (throttled_problem (retry_after_ms (sample_gate\<lparr>bl_throttled := True\<rparr>))), fresh_edge)"
proof -
  have "bl_throttled (sample_gate\<lparr>bl_throttled := True\<rparr>)" by simp
  moreover have "verify_ingest_key default_settings (Some (replicate 16 CHR ''k''))" by code_simp
  ultimately show ?thesis by (rule throttled_request_is_not_read [THEN conjunct1])
qed

theorem gate_has_hysteresis_witness:
  "bl_throttled (fold poll [Some [3, 8], None, Some [7]] \<lparr>bl_streams = [], bl_high = 10, bl_low = 5, bl_poll_s = fl (250 / 1000),
     bl_throttled = False, bl_running = False, bl_backlog = 0\<rparr>)"
proof -
  let ?b = "\<lparr>bl_streams = [], bl_high = 10, bl_low = 5, bl_poll_s = fl (250 / 1000), bl_throttled = False, bl_running = False, bl_backlog = 0\<rparr>"
  have new: "new_backlog 0 10 5 250 = Inr ?b" by (simp add: new_backlog_def)
  have shut: "bl_throttled (fold poll [Some [3, 8], None] ?b)" by (simp add: poll_def refresh_backlog_def Let_def)
  from gate_has_hysteresis [OF new, of "[Some [3, 8], None]" "[7]"] have
    "bl_throttled (poll (Some [7]) (fold poll [Some [3, 8], None] ?b)) = bl_throttled (fold poll [Some [3, 8], None] ?b)" by simp
  with shut show ?thesis by simp
qed

theorem only_the_configured_key_is_accepted_witness:
  "\<not> verify_ingest_key default_settings (Some ''kk'')"
proof -
  have "ingest_api_key default_settings \<noteq> []" "list_all (\<lambda>c. of_char c < (128 :: int)) (ingest_api_key default_settings)" by code_simp+
  moreover have "''kk'' \<noteq> ingest_api_key default_settings" by code_simp
  ultimately show ?thesis using only_the_configured_key_is_accepted [of default_settings "''kk''"] by blast
qed

text \<open>The ceiling on a device frame is not always below the transport's own limit of 1048576 bytes: with a batch
  limit that the settings allow it is more than twice as large.\<close>

theorem frame_ceiling_can_exceed_the_transport:
  "valid_settings (default_settings\<lparr>ingest_max_batch := 10000\<rparr>) \<and> 1048576 < max_payload_bytes 10000"
  using default_settings_valid
  by (simp add: valid_settings_checks field_checks_def check_backlog_watermarks_def between_def max_payload_bytes_def MAX_REPORT_BYTES_def)

end
