(* ===== verification/DeviceSocket.thy ===== *)
theory DeviceSocket
  imports Ingest
begin

text \<open>
  \<^verbatim>\<open>src/geotrack/api/routes/ws_ingest.py\<close>: one device connection. A turn of \<^verbatim>\<open>run\<close> is a function of what
  was received, of the clocks, of the gate and of whether a write to the socket goes through; a write that
  times out raises, and that ends the session.
\<close>

record device_session =
  ds_quiet_until :: rat
  ds_events :: "rat list"
  ds_sent :: "bytes list"
  ds_edge :: edge
  ds_close_code :: "int option"

datatype verdict = Continue | Ended | Raised

record socket_env =
  we_ingest :: ingest_env
  we_monotonic :: rat
  we_writes :: bool
  we_describe :: "parse_error \<Rightarrow> string"
  we_describe_window :: "window_error \<Rightarrow> string"

definition new_session :: "edge \<Rightarrow> device_session" where
  "new_session e = \<lparr>ds_quiet_until = 0, ds_events = [], ds_sent = [], ds_edge = e, ds_close_code = None\<rparr>"

definition ws_send :: "socket_env \<Rightarrow> bytes \<Rightarrow> device_session \<Rightarrow> verdict \<times> device_session" where
  "ws_send env frame d =
     (if we_writes env then (Continue, d\<lparr>ds_sent := ds_sent d @ [frame]\<rparr>) else (Raised, d))"

definition notify_throttled :: "socket_env \<Rightarrow> bool \<Rightarrow> backlog \<Rightarrow> device_session \<Rightarrow> verdict \<times> device_session" where
  "notify_throttled env force b d =
     (if we_monotonic env < ds_quiet_until d \<and> \<not> force then (Continue, d)
      else ws_send env (throttle_frame (ie_dumps (we_ingest env)) (retry_after_ms b))
             (d\<lparr>ds_quiet_until := fl (we_monotonic env + fl (of_int (retry_after_ms b) / 1000))\<rparr>))"

definition reject_frame :: "socket_env \<Rightarrow> string \<Rightarrow> string \<Rightarrow> int \<Rightarrow> device_session \<Rightarrow> verdict \<times> device_session" where
  "reject_frame env code detail reports d =
     (case ws_send env (error_frame (ie_dumps (we_ingest env)) code detail None)
             (d\<lparr>ds_edge := count_rejected reports ValidationFailed (ds_edge d)\<rparr>) of
        (Continue, d1) \<Rightarrow>
          (case record_malformed (we_monotonic env) (ds_events d1) of
             (True, es) \<Rightarrow> (Continue, d1\<lparr>ds_events := es\<rparr>)
           | (False, es) \<Rightarrow> (Ended, d1\<lparr>ds_events := es, ds_close_code := Some CLOSE_PROTOCOL_ERROR\<rparr>))
      | raised \<Rightarrow> raised)"

definition submit_frame :: "socket_env \<Rightarrow> settings \<Rightarrow> backlog \<Rightarrow> int option \<Rightarrow> location_report list \<Rightarrow> device_session \<Rightarrow> verdict \<times> device_session" where
  "submit_frame env s b seq reports d =
     (let dumps = ie_dumps (we_ingest env) in
      case report_window s of (max_age, max_future) \<Rightarrow>
        (case check_report_window reports (ie_now (we_ingest env)) max_age max_future of
           Some err \<Rightarrow>
             ws_send env (error_frame dumps ''out_of_window'' (we_describe_window env err) seq)
               (d\<lparr>ds_edge := count_rejected (int (length reports)) OutsideWindow (ds_edge d)\<rparr>)
         | None \<Rightarrow>
             (case submit_to (we_ingest env) s b reports (ds_edge d) of
                (Inl (Backpressure ms), e) \<Rightarrow> notify_throttled env True b (d\<lparr>ds_edge := e\<rparr>)
              | (Inl QueueUnreachable, e) \<Rightarrow>
                  ws_send env (error_frame dumps ''ingest_unavailable'' ''The ingestion queue is not reachable.'' seq) (d\<lparr>ds_edge := e\<rparr>)
              | (Inl BadShardCount, e) \<Rightarrow> (Raised, d\<lparr>ds_edge := e\<rparr>)
              | (Inr accepted, e) \<Rightarrow>
                  (case seq of
                     None \<Rightarrow> (Continue, d\<lparr>ds_edge := e\<rparr>)
                   | Some n \<Rightarrow> ws_send env (ack_frame dumps n accepted) (d\<lparr>ds_edge := e\<rparr>)))))"

definition handle_frame :: "socket_env \<Rightarrow> settings \<Rightarrow> backlog \<Rightarrow> bytes \<Rightarrow> device_session \<Rightarrow> verdict \<times> device_session" where
  "handle_frame env s b raw d =
     (if max_payload_bytes (ingest_max_batch s) < int (length raw) then
        reject_frame env ''payload_too_large'' (''Frame exceeds '' @ str_int (max_payload_bytes (ingest_max_batch s)) @ '' bytes; send smaller batches.'') 1 d
      else (case parse_ingest_payload (ie_pydantic (we_ingest env)) raw (ingest_max_batch s) of
              Inl (BatchTooLarge offered limit) \<Rightarrow>
                reject_frame env ''payload_too_large'' (we_describe env (BatchTooLarge offered limit)) offered d
            | Inl err \<Rightarrow> reject_frame env ''validation_error'' (we_describe env err) 1 d
            | Inr (seq, reports) \<Rightarrow> submit_frame env s b seq reports d))"

text \<open>The turn of the loop for one received message; \<open>None\<close> is a peer that has gone.\<close>

definition session_turn :: "socket_env \<Rightarrow> settings \<Rightarrow> backlog \<Rightarrow> bytes option \<Rightarrow> device_session \<Rightarrow> verdict \<times> device_session" where
  "session_turn env s b msg d =
     (case msg of
        None \<Rightarrow> (Ended, d)
      | Some raw \<Rightarrow> if bl_throttled b then notify_throttled env False b d else handle_frame env s b raw d)"

definition session_begin :: "socket_env \<Rightarrow> backlog \<Rightarrow> device_session \<Rightarrow> verdict \<times> device_session" where
  "session_begin env b d = (if bl_throttled b then notify_throttled env False b d else (Continue, d))"

text \<open>\<^verbatim>\<open>ws_ingest\<close>: the key comes from the header or from the query, and a wrong one is counted and answered with a close code.\<close>

definition ws_ingest :: "settings \<Rightarrow> string option \<Rightarrow> string option \<Rightarrow> edge \<Rightarrow> int + device_session" where
  "ws_ingest s header key e =
     (if verify_ingest_key s (case header of Some (c # cs) \<Rightarrow> Some (c # cs) | _ \<Rightarrow> key) then Inr (new_session e)
      else Inl CLOSE_UNAUTHORIZED)"

fun session_run :: "settings \<Rightarrow> (socket_env \<times> backlog \<times> bytes option) list \<Rightarrow> device_session \<Rightarrow> verdict \<times> device_session" where
  "session_run s [] d = (Continue, d)"
| "session_run s ((env, b, msg) # turns) d =
     (case session_turn env s b msg d of
        (Continue, d') \<Rightarrow> session_run s turns d'
      | stopped \<Rightarrow> stopped)"

subsection \<open>Properties\<close>

lemma ws_send_edge [simp]: "ds_edge (snd (ws_send env f d)) = ds_edge d"
  by (simp add: ws_send_def)

lemma notify_edge [simp]: "ds_edge (snd (notify_throttled env force b d)) = ds_edge d"
  by (simp add: notify_throttled_def)

lemma notify_never_ends: "fst (notify_throttled env force b d) \<noteq> Ended"
  by (simp add: notify_throttled_def ws_send_def)

lemma quiet_turns:
  assumes "list_all (\<lambda>(env, b, msg). bl_throttled b \<and> msg \<noteq> None \<and> we_monotonic env < ds_quiet_until d) turns"
  shows "session_run s turns d = (Continue, d)"
  using assms
proof (induction turns)
  case (Cons turn turns)
  obtain env b msg where turn: "turn = (env, b, msg)" by (metis prod_cases3)
  with Cons.prems have "session_turn env s b msg d = (Continue, d)"
    by (auto simp: session_turn_def notify_throttled_def)
  with Cons turn show ?case by simp
qed simp

text \<open>While the gate is shut a device stays connected and its frames are shed: the first frame is answered with
  the retry hint, and whatever the device sends within that retry window is dropped without an answer;
  nothing is queued or counted and the session goes on.\<close>

theorem throttled_device_is_told_once:
  fixes env0 :: socket_env and b0 :: backlog
  defines "quiet \<equiv> fl (we_monotonic env0 + fl (of_int (retry_after_ms b0) / 1000))"
  assumes "bl_throttled b0" "we_writes env0" "ds_quiet_until d \<le> we_monotonic env0"
    and "list_all (\<lambda>(env, b, msg). bl_throttled b \<and> msg \<noteq> None \<and> we_monotonic env < quiet) turns"
  shows "session_run s ((env0, b0, Some raw) # turns) d =
    (Continue, d\<lparr>ds_quiet_until := quiet, ds_sent := ds_sent d @ [throttle_frame (ie_dumps (we_ingest env0)) (retry_after_ms b0)]\<rparr>)"
proof -
  let ?d = "d\<lparr>ds_quiet_until := quiet, ds_sent := ds_sent d @ [throttle_frame (ie_dumps (we_ingest env0)) (retry_after_ms b0)]\<rparr>"
  have "session_turn env0 s b0 (Some raw) d = (Continue, ?d)"
    using assms by (simp add: session_turn_def notify_throttled_def ws_send_def)
  moreover have "session_run s turns ?d = (Continue, ?d)" by (rule quiet_turns) (use assms(5) in simp)
  ultimately show ?thesis by simp
qed

definition sample_socket :: "rat \<Rightarrow> socket_env" where
  "sample_socket t = \<lparr>we_ingest = sample_ingest\<lparr>ie_pydantic := sample_pydantic\<lparr>pd_envelope := (\<lambda>_. Inr (Some 4, [Inr sample_raw]))\<rparr>\<rparr>,
     we_monotonic = t, we_writes = True, we_describe = (\<lambda>_. ''bad''), we_describe_window = (\<lambda>_. ''late'')\<rparr>"

theorem throttled_device_is_told_once_witness:
  "length (ds_sent (snd (session_run default_settings
     [(sample_socket 1, sample_gate\<lparr>bl_throttled := True\<rparr>, Some ''x''), (sample_socket 1, sample_gate\<lparr>bl_throttled := True\<rparr>, Some ''y'')]
     (new_session fresh_edge)))) = 1"
proof -
  have "bl_throttled (sample_gate\<lparr>bl_throttled := True\<rparr>)" "we_writes (sample_socket 1)"
    "ds_quiet_until (new_session fresh_edge) \<le> we_monotonic (sample_socket 1)"
    "list_all (\<lambda>(env, b, msg). bl_throttled b \<and> msg \<noteq> None \<and>
       we_monotonic env < fl (we_monotonic (sample_socket 1) + fl (of_int (retry_after_ms (sample_gate\<lparr>bl_throttled := True\<rparr>)) / 1000)))
       [(sample_socket 1, sample_gate\<lparr>bl_throttled := True\<rparr>, Some ''y'')]" by code_simp+
  from throttled_device_is_told_once [OF this] show ?thesis by (simp add: new_session_def)
qed

text \<open>(C32) A usable frame is queued and acknowledged: when the gate is open, the frame is small enough, parses and lies
  in the time window, and the queue and the socket work, the device gets one ack that carries its sequence number
  and the number of reports, and exactly those reports were appended, in order, each to the stream of its
  device's shard.\<close>

theorem acknowledged_frame_is_queued:
  assumes "valid_settings s" "\<not> bl_throttled b" "we_writes env"
    and "parse_ingest_payload (ie_pydantic (we_ingest env)) raw (ingest_max_batch s) = Inr (Some n, reports)"
    and "int (length raw) \<le> max_payload_bytes (ingest_max_batch s)"
    and "check_report_window reports (ie_now (we_ingest env)) (fst (report_window s)) (snd (report_window s)) = None"
    and "se_failed_after (ie_submit (we_ingest env)) = None"
  shows "\<exists>d'. session_turn env s b (Some raw) d = (Continue, d') \<and>
    ds_sent d' = ds_sent d @ [ack_frame (ie_dumps (we_ingest env)) n (int (length reports))] \<and>
    ed_queue (ds_edge d') = ed_queue (ds_edge d) @
      map (queued_entry (ie_dumps (we_ingest env)) s (se_now_ms (ie_submit (we_ingest env)))) reports"
proof -
  have s: "1 \<le> ingest_shards s" "1 \<le> ingest_max_batch s" using valid_ingest_settings [OF assms(1)] by auto
  have "reports \<noteq> []" using parse_ingest_payload_ok [OF assms(4) s(2)] by simp
  then have "submit_to (we_ingest env) s b reports (ds_edge d) = (Inr (int (length reports)),
      (ds_edge d)\<lparr>ed_queue := ed_queue (ds_edge d) @
        map (queued_entry (ie_dumps (we_ingest env)) s (se_now_ms (ie_submit (we_ingest env)))) reports\<rparr>)"
    using assms(2, 7) s(1) by (simp add: submit_to_def submit_def xadds_all)
  then show ?thesis
    using assms by (auto simp: session_turn_def handle_frame_def submit_frame_def Let_def ws_send_def split: prod.splits)
qed

theorem acknowledged_frame_is_queued_witness:
  "\<exists>d'. session_turn (sample_socket 1) default_settings sample_gate (Some (quoted ''items'')) (new_session fresh_edge) = (Continue, d') \<and>
     ds_sent d' = [ack_frame (\<lambda>_. ''[]'') 4 1]"
proof -
  let ?report = "\<lparr>re_device_id = ''dev-1'', re_latitude = 50, re_longitude = 30, re_timestamp = 1700000000000000\<rparr>"
  have "\<not> bl_throttled sample_gate" "we_writes (sample_socket 1)"
    "parse_ingest_payload (ie_pydantic (we_ingest (sample_socket 1))) (quoted ''items'') (ingest_max_batch default_settings) = Inr (Some 4, [?report])"
    "int (length (quoted ''items'')) \<le> max_payload_bytes (ingest_max_batch default_settings)"
    "check_report_window [?report] (ie_now (we_ingest (sample_socket 1))) (fst (report_window default_settings)) (snd (report_window default_settings)) = None"
    "se_failed_after (ie_submit (we_ingest (sample_socket 1))) = None" by code_simp+
  from acknowledged_frame_is_queued [OF default_settings_valid this, of "new_session fresh_edge"]
  show ?thesis by (auto simp: sample_socket_def sample_ingest_def new_session_def)
qed

end
