(* ===== verification/Geozones.thy ===== *)
theory Geozones
  imports Ingest Database
begin

text \<open>
  \<^verbatim>\<open>schemas/geozones.py\<close>, \<^verbatim>\<open>db/repositories/geozones.py\<close> and \<^verbatim>\<open>api/routes/geozones.py\<close>: the zones of an
  account. A repository function is a function of the tables that stand for the session's transaction; a
  handler returns the answer, the committed tables and what it published. The fresh identifier, the server's
  clock and the outcome of a publication are arguments.
\<close>

subsection \<open>Payloads\<close>

definition MIN_RADIUS_M :: rat where "MIN_RADIUS_M = 10"
definition MAX_RADIUS_M :: rat where "MAX_RADIUS_M = 50000"

definition ZONE_PALETTE :: "string list" where
  "ZONE_PALETTE = [''#3fb1ff'', ''#ff4d4f'', ''#38d39f'', ''#ffb020'', ''#b980ff'', ''#ff7ab6'', ''#4ddbd0'', ''#f2f26b'']"

definition default_zone_color :: "int \<Rightarrow> string" where
  "default_zone_color index = ZONE_PALETTE ! nat (index mod int (length ZONE_PALETTE))"

record geozone_create =
  gc_name :: string
  gc_latitude :: rat
  gc_longitude :: rat
  gc_radius_m :: rat
  gc_color :: "string option"
  gc_alert_on_enter :: bool
  gc_alert_on_exit :: bool
  gc_dwell_alert_interval_s :: "int option"

text \<open>\<^verbatim>\<open>str.strip\<close> on the code points below 256.\<close>

definition whitespace :: "char \<Rightarrow> bool" where
  "whitespace c =
     (let n = of_char c :: nat in 9 \<le> n \<and> n \<le> 13 \<or> 28 \<le> n \<and> n \<le> 32 \<or> n = 133 \<or> n = 160)"

definition strip :: "string \<Rightarrow> string" where
  "strip s = rev (dropWhile whitespace (rev (dropWhile whitespace s)))"

definition hex_digit :: "char \<Rightarrow> bool" where
  "hex_digit c = (let n = of_char c :: nat in 48 \<le> n \<and> n \<le> 57 \<or> 97 \<le> n \<and> n \<le> 102 \<or> 65 \<le> n \<and> n \<le> 70)"

definition ZoneColor_ok :: "string \<Rightarrow> bool" where
  "ZoneColor_ok s = (case s of c # cs \<Rightarrow> c = CHR ''#'' \<and> length cs = 6 \<and> list_all hex_digit cs | [] \<Rightarrow> False)"

definition lower_char :: "char \<Rightarrow> char" where
  "lower_char c = (let n = of_char c :: nat in if 65 \<le> n \<and> n \<le> 90 then char_of (n + 32) else c)"

definition valid_name :: "string \<Rightarrow> string option" where
  "valid_name s = (if 1 \<le> length s \<and> length s \<le> 80 \<and> strip s \<noteq> [] then Some (strip s) else None)"

definition valid_dwell :: "int option \<Rightarrow> bool" where
  "valid_dwell d = (case d of None \<Rightarrow> True | Some n \<Rightarrow> 10 \<le> n \<and> n \<le> 86400)"

definition valid_color :: "string option \<Rightarrow> bool" where
  "valid_color c = (case c of None \<Rightarrow> True | Some s \<Rightarrow> ZoneColor_ok s)"

record raw_zone =
  rz_name :: string
  rz_latitude :: pyfloat
  rz_longitude :: pyfloat
  rz_radius_m :: pyfloat
  rz_color :: "string option"
  rz_alert_on_enter :: bool
  rz_alert_on_exit :: bool
  rz_dwell_alert_interval_s :: "int option"

definition radius_of :: "pyfloat \<Rightarrow> rat option" where
  "radius_of f = (case f of Fin x \<Rightarrow> if MIN_RADIUS_M \<le> x \<and> x \<le> MAX_RADIUS_M then Some x else None | _ \<Rightarrow> None)"

definition GeozoneCreate :: "raw_zone \<Rightarrow> geozone_create option" where
  "GeozoneCreate r =
     (case (valid_name (rz_name r), in_range 90 (rz_latitude r), in_range 180 (rz_longitude r), radius_of (rz_radius_m r)) of
        (Some name, Some la, Some lo, Some radius) \<Rightarrow>
          if valid_color (rz_color r) \<and> valid_dwell (rz_dwell_alert_interval_s r)
          then Some \<lparr>gc_name = name, gc_latitude = la, gc_longitude = lo, gc_radius_m = radius,
                     gc_color = map_option (map lower_char) (rz_color r), gc_alert_on_enter = rz_alert_on_enter r,
                     gc_alert_on_exit = rz_alert_on_exit r, gc_dwell_alert_interval_s = rz_dwell_alert_interval_s r\<rparr>
          else None
      | _ \<Rightarrow> None)"

text \<open>A partial update: per field absent, null, or a value; \<open>changes\<close> are the fields that are present.\<close>

record geozone_patch =
  gp_name :: "string option option"
  gp_latitude :: "rat option option"
  gp_longitude :: "rat option option"
  gp_radius_m :: "rat option option"
  gp_color :: "string option option"
  gp_alert_on_enter :: "bool option option"
  gp_alert_on_exit :: "bool option option"
  gp_dwell_alert_interval_s :: "int option option"

definition no_changes :: "geozone_patch \<Rightarrow> bool" where
  "no_changes p \<longleftrightarrow> gp_name p = None \<and> gp_latitude p = None \<and> gp_longitude p = None \<and> gp_radius_m p = None \<and>
     gp_color p = None \<and> gp_alert_on_enter p = None \<and> gp_alert_on_exit p = None \<and> gp_dwell_alert_interval_s p = None"

definition blanked :: "geozone_patch \<Rightarrow> string list" where
  "blanked p = concat
     [if gp_name p = Some None then [''name''] else [], if gp_color p = Some None then [''color''] else [],
      if gp_latitude p = Some None then [''latitude''] else [], if gp_longitude p = Some None then [''longitude''] else [],
      if gp_radius_m p = Some None then [''radius_m''] else [], if gp_alert_on_enter p = Some None then [''alert_on_enter''] else [],
      if gp_alert_on_exit p = Some None then [''alert_on_exit''] else []]"

subsection \<open>The repository\<close>

datatype zone_error = UnknownOwner | QuotaExceeded int | VersionMismatch int | DuplicateId

definition owned :: "db \<Rightarrow> uuid \<Rightarrow> (uuid \<times> geozone) list" where
  "owned db u = filter (\<lambda>(zid, z). z_user_id z = u) (geozones db)"

definition count_for_user :: "db \<Rightarrow> uuid \<Rightarrow> int" where
  "count_for_user db u = int (length (owned db u))"

definition list_for_user :: "db \<Rightarrow> uuid \<Rightarrow> nat \<Rightarrow> nat \<Rightarrow> (uuid \<times> geozone) list" where
  "list_for_user db u limit offset = take limit (drop offset (sort_key (\<lambda>(zid, z). (z_created_at z, zid)) (owned db u)))"

definition get_for_user :: "db \<Rightarrow> uuid \<Rightarrow> uuid \<Rightarrow> geozone option" where
  "get_for_user db zid u =
     (case map_of (geozones db) zid of None \<Rightarrow> None | Some z \<Rightarrow> if z_user_id z = u then Some z else None)"

definition create :: "uuid \<Rightarrow> micros \<Rightarrow> uuid \<Rightarrow> geozone_create \<Rightarrow> int \<Rightarrow> db \<Rightarrow> zone_error + geozone \<times> db" where
  "create new_id now u payload quota db =
     (if map_of (users db) u = None then Inl UnknownOwner
      else if quota \<le> count_for_user db u then Inl (QuotaExceeded quota)
      else if map_of (geozones db) new_id \<noteq> None then Inl DuplicateId
      else let z = \<lparr>z_user_id = u, z_name = gc_name payload,
                    z_color = (case gc_color payload of None \<Rightarrow> default_zone_color (count_for_user db u) | Some c \<Rightarrow> c),
                    z_center = (gc_latitude payload, gc_longitude payload), z_radius_m = gc_radius_m payload,
                    z_alert_on_enter = gc_alert_on_enter payload, z_alert_on_exit = gc_alert_on_exit payload,
                    z_dwell_alert_interval_s = gc_dwell_alert_interval_s payload,
                    z_version = 1, z_created_at = now, z_updated_at = now\<rparr>
           in Inr (z, db\<lparr>geozones := geozones db @ [(new_id, z)]\<rparr>))"

text \<open>The row that \<^verbatim>\<open>WHERE id = :id AND user_id = :user_id AND _VERSION_GUARD\<close> selects.\<close>

definition guarded_row :: "db \<Rightarrow> uuid \<Rightarrow> uuid \<Rightarrow> int option \<Rightarrow> geozone option" where
  "guarded_row db zid u expected =
     (case get_for_user db zid u of
        None \<Rightarrow> None
      | Some z \<Rightarrow> (case expected of None \<Rightarrow> Some z | Some v \<Rightarrow> if z_version z = v then Some z else None))"

definition explain_missing_row :: "db \<Rightarrow> uuid \<Rightarrow> uuid \<Rightarrow> zone_error option" where
  "explain_missing_row db zid u = map_option (\<lambda>z. VersionMismatch (z_version z)) (get_for_user db zid u)"

text \<open>A guarded \<^verbatim>\<open>UPDATE ... SET f, version = version + 1, updated_at = now()\<close>; \<open>None\<close> is a row that is not there.\<close>

definition guarded_update :: "(geozone \<Rightarrow> geozone) \<Rightarrow> micros \<Rightarrow> uuid \<Rightarrow> uuid \<Rightarrow> int option \<Rightarrow> db \<Rightarrow> zone_error + (geozone \<times> db) option" where
  "guarded_update f now zid u expected db =
     (case guarded_row db zid u expected of
        None \<Rightarrow> (case explain_missing_row db zid u of Some e \<Rightarrow> Inl e | None \<Rightarrow> Inr None)
      | Some z \<Rightarrow>
          let z' = (f z)\<lparr>z_version := z_version z + 1, z_updated_at := now\<rparr>
          in Inr (Some (z', db\<lparr>geozones := AList.update zid z' (geozones db)\<rparr>)))"

definition replaced :: "geozone_create \<Rightarrow> geozone \<Rightarrow> geozone" where
  "replaced payload z =
     z\<lparr>z_name := gc_name payload, z_color := (case gc_color payload of None \<Rightarrow> z_color z | Some c \<Rightarrow> c),
       z_center := (gc_latitude payload, gc_longitude payload), z_radius_m := gc_radius_m payload,
       z_alert_on_enter := gc_alert_on_enter payload, z_alert_on_exit := gc_alert_on_exit payload,
       z_dwell_alert_interval_s := gc_dwell_alert_interval_s payload\<rparr>"

definition replace_row :: "micros \<Rightarrow> uuid \<Rightarrow> uuid \<Rightarrow> geozone_create \<Rightarrow> int option \<Rightarrow> db \<Rightarrow> zone_error + (geozone \<times> db) option" where
  "replace_row now zid u payload expected db = guarded_update (replaced payload) now zid u expected db"

text \<open>The assignments of a patch; the handler has refused nulls, so a present field has a value except for the dwell interval.\<close>

definition present :: "'a option option \<Rightarrow> 'a \<Rightarrow> 'a" where
  "present field current = (case field of Some (Some v) \<Rightarrow> v | _ \<Rightarrow> current)"

definition patched :: "geozone_patch \<Rightarrow> geozone \<Rightarrow> geozone" where
  "patched p z =
     z\<lparr>z_name := present (gp_name p) (z_name z), z_color := present (gp_color p) (z_color z),
       z_radius_m := present (gp_radius_m p) (z_radius_m z),
       z_alert_on_enter := present (gp_alert_on_enter p) (z_alert_on_enter z),
       z_alert_on_exit := present (gp_alert_on_exit p) (z_alert_on_exit z),
       z_dwell_alert_interval_s := (case gp_dwell_alert_interval_s p of None \<Rightarrow> z_dwell_alert_interval_s z | Some d \<Rightarrow> d),
       z_center := (present (gp_latitude p) (fst (z_center z)), present (gp_longitude p) (snd (z_center z)))\<rparr>"

definition patch_row :: "micros \<Rightarrow> uuid \<Rightarrow> uuid \<Rightarrow> geozone_patch \<Rightarrow> int option \<Rightarrow> db \<Rightarrow> zone_error + (geozone \<times> db) option" where
  "patch_row now zid u p expected db =
     (if no_changes p then Inr (map_option (\<lambda>z. (z, db)) (get_for_user db zid u))
      else guarded_update (patched p) now zid u expected db)"

text \<open>The foreign keys: presence rows of the zone go with it, alerts keep their text and lose the reference.\<close>

definition delete_row :: "uuid \<Rightarrow> uuid \<Rightarrow> int option \<Rightarrow> db \<Rightarrow> zone_error + db option" where
  "delete_row zid u expected db =
     (case guarded_row db zid u expected of
        None \<Rightarrow> (case explain_missing_row db zid u of Some e \<Rightarrow> Inl e | None \<Rightarrow> Inr None)
      | Some z \<Rightarrow>
          Inr (Some (db\<lparr>geozones := AList.delete zid (geozones db),
                        zone_presence := filter (\<lambda>e. fst (fst e) \<noteq> zid) (zone_presence db),
                        alerts := map (\<lambda>a. if al_zone_id a = Some zid then a\<lparr>al_zone_id := None\<rparr> else a) (alerts db)\<rparr>)))"

definition devices_inside :: "postgis \<Rightarrow> db \<Rightarrow> point \<Rightarrow> rat \<Rightarrow> nat \<Rightarrow> (device_id \<times> device_position) list" where
  "devices_inside pg db center radius limit =
     take limit (sort_key fst (filter (\<lambda>(d, dp). dwithin pg (dp_position dp) center radius) (device_positions db)))"

definition presence_for_user :: "db \<Rightarrow> uuid \<Rightarrow> nat \<Rightarrow> (uuid \<times> device_id list) list" where
  "presence_for_user db u limit =
     (let zones = sort (map fst (owned db u));
          inside = take limit (sort (filter (\<lambda>k. fst k \<in> set zones) (map fst (zone_presence db))))
      in map (\<lambda>zid. (zid, map snd (filter (\<lambda>k. fst k = zid) inside))) zones)"

subsection \<open>The handlers\<close>

definition not_found :: problem where
  "not_found = \<lparr>pb_status = 404, pb_code = ''not_found'', pb_headers = [], pb_extra = []\<rparr>"

definition etag :: "int \<Rightarrow> string" where
  "etag version = quoted (str_int version)"

definition stale_problem :: "int \<Rightarrow> problem" where
  "stale_problem current =
     \<lparr>pb_status = 412, pb_code = ''precondition_failed'', pb_headers = [(''ETag'', etag current)], pb_extra = [(''current_version'', current)]\<rparr>"

definition server_error :: problem where
  "server_error = \<lparr>pb_status = 500, pb_code = ''internal_error'', pb_headers = [], pb_extra = []\<rparr>"

definition zone_problem :: "zone_error \<Rightarrow> problem" where
  "zone_problem e =
     (case e of
        UnknownOwner \<Rightarrow> \<lparr>pb_status = 401, pb_code = ''unauthorized'', pb_headers = [(''WWW-Authenticate'', ''Bearer'')], pb_extra = []\<rparr>
      | QuotaExceeded quota \<Rightarrow> \<lparr>pb_status = 409, pb_code = ''zone_quota_exceeded'', pb_headers = [], pb_extra = []\<rparr>
      | VersionMismatch current \<Rightarrow> stale_problem current
      | DuplicateId \<Rightarrow> server_error)"

definition NO_SUCH_VERSION :: int where "NO_SUCH_VERSION = 0"

definition strip_quotes :: "string \<Rightarrow> string" where
  "strip_quotes s = rev (dropWhile (\<lambda>c. c = CHR 0x22) (rev (dropWhile (\<lambda>c. c = CHR 0x22) s)))"

definition parse_if_match :: "(string \<Rightarrow> int option) \<Rightarrow> string option \<Rightarrow> problem + int option" where
  "parse_if_match int_of raw =
     (case raw of
        None \<Rightarrow> Inr None
      | Some text \<Rightarrow>
          let candidate = strip text in
          if candidate = ''*'' then Inr None
          else let tag = (if prefix ''W/'' candidate then drop 2 candidate else candidate) in
            (case int_of (strip_quotes tag) of
               None \<Rightarrow> Inl \<lparr>pb_status = 400, pb_code = ''bad_request'', pb_headers = [], pb_extra = []\<rparr>
             | Some version \<Rightarrow> Inr (Some (if - (2 ^ 31) \<le> version \<and> version < 2 ^ 31 then version else NO_SUCH_VERSION))))"

record zone_env =
  zn_dumps :: dumps
  zn_isofmt :: "micros \<Rightarrow> string"
  zn_int_of :: "string \<Rightarrow> int option"
  zn_new_id :: uuid
  zn_now :: micros
  zn_publishes :: bool

definition geozone_json :: "(micros \<Rightarrow> string) \<Rightarrow> uuid \<Rightarrow> geozone \<Rightarrow> json" where
  "geozone_json isofmt zid z =
     JObj [(''id'', JStr (uuid_str zid)), (''name'', JStr (z_name z)), (''color'', JStr (z_color z)),
       (''latitude'', JFloat (Fin (fst (z_center z)))), (''longitude'', JFloat (Fin (snd (z_center z)))),
       (''radius_m'', JFloat (Fin (z_radius_m z))), (''alert_on_enter'', JBool (z_alert_on_enter z)),
       (''alert_on_exit'', JBool (z_alert_on_exit z)),
       (''dwell_alert_interval_s'', case z_dwell_alert_interval_s z of None \<Rightarrow> JNull | Some n \<Rightarrow> JInt n),
       (''version'', JInt (z_version z)), (''created_at'', JStr (isofmt (z_created_at z))), (''updated_at'', JStr (isofmt (z_updated_at z)))]"

definition announce :: "zone_env \<Rightarrow> uuid \<Rightarrow> zone_op \<Rightarrow> json + uuid \<Rightarrow> (string \<times> bytes) list" where
  "announce env u op zone = (if zn_publishes env then [(user_channel u, zone_frame (zn_dumps env) op zone)] else [])"

text \<open>An answer: the status, the zone with its \<^verbatim>\<open>ETag\<close>, and the tables and messages after the request.\<close>

record reply =
  rp_status :: int
  rp_zone :: "(uuid \<times> geozone) option"
  rp_etag :: "string option"

definition tagged :: "int \<Rightarrow> uuid \<Rightarrow> geozone \<Rightarrow> reply" where
  "tagged status zid z = \<lparr>rp_status = status, rp_zone = Some (zid, z), rp_etag = Some (etag (z_version z))\<rparr>"

type_synonym outcome_of = "(problem + reply) \<times> db \<times> (string \<times> bytes) list"

definition create_zone :: "zone_env \<Rightarrow> settings \<Rightarrow> uuid \<Rightarrow> geozone_create \<Rightarrow> db \<Rightarrow> outcome_of" where
  "create_zone env s u payload db =
     (case create (zn_new_id env) (zn_now env) u payload (geozone_quota_per_user s) db of
        Inl e \<Rightarrow> (Inl (zone_problem e), db, [])
      | Inr (z, db') \<Rightarrow>
          (Inr (tagged 201 (zn_new_id env) z), db', announce env u Created (Inl (geozone_json (zn_isofmt env) (zn_new_id env) z))))"

definition get_zone :: "uuid \<Rightarrow> uuid \<Rightarrow> db \<Rightarrow> problem + reply" where
  "get_zone zid u db = (case get_for_user db zid u of None \<Rightarrow> Inl not_found | Some z \<Rightarrow> Inr (tagged 200 zid z))"

definition updated_reply :: "zone_env \<Rightarrow> uuid \<Rightarrow> uuid \<Rightarrow> zone_error + (geozone \<times> db) option \<Rightarrow> db \<Rightarrow> outcome_of" where
  "updated_reply env zid u res db =
     (case res of
        Inl e \<Rightarrow> (Inl (zone_problem e), db, [])
      | Inr None \<Rightarrow> (Inl not_found, db, [])
      | Inr (Some (z, db')) \<Rightarrow> (Inr (tagged 200 zid z), db', announce env u Updated (Inl (geozone_json (zn_isofmt env) zid z))))"

definition replace_zone :: "zone_env \<Rightarrow> uuid \<Rightarrow> uuid \<Rightarrow> geozone_create \<Rightarrow> string option \<Rightarrow> db \<Rightarrow> outcome_of" where
  "replace_zone env zid u payload if_match db =
     (case parse_if_match (zn_int_of env) if_match of
        Inl p \<Rightarrow> (Inl p, db, [])
      | Inr expected \<Rightarrow> updated_reply env zid u (replace_row (zn_now env) zid u payload expected db) db)"

definition patch_zone :: "zone_env \<Rightarrow> uuid \<Rightarrow> uuid \<Rightarrow> geozone_patch \<Rightarrow> string option \<Rightarrow> db \<Rightarrow> outcome_of" where
  "patch_zone env zid u p if_match db =
     (case parse_if_match (zn_int_of env) if_match of
        Inl e \<Rightarrow> (Inl e, db, [])
      | Inr expected \<Rightarrow>
          if blanked p \<noteq> [] then (Inl validation_problem, db, [])
          else if no_changes p then
            (case get_for_user db zid u of
               None \<Rightarrow> (Inl not_found, db, [])
             | Some z \<Rightarrow>
                 if expected \<noteq> None \<and> expected \<noteq> Some (z_version z) then (Inl (stale_problem (z_version z)), db, [])
                 else (Inr (tagged 200 zid z), db, []))
          else updated_reply env zid u (patch_row (zn_now env) zid u p expected db) db)"

definition delete_zone :: "zone_env \<Rightarrow> uuid \<Rightarrow> uuid \<Rightarrow> string option \<Rightarrow> db \<Rightarrow> outcome_of" where
  "delete_zone env zid u if_match db =
     (case parse_if_match (zn_int_of env) if_match of
        Inl p \<Rightarrow> (Inl p, db, [])
      | Inr expected \<Rightarrow>
          (case delete_row zid u expected db of
             Inl e \<Rightarrow> (Inl (zone_problem e), db, [])
           | Inr None \<Rightarrow> (Inl not_found, db, [])
           | Inr (Some db') \<Rightarrow>
               (Inr \<lparr>rp_status = 204, rp_zone = None, rp_etag = None\<rparr>, db', announce env u Deleted (Inr zid))))"

definition devices_in_zone :: "postgis \<Rightarrow> uuid \<Rightarrow> uuid \<Rightarrow> nat \<Rightarrow> db \<Rightarrow> problem + (device_id \<times> device_position) list" where
  "devices_in_zone pg zid u limit db =
     (case get_for_user db zid u of
        None \<Rightarrow> Inl not_found
      | Some z \<Rightarrow> Inr (devices_inside pg db (z_center z) (z_radius_m z) limit))"

subsection \<open>Lemmas about the guarded statements\<close>

lemma get_for_user_Some: "get_for_user db zid u = Some z \<longleftrightarrow> map_of (geozones db) zid = Some z \<and> z_user_id z = u"
  by (auto simp: get_for_user_def split: option.splits)

lemma guarded_row_Some:
  "guarded_row db zid u expected = Some z \<longleftrightarrow>
     map_of (geozones db) zid = Some z \<and> z_user_id z = u \<and> (expected = None \<or> expected = Some (z_version z))"
  unfolding guarded_row_def get_for_user_def by (auto split: option.splits if_splits)

lemma guarded_update_Some:
  "guarded_update f now zid u expected db = Inr (Some (z', db')) \<longleftrightarrow>
     (\<exists>z. guarded_row db zid u expected = Some z \<and> z' = (f z)\<lparr>z_version := z_version z + 1, z_updated_at := now\<rparr> \<and>
        db' = db\<lparr>geozones := AList.update zid z' (geozones db)\<rparr>)"
  by (auto simp: guarded_update_def Let_def split: option.splits)

lemma keeps_owner [simp]: "z_user_id (replaced payload z) = z_user_id z" "z_user_id (patched p z) = z_user_id z"
  by (simp_all add: replaced_def patched_def)

lemma stale_after_update:
  assumes "guarded_update f now zid u (Some v) db = Inr (Some (z, db'))" "\<And>x. z_user_id (f x) = z_user_id x"
  shows "get_for_user db' zid u = Some z" "z_version z = v + 1"
  using assms by (auto simp: guarded_update_Some guarded_row_Some get_for_user_Some)

lemma stale_write:
  assumes "get_for_user db zid u = Some z" "z_version z \<noteq> v"
  shows "guarded_update f now zid u (Some v) db = Inl (VersionMismatch (z_version z))"
    "delete_row zid u (Some v) db = Inl (VersionMismatch (z_version z))"
  using assms by (simp_all add: guarded_update_def delete_row_def guarded_row_def explain_missing_row_def)

lemma foreign_row:
  assumes "get_for_user db zid u = None"
  shows "guarded_update f now zid u expected db = Inr None" "delete_row zid u expected db = Inr None"
  using assms by (simp_all add: guarded_update_def delete_row_def guarded_row_def explain_missing_row_def)

subsection \<open>The tables stay well-formed\<close>

lemma keys_insert_zone: "map_of (geozones db) zid = None \<Longrightarrow> zid \<notin> set (keys (geozones db))"
  by (simp add: map_of_eq_None_iff)

lemma wf_create:
  assumes wf: "wf_db db" and c: "create new_id now u payload quota db = Inr (z, db')"
  shows "wf_db db'"
proof -
  from c have u: "map_of (users db) u \<noteq> None" and fresh: "new_id \<notin> set (keys (geozones db))"
    and db': "db' = db\<lparr>geozones := geozones db @ [(new_id, z)]\<rparr>" and owner: "z_user_id z = u"
    by (auto simp: create_def Let_def map_of_eq_None_iff split: if_splits)
  from u have "u \<in> set (keys (users db))" by (auto simp: map_of_eq_None_iff)
  with wf fresh owner show ?thesis unfolding db' wf_db_def
    by (auto simp: keyed_def presence_ok_def alerts_ok_def references_ok_def history_ok_def list_all_iff split: option.splits)
qed

lemma wf_update:
  assumes wf: "wf_db db" and upd: "guarded_update f now zid u expected db = Inr (Some (z', db'))"
    and owner: "\<And>x. z_user_id (f x) = z_user_id x"
  shows "wf_db db'"
proof -
  from upd obtain z where z: "map_of (geozones db) zid = Some z" "z_user_id z = u"
    and z': "z' = (f z)\<lparr>z_version := z_version z + 1, z_updated_at := now\<rparr>"
    and db': "db' = db\<lparr>geozones := AList.update zid z' (geozones db)\<rparr>"
    by (auto simp: guarded_update_Some guarded_row_Some)
  have mem: "zid \<in> set (keys (geozones db))" using map_of_SomeD [OF z(1)] by force
  have keys': "set (keys (AList.update zid z' (geozones db))) = set (keys (geozones db))"
    using mem by (auto simp: image_fst_update)
  have users: "z_user_id z' \<in> set (keys (users db))"
    using wf map_of_SomeD [OF z(1)] owner [of z] by (auto simp: z' wf_db_def references_ok_def list_all_iff)
  have "list_all (\<lambda>(zid, z). z_user_id z \<in> set (keys (users db))) (AList.update zid z' (geozones db))"
    using wf users set_update_entries [of zid z' "geozones db"] by (auto simp: wf_db_def references_ok_def list_all_iff)
  then have "references_ok db'"
    using wf keys' by (auto simp: db' wf_db_def references_ok_def list_all_iff split: option.splits)
  with wf keys' show ?thesis unfolding db' wf_db_def
    by (simp add: keyed_def presence_ok_def alerts_ok_def history_ok_def distinct_update_keys)
qed

lemma wf_delete:
  assumes wf: "wf_db db" and del: "delete_row zid u expected db = Inr (Some db')"
  shows "wf_db db'"
proof -
  from del have db': "db' = db\<lparr>geozones := AList.delete zid (geozones db),
      zone_presence := filter (\<lambda>e. fst (fst e) \<noteq> zid) (zone_presence db),
      alerts := map (\<lambda>a. if al_zone_id a = Some zid then a\<lparr>al_zone_id := None\<rparr> else a) (alerts db)\<rparr>"
    by (auto simp: delete_row_def split: option.splits)
  have ids: "map al_id (alerts db') = map al_id (alerts db)" by (simp add: db')
  have zones: "set (keys (geozones db')) = set (keys (geozones db)) - {zid}" by (simp add: db' image_fst_delete)
  have "keyed db'" using wf by (auto simp: db' wf_db_def keyed_def distinct_delete_keys distinct_map_filter)
  moreover have "presence_ok db'"
    using wf zones by (auto simp: db' wf_db_def presence_ok_def list_all_iff)
  moreover have "alerts_ok db'"
    using wf ids by (auto simp: wf_db_def alerts_ok_def list_all_iff) (auto simp: db')
  moreover have "references_ok db'"
    using wf zones set_delete_entries [of zid "geozones db"]
    by (auto simp: db' wf_db_def references_ok_def list_all_iff split: option.splits)
  moreover have "history_ok db'" using wf by (simp add: db' wf_db_def history_ok_def)
  ultimately show ?thesis by (simp add: wf_db_def)
qed

subsection \<open>Properties\<close>

datatype zone_request =
    CreateZone geozone_create
  | ReplaceZone uuid geozone_create "string option"
  | PatchZone uuid geozone_patch "string option"
  | DeleteZone uuid "string option"

fun zone_handler :: "zone_env \<Rightarrow> settings \<Rightarrow> uuid \<Rightarrow> zone_request \<Rightarrow> db \<Rightarrow> outcome_of" where
  "zone_handler env s u (CreateZone payload) db = create_zone env s u payload db"
| "zone_handler env s u (ReplaceZone zid payload im) db = replace_zone env zid u payload im db"
| "zone_handler env s u (PatchZone zid p im) db = patch_zone env zid u p im db"
| "zone_handler env s u (DeleteZone zid im) db = delete_zone env zid u im db"

lemma wf_updated_reply:
  assumes "wf_db db" "\<And>z db'. res = Inr (Some (z, db')) \<Longrightarrow> wf_db db'"
  shows "wf_db (fst (snd (updated_reply env zid u res db)))"
  using assms by (auto simp: updated_reply_def split: sum.splits option.splits)

lemma wf_patch_row: "wf_db db \<Longrightarrow> patch_row now zid u p expected db = Inr (Some (z, db')) \<Longrightarrow> wf_db db'"
  using wf_update [of db "patched p" now zid u expected z db'] by (auto simp: patch_row_def split: if_splits)

lemma wf_zone_handler: "wf_db db \<Longrightarrow> wf_db (fst (snd (zone_handler env s u rq db)))"
proof (cases rq)
  case (ReplaceZone zid payload im)
  assume wf: "wf_db db"
  have "wf_db (fst (snd (updated_reply env zid u (replace_row now zid u payload expected db) db)))" for now expected
    by (rule wf_updated_reply [OF wf]) (use wf_update [OF wf] in \<open>auto simp: replace_row_def\<close>)
  with ReplaceZone wf show ?thesis by (simp add: replace_zone_def split: sum.splits)
next
  case (PatchZone zid p im)
  assume wf: "wf_db db"
  have "wf_db (fst (snd (updated_reply env zid u (patch_row now zid u p expected db) db)))" for now expected
    by (rule wf_updated_reply [OF wf]) (use wf_patch_row [OF wf] in auto)
  with PatchZone wf show ?thesis by (simp add: patch_zone_def split: sum.splits option.splits)
qed (auto simp: create_zone_def delete_zone_def split: sum.splits option.splits intro: wf_create wf_delete)

text \<open>(C25) Every request on zones, in any order and by any accounts, keeps the tables well-formed: keys stay unique, a
  deleted zone takes its presence rows with it and leaves no dangling alert, and every zone has an owner.\<close>

theorem zone_requests_keep_tables_wellformed:
  "wf_db db \<Longrightarrow> wf_db (fold (\<lambda>(env, s, u, rq) db. fst (snd (zone_handler env s u rq db))) requests db)"
  by (induction requests arbitrary: db) (auto intro: wf_zone_handler)

text \<open>(C4) No update is lost: when a conditional replace or patch succeeds on a version, the zone is at the next
  version, and every other writer that still holds the old one is refused with 412 and changes nothing.\<close>

theorem conditional_write_excludes_lost_updates:
  assumes "parse_if_match (zn_int_of env) tag = Inr (Some v)"
    and "replace_zone env zid u payload tag db = (Inr r, db', msgs) \<or>
      (\<not> no_changes p \<and> patch_zone env zid u p tag db = (Inr r, db', msgs))"
  shows "replace_zone env zid u payload' tag db' = (Inl (stale_problem (v + 1)), db', []) \<and>
    delete_zone env zid u tag db' = (Inl (stale_problem (v + 1)), db', []) \<and>
    (blanked p' = [] \<longrightarrow> patch_zone env zid u p' tag db' = (Inl (stale_problem (v + 1)), db', []))"
proof -
  obtain f z where upd: "guarded_update f (zn_now env) zid u (Some v) db = Inr (Some (z, db'))" "\<And>x. z_user_id (f x) = z_user_id x"
    using assms
    by (auto simp: replace_zone_def patch_zone_def updated_reply_def replace_row_def patch_row_def
        split: sum.splits option.splits if_splits)
  note now = stale_after_update [OF upd]
  have "v + 1 \<noteq> v" by simp
  with stale_write [OF now(1)] now show ?thesis
    using assms(1)
    by (auto simp: replace_zone_def delete_zone_def patch_zone_def replace_row_def patch_row_def updated_reply_def zone_problem_def)
qed

text \<open>(C26) A zone of somebody else cannot be told from one that does not exist: every handler gives the same answer as
  if the zone were absent, changes nothing and announces nothing.\<close>

theorem foreign_zone_is_indistinguishable:
  assumes "map_of (geozones db) zid = Some z" "z_user_id z \<noteq> u"
  defines "without \<equiv> db\<lparr>geozones := AList.delete zid (geozones db)\<rparr>"
  shows "get_zone zid u db = get_zone zid u without \<and>
    devices_in_zone pg zid u limit db = devices_in_zone pg zid u limit without \<and>
    (\<forall>rq. (\<exists>payload im. rq = ReplaceZone zid payload im) \<or> (\<exists>p im. rq = PatchZone zid p im) \<or> (\<exists>im. rq = DeleteZone zid im) \<longrightarrow>
       fst (zone_handler env s u rq db) = fst (zone_handler env s u rq without) \<and>
       snd (zone_handler env s u rq db) = (db, []))"
proof -
  have none: "get_for_user db zid u = None" "get_for_user without zid u = None"
    using assms(1, 2) by (simp_all add: get_for_user_def without_def)
  show ?thesis
    by (auto simp: get_zone_def devices_in_zone_def none replace_zone_def patch_zone_def delete_zone_def updated_reply_def
        replace_row_def patch_row_def foreign_row split: sum.splits)
qed

text \<open>An account never gets more zones than its quota: a successful create leaves it at most at the quota, and a
  refusal for the quota happens only to an account that is there.\<close>

theorem create_respects_the_quota:
  "case create_zone env s u payload db of
     (Inr r, db', msgs) \<Rightarrow> count_for_user db' u = count_for_user db u + 1 \<and> count_for_user db' u \<le> geozone_quota_per_user s
   | (Inl p, db', msgs) \<Rightarrow> db' = db \<and> msgs = [] \<and>
       (pb_code p = ''zone_quota_exceeded'' \<longrightarrow> geozone_quota_per_user s \<le> count_for_user db u)"
  by (auto simp: create_zone_def create_def Let_def count_for_user_def owned_def zone_problem_def stale_problem_def server_error_def
      split: if_splits)

text \<open>A validator survives the round trip: the \<^verbatim>\<open>ETag\<close> that a response carries, sent back as \<^verbatim>\<open>If-Match\<close>, plain
  or marked as weak, reads as the version it was made from.\<close>

theorem etag_round_trip:
  assumes "int_of (str_int v) = Some v" "0 \<le> v" "v < 2 ^ 31"
  shows "parse_if_match int_of (Some (etag v)) = Inr (Some v) \<and> parse_if_match int_of (Some (''W/'' @ etag v)) = Inr (Some v)"
proof -
  have digit: "c \<noteq> CHR 0x22 \<and> \<not> whitespace c" if "c \<in> set (str_int v)" for c
    using that assms(2) digits_chars [of c "nat v"] by (auto simp: str_int_def whitespace_def Let_def)
  have nonempty: "str_int v \<noteq> []" using assms(2) by (simp add: str_int_def) (subst digits.simps, simp)
  have quotes: "strip_quotes (etag v) = str_int v"
  proof -
    have drop: "dropWhile (\<lambda>c. c = CHR 0x22) (str_int v @ xs) = str_int v @ xs" for xs
      using digit nonempty by (cases "str_int v") auto
    have "dropWhile (\<lambda>c. c = CHR 0x22) (rev (str_int v)) = rev (str_int v)"
    proof (cases "rev (str_int v)")
      case (Cons a as)
      then have "a \<in> set (str_int v)" by (metis list.set_intros(1) set_rev)
      with digit Cons show ?thesis by simp
    qed simp
    then show ?thesis by (simp add: strip_quotes_def etag_def quoted_def drop)
  qed
  have plain: "strip (c # xs @ [CHR 0x22]) = c # xs @ [CHR 0x22]" if "\<not> whitespace c" for c xs
  proof -
    have "\<not> whitespace (CHR 0x22)" by (simp add: whitespace_def Let_def)
    with that show ?thesis by (simp add: strip_def)
  qed
  have q: "\<not> whitespace (CHR 0x22)" "\<not> whitespace (CHR ''W'')" by (simp_all add: whitespace_def Let_def)
  have "strip (etag v) = etag v" "strip (''W/'' @ etag v) = ''W/'' @ etag v"
    using plain [OF q(1), of "str_int v"] plain [OF q(2), of "''/'' @ CHR 0x22 # str_int v"] by (simp_all add: etag_def quoted_def)
  moreover have "etag v \<noteq> ''*''" "''W/'' @ etag v \<noteq> ''*''" "\<not> prefix ''W/'' (etag v)" by (simp_all add: etag_def quoted_def)
  ultimately show ?thesis using assms quotes by (simp add: parse_if_match_def Let_def)
qed

subsection \<open>Witnesses\<close>

definition sample_payload :: geozone_create where
  "sample_payload = \<lparr>gc_name = ''Depot'', gc_latitude = 50, gc_longitude = 30, gc_radius_m = 100, gc_color = None,
     gc_alert_on_enter = True, gc_alert_on_exit = True, gc_dwell_alert_interval_s = None\<rparr>"

definition zone_db :: db where
  "zone_db = \<lparr>users = [(7, \<lparr>u_username = ''ann'', u_created_at = 0\<rparr>), (8, \<lparr>u_username = ''bob'', u_created_at = 0\<rparr>)],
     geozones = [(1, replaced sample_payload \<lparr>z_user_id = 7, z_name = [], z_color = [], z_center = (0, 0), z_radius_m = 10,
       z_alert_on_enter = True, z_alert_on_exit = True, z_dwell_alert_interval_s = None, z_version = 3, z_created_at = 0, z_updated_at = 0\<rparr>)],
     device_positions = [], zone_presence = [], alerts = [], alert_seq = 0, location_history = [], history_partitions = []\<rparr>"

definition sample_zone_env :: zone_env where
  "sample_zone_env = \<lparr>zn_dumps = (\<lambda>_. ''{}''), zn_isofmt = (\<lambda>_. ''now''), zn_int_of = (\<lambda>s. if s = ''3'' then Some 3 else None),
     zn_new_id = 2, zn_now = 5, zn_publishes = True\<rparr>"

definition tag3 :: string where
  "tag3 = quoted ''3''"

theorem zone_requests_keep_tables_wellformed_witness:
  "wf_db (fold (\<lambda>(env, s, u, rq) db. fst (snd (zone_handler env s u rq db)))
     [(sample_zone_env, default_settings, 8, CreateZone sample_payload), (sample_zone_env, default_settings, 7, DeleteZone 1 None)] zone_db)"
proof (rule zone_requests_keep_tables_wellformed)
  show "wf_db zone_db" by code_simp
qed

theorem conditional_write_excludes_lost_updates_witness:
  "delete_zone sample_zone_env 1 7 (Some tag3) (fst (snd (replace_zone sample_zone_env 1 7 sample_payload (Some tag3) zone_db))) =
     (Inl (stale_problem 4), fst (snd (replace_zone sample_zone_env 1 7 sample_payload (Some tag3) zone_db)), [])"
proof -
  obtain res db' msgs where r: "replace_zone sample_zone_env 1 7 sample_payload (Some tag3) zone_db = (res, db', msgs)"
    by (metis prod_cases3)
  have "\<not> isl (fst (replace_zone sample_zone_env 1 7 sample_payload (Some tag3) zone_db))" by code_simp
  with r obtain x where "res = Inr x" by (auto simp: isl_def) (metis sum.exhaust)
  moreover have "parse_if_match (zn_int_of sample_zone_env) (Some tag3) = Inr (Some 3)" by code_simp
  ultimately show ?thesis
    using conditional_write_excludes_lost_updates [of sample_zone_env "Some tag3" 3 1 7 sample_payload zone_db x db' msgs] r by auto
qed

theorem foreign_zone_is_indistinguishable_witness:
  "get_zone 1 8 zone_db = get_zone 1 8 (zone_db\<lparr>geozones := AList.delete 1 (geozones zone_db)\<rparr>)"
proof -
  obtain z where "map_of (geozones zone_db) 1 = Some z" "z_user_id z \<noteq> 8" by (simp add: zone_db_def)
  then show ?thesis by (rule foreign_zone_is_indistinguishable [THEN conjunct1])
qed

theorem create_respects_the_quota_witness:
  "count_for_user (fst (snd (create_zone sample_zone_env default_settings 7 sample_payload zone_db))) 7 \<le> 500"
proof -
  have "\<not> isl (fst (create_zone sample_zone_env default_settings 7 sample_payload zone_db))" by code_simp
  moreover have "geozone_quota_per_user default_settings = 500" by (simp add: default_settings_def)
  ultimately show ?thesis using create_respects_the_quota [where env = sample_zone_env and s = default_settings and u = 7 and payload = sample_payload and db = zone_db]
    by (auto split: prod.splits sum.splits)
qed

theorem etag_round_trip_witness:
  "parse_if_match (\<lambda>s. if s = str_int 3 then Some 3 else None) (Some (etag 3)) = Inr (Some 3)"
  using etag_round_trip [of "\<lambda>s. if s = str_int 3 then Some 3 else None" 3] by simp

end
