(* ===== verification/Queries.thy ===== *)
theory Queries
  imports Geozones Geo
begin

text \<open>
  The read side of the API: \<^verbatim>\<open>db/repositories/alerts.py\<close> and \<^verbatim>\<open>api/routes/alerts.py\<close> (alert history, paged by
  keyset), \<^verbatim>\<open>db/repositories/devices.py\<close> and \<^verbatim>\<open>api/routes/devices.py\<close> (positions in a box and tracks), and the
  list and presence reads of \<^verbatim>\<open>api/routes/geozones.py\<close>. A query parameter that does not meet its declared bounds is
  answered with \<^verbatim>\<open>422\<close> before the route runs; \<open>checked\<close> is that check.
\<close>

definition checked :: "int \<Rightarrow> int \<Rightarrow> int \<Rightarrow> bool" where
  "checked lo hi x \<longleftrightarrow> lo \<le> x \<and> x \<le> hi"

definition at_least :: "int \<Rightarrow> int option \<Rightarrow> bool" where
  "at_least lo x = (case x of None \<Rightarrow> True | Some n \<Rightarrow> lo \<le> n)"

subsection \<open>Alert history\<close>

record alert_filter =
  af_before_id :: "int option"
  af_after_id :: "int option"
  af_zone_id :: "uuid option"
  af_device_id :: "device_id option"

text \<open>The conditions of \<^verbatim>\<open>_FILTERS\<close>: an absent one contributes nothing; a zone that is NULL equals no zone.\<close>

definition alert_matches :: "uuid \<Rightarrow> alert_filter \<Rightarrow> alert_row \<Rightarrow> bool" where
  "alert_matches u f a \<longleftrightarrow> al_user_id a = u \<and>
     (case af_before_id f of None \<Rightarrow> True | Some b \<Rightarrow> al_id a < b) \<and>
     (case af_after_id f of None \<Rightarrow> True | Some b \<Rightarrow> b < al_id a) \<and>
     (case af_zone_id f of None \<Rightarrow> True | Some z \<Rightarrow> al_zone_id a = Some z) \<and>
     (case af_device_id f of None \<Rightarrow> True | Some d \<Rightarrow> al_device_id a = d)"

record alert_page =
  ap_items :: "alert_row list"
  ap_next_before_id :: "int option"

definition page :: "db \<Rightarrow> uuid \<Rightarrow> alert_filter \<Rightarrow> nat \<Rightarrow> alert_page" where
  "page db u f limit =
     (let items = take limit (sort_key (\<lambda>a. - al_id a) (filter (alert_matches u f) (alerts db)))
      in \<lparr>ap_items = items, ap_next_before_id = (if length items = limit then Some (al_id (last items)) else None)\<rparr>)"

definition list_alerts :: "db \<Rightarrow> uuid \<Rightarrow> alert_filter \<Rightarrow> int \<Rightarrow> problem + alert_page" where
  "list_alerts db u f limit =
     (if \<not> checked 1 500 limit \<or> \<not> at_least 1 (af_before_id f) \<or> \<not> at_least 0 (af_after_id f) \<or>
         \<not> (case af_device_id f of None \<Rightarrow> True | Some d \<Rightarrow> DeviceId_ok d)
      then Inl validation_problem else Inr (page db u f (nat limit)))"

text \<open>
  A client that follows the cursor, as the description of the route asks: \<open>dbs i\<close> is the database that answers
  the \<open>i\<close>-th request, \<open>fuel\<close> the number of requests it is willing to make. \<open>None\<close> stands for giving up.
\<close>

fun scroll :: "nat \<Rightarrow> (nat \<Rightarrow> db) \<Rightarrow> uuid \<Rightarrow> alert_filter \<Rightarrow> int \<Rightarrow> alert_row list option" where
  "scroll 0 dbs u f limit = None"
| "scroll (Suc fuel) dbs u f limit =
     (case list_alerts (dbs 0) u f limit of
        Inl p \<Rightarrow> None
      | Inr pg \<Rightarrow>
          (case ap_next_before_id pg of
             None \<Rightarrow> Some (ap_items pg)
           | Some b \<Rightarrow> map_option (\<lambda>older. ap_items pg @ older) (scroll fuel (\<lambda>i. dbs (Suc i)) u (f\<lparr>af_before_id := Some b\<rparr>) limit)))"

subsection \<open>Devices\<close>

definition part_condition :: "bbox \<Rightarrow> point \<Rightarrow> bool" where
  "part_condition b p \<longleftrightarrow> west b \<le> snd p \<and> snd p \<le> east b \<and> south b \<le> fst p \<and> fst p \<le> north b"

definition in_bbox :: "db \<Rightarrow> bbox option \<Rightarrow> nat \<Rightarrow> (device_id \<times> device_position) list" where
  "in_bbox db box limit =
     (let conditions = (case box of None \<Rightarrow> [] | Some b \<Rightarrow> map part_condition (parts b))
      in take limit (sort_key fst (filter (\<lambda>(d, dp). conditions = [] \<or> list_ex (\<lambda>c. c (dp_position dp)) conditions) (device_positions db))))"

definition list_devices :: "(string \<Rightarrow> pyfloat option) \<Rightarrow> db \<Rightarrow> string option \<Rightarrow> int \<Rightarrow> problem + (device_id \<times> device_position) list" where
  "list_devices float_of db box limit =
     (if \<not> checked 1 20000 limit then Inl validation_problem
      else (case box of
              None \<Rightarrow> Inr (in_bbox db None (nat limit))
            | Some raw \<Rightarrow>
                (case bbox_parse float_of raw of
                   Inl e \<Rightarrow> Inl validation_problem
                 | Inr b \<Rightarrow> Inr (in_bbox db (Some b) (nat limit)))))"

definition get_device :: "db \<Rightarrow> device_id \<Rightarrow> problem + device_position" where
  "get_device db d =
     (if \<not> DeviceId_ok d then Inl validation_problem
      else (case map_of (device_positions db) d of None \<Rightarrow> Inl not_found | Some dp \<Rightarrow> Inr dp))"

text \<open>\<^verbatim>\<open>track\<close>: the inner query takes the latest rows of the window, the outer one turns them round.\<close>

definition history_of :: "db \<Rightarrow> device_id \<Rightarrow> micros \<Rightarrow> micros \<Rightarrow> (point \<times> micros) list" where
  "history_of db d since_at until_at =
     map (\<lambda>((dev, ts), h). (h_position h, ts))
       (filter (\<lambda>((dev, ts), h). dev = d \<and> since_at \<le> ts \<and> ts < until_at) (location_history db))"

definition track :: "db \<Rightarrow> device_id \<Rightarrow> micros \<Rightarrow> micros \<Rightarrow> nat \<Rightarrow> (point \<times> micros) list" where
  "track db d since_at until_at limit =
     sort_key snd (take limit (sort_key (\<lambda>p. - snd p) (history_of db d since_at until_at)))"

definition DEFAULT_TRACK_WINDOW :: micros where "DEFAULT_TRACK_WINDOW = 3600 * 1000000"

definition get_device_track :: "settings \<Rightarrow> micros \<Rightarrow> db \<Rightarrow> device_id \<Rightarrow> stamp option \<Rightarrow> stamp option \<Rightarrow> int \<Rightarrow>
    problem + (point \<times> micros) list" where
  "get_device_track s now db d since_at until_at limit =
     (if \<not> DeviceId_ok d \<or> \<not> checked 1 10000 limit then Inl validation_problem
      else
        let window_end = (case until_at of None \<Rightarrow> now | Some t \<Rightarrow> as_utc t);
            window_start = (case since_at of None \<Rightarrow> window_end - DEFAULT_TRACK_WINDOW | Some t \<Rightarrow> as_utc t);
            window_start = max window_start (now - history_retention_days s * 86400 * 1000000)
        in if window_end \<le> window_start then Inl validation_problem
           else Inr (track db d window_start window_end (nat limit)))"

subsection \<open>Lists of zones\<close>

definition list_zones :: "db \<Rightarrow> uuid \<Rightarrow> int \<Rightarrow> int \<Rightarrow> problem + ((uuid \<times> geozone) list \<times> int)" where
  "list_zones db u limit offset =
     (if \<not> checked 1 500 limit \<or> offset < 0 then Inl validation_problem
      else Inr (list_for_user db u (nat limit) (nat offset), count_for_user db u))"

definition PRESENCE_DEVICE_LIMIT :: nat where "PRESENCE_DEVICE_LIMIT = 20000"

definition zone_presence_of :: "db \<Rightarrow> uuid \<Rightarrow> (uuid \<times> device_id list) list" where
  "zone_presence_of db u = presence_for_user db u PRESENCE_DEVICE_LIMIT"

subsection \<open>Scrolling through alerts\<close>

text \<open>With growing identities the descending order of the query is the reverse of the table.\<close>

definition matching :: "db \<Rightarrow> uuid \<Rightarrow> alert_filter \<Rightarrow> alert_row list" where
  "matching db u f = rev (filter (alert_matches u f) (alerts db))"

lemma sort_key_eqI:
  assumes "mset ys = mset xs" "sorted (map g ys)" "distinct (map g xs)"
  shows "sort_key g xs = ys"
proof (rule properties_for_sort_key [OF assms(1) _ assms(2)])
  fix x assume "x \<in> set ys"
  have "distinct (map g (filter (\<lambda>y. g x = g y) xs))" using assms(3) by (rule distinct_map_filter)
  then have "card (g ` set (filter (\<lambda>y. g x = g y) xs)) = length (filter (\<lambda>y. g x = g y) xs)"
    by (metis distinct_card length_map set_map)
  moreover have "card (g ` set (filter (\<lambda>y. g x = g y) xs)) \<le> card {g x}" by (intro card_mono) auto
  ultimately have "length (filter (\<lambda>y. g x = g y) xs) \<le> 1" by simp
  moreover have "mset (filter (\<lambda>y. g x = g y) ys) = mset (filter (\<lambda>y. g x = g y) xs)" using assms(1) by simp
  ultimately show "filter (\<lambda>y. g x = g y) ys = filter (\<lambda>y. g x = g y) xs"
    by (cases "filter (\<lambda>y. g x = g y) xs") (auto simp del: mset_filter)
qed

lemma sort_key_rev:
  fixes k :: "'a \<Rightarrow> int"
  assumes "distinct (map k xs)"
  shows "sort_key (\<lambda>x. - k x) xs = rev (sort_key k xs)"
proof (rule sort_key_eqI)
  have "sorted_wrt (\<lambda>a b. k a \<le> k b) (sort_key k xs)" using sorted_sort_key [of k xs] by (simp add: sorted_wrt_map)
  then show "sorted (map (\<lambda>x. - k x) (rev (sort_key k xs)))" by (simp add: sorted_wrt_map sorted_wrt_rev)
  show "distinct (map (\<lambda>x. - k x) xs)" using assms by (simp add: distinct_map inj_on_def)
qed simp

lemma sort_key_sorted: "sorted_wrt (<) (map (k :: 'a \<Rightarrow> int) xs) \<Longrightarrow> sort_key k xs = xs"
  by (rule sort_key_eqI) (auto simp: strict_sorted_iff)

lemma sort_key_descending:
  "sorted_wrt (<) (map (k :: 'a \<Rightarrow> int) xs) \<Longrightarrow> sort_key (\<lambda>x. - k x) xs = rev xs"
  by (simp add: sort_key_rev sort_key_sorted strict_sorted_iff)

lemma sorted_wrt_filter_map: "sorted_wrt R (map k xs) \<Longrightarrow> sorted_wrt R (map k (filter P xs))"
  by (simp add: sorted_wrt_map sorted_wrt_filter)

lemma page_items: "alerts_ok db \<Longrightarrow> ap_items (page db u f limit) = take limit (matching db u f)"
  by (simp add: page_def matching_def Let_def alerts_ok_def sort_key_descending sorted_wrt_filter_map)

lemma page_next:
  "alerts_ok db \<Longrightarrow> ap_next_before_id (page db u f limit) =
     (if limit \<le> length (matching db u f) then Some (al_id (last (take limit (matching db u f)))) else None)"
  by (auto simp: page_def matching_def Let_def alerts_ok_def sort_key_descending sorted_wrt_filter_map)

lemma matching_descends: "alerts_ok db \<Longrightarrow> sorted_wrt (\<lambda>a b. al_id b < al_id a) (matching db u f)"
  by (simp add: matching_def alerts_ok_def sorted_wrt_rev sorted_wrt_map sorted_wrt_filter)

text \<open>While a client scrolls, alerts with new identities are appended; identities start at one.\<close>

definition grows :: "(nat \<Rightarrow> db) \<Rightarrow> bool" where
  "grows dbs \<longleftrightarrow>
     (\<forall>i. alerts_ok (dbs i) \<and> list_all (\<lambda>a. 1 \<le> al_id a) (alerts (dbs i)) \<and> (\<exists>new. alerts (dbs (Suc i)) = alerts (dbs i) @ new))"

lemma filter_below_in_descending:
  fixes k :: "'a \<Rightarrow> int"
  assumes "sorted_wrt (\<lambda>a b. k b < k a) xs" "0 < n" "n \<le> length xs"
  shows "filter (\<lambda>a. k a < k (last (take n xs))) xs = drop n xs"
proof -
  have split: "sorted_wrt (\<lambda>a b. k b < k a) (take n xs @ drop n xs)" using assms(1) by simp
  define y ys where "y = last (take n xs)" and "ys = butlast (take n xs)"
  have ty: "take n xs = ys @ [y]" using assms(2, 3) unfolding y_def ys_def by (subst append_butlast_last_id) auto
  have "filter (\<lambda>a. k a < k y) (take n xs) = []" "filter (\<lambda>a. k a < k y) (drop n xs) = drop n xs"
    using split unfolding ty by (auto simp: sorted_wrt_append filter_empty_conv filter_id_conv)
  then have "filter (\<lambda>a. k a < k y) (take n xs @ drop n xs) = drop n xs" by (simp only: filter_append append.simps)
  then show ?thesis by (simp add: y_def)
qed

lemma matching_before:
  assumes "alerts_ok db" "0 < n" "n \<le> length (matching db u f)"
  shows "matching db u (f\<lparr>af_before_id := Some (al_id (last (take n (matching db u f))))\<rparr>) = drop n (matching db u f)"
proof -
  let ?b = "al_id (last (take n (matching db u f)))"
  have "last (take n (matching db u f)) \<in> set (matching db u f)"
    using assms(2, 3) by (metis in_set_takeD last_in_set length_0_conv length_take min.absorb2 not_gr_zero)
  then have lower: "case af_before_id f of None \<Rightarrow> True | Some b \<Rightarrow> ?b < b"
    by (auto simp: matching_def alert_matches_def split: option.splits)
  have "alert_matches u (f\<lparr>af_before_id := Some ?b\<rparr>) a \<longleftrightarrow> alert_matches u f a \<and> al_id a < ?b" for a
    using lower by (auto simp: alert_matches_def split: option.splits)
  then have "matching db u (f\<lparr>af_before_id := Some ?b\<rparr>) = filter (\<lambda>a. al_id a < ?b) (matching db u f)"
    unfolding matching_def rev_filter [symmetric] filter_filter by (auto intro: filter_cong)
  also have "\<dots> = drop n (matching db u f)"
    by (rule filter_below_in_descending [OF matching_descends [OF assms(1)] assms(2, 3)])
  finally show ?thesis .
qed

lemma matching_grown:
  assumes "grows dbs" "a \<in> set (alerts (dbs 0))" "b \<le> al_id a"
  shows "matching (dbs (Suc 0)) u (f\<lparr>af_before_id := Some b\<rparr>) = matching (dbs 0) u (f\<lparr>af_before_id := Some b\<rparr>)"
proof -
  obtain new where new: "alerts (dbs (Suc 0)) = alerts (dbs 0) @ new" and ok: "alerts_ok (dbs (Suc 0))"
    using assms(1) unfolding grows_def by blast
  have "al_id a < al_id x" if "x \<in> set new" for x
    using ok that assms(2) by (auto simp: alerts_ok_def new sorted_wrt_append)
  then have "filter (alert_matches u (f\<lparr>af_before_id := Some b\<rparr>)) new = []"
    using assms(3) by (fastforce simp: filter_empty_conv alert_matches_def)
  then show ?thesis by (simp add: matching_def new)
qed

lemma scroll_collects:
  assumes "grows dbs" "checked 1 500 limit" "at_least 1 (af_before_id f)" "at_least 0 (af_after_id f)"
    and "case af_device_id f of None \<Rightarrow> True | Some d \<Rightarrow> DeviceId_ok d"
    and "length (matching (dbs 0) u f) < fuel * nat limit"
  shows "scroll fuel dbs u f limit = Some (matching (dbs 0) u f)"
  using assms
proof (induction fuel arbitrary: dbs f)
  case 0
  then show ?case by simp
next
  case (Suc fuel)
  let ?n = "nat limit" and ?M = "matching (dbs 0) u f"
  have n: "0 < ?n" using Suc.prems(2) by (simp add: checked_def)
  have ok: "alerts_ok (dbs 0)" and ids: "list_all (\<lambda>a. 1 \<le> al_id a) (alerts (dbs 0))" using Suc.prems(1) by (auto simp: grows_def)
  have page: "list_alerts (dbs 0) u f limit = Inr (page (dbs 0) u f ?n)"
    using Suc.prems(2-5) by (simp add: list_alerts_def)
  show ?case
  proof (cases "?n \<le> length ?M")
    case False
    then show ?thesis by (simp add: page page_next [OF ok] page_items [OF ok])
  next
    case True
    let ?x = "last (take ?n ?M)"
    let ?f = "f\<lparr>af_before_id := Some (al_id ?x)\<rparr>"
    have "?x \<in> set ?M" using n True by (metis in_set_takeD last_in_set length_0_conv length_take min.absorb2 not_gr_zero)
    then have x: "?x \<in> set (alerts (dbs 0))" by (simp add: matching_def)
    have rest: "matching (dbs (Suc 0)) u ?f = drop ?n ?M"
      by (simp add: matching_grown [OF Suc.prems(1) x] matching_before [OF ok n True])
    have "scroll fuel (\<lambda>i. dbs (Suc i)) u ?f limit = Some (matching (dbs (Suc 0)) u ?f)"
    proof (rule Suc.IH)
      show "grows (\<lambda>i. dbs (Suc i))" using Suc.prems(1) by (simp add: grows_def)
      show "length (matching (dbs (Suc 0)) u ?f) < fuel * ?n" using Suc.prems(6) True by (simp add: rest)
      show "at_least 1 (af_before_id ?f)" using ids x by (auto simp: at_least_def list_all_iff)
    qed (use Suc.prems in simp_all)
    then show ?thesis by (simp add: page page_next [OF ok] page_items [OF ok] True rest)
  qed
qed

subsection \<open>Tracks\<close>

lemma history_stamps_distinct: "keyed db \<Longrightarrow> distinct (map snd (history_of db d since_at until_at))"
proof -
  assume "keyed db"
  let ?rows = "filter (\<lambda>((dev, ts), h). dev = d \<and> since_at \<le> ts \<and> ts < until_at) (location_history db)"
  have "distinct (map fst ?rows)" using \<open>keyed db\<close> by (auto simp: keyed_def intro: distinct_map_filter)
  moreover have "inj_on snd (set (map fst ?rows))" by (auto simp: inj_on_def)
  ultimately have "distinct (map snd (map fst ?rows))" using distinct_map by blast
  moreover have "map snd (history_of db d since_at until_at) = map snd (map fst ?rows)" by (auto simp: history_of_def)
  ultimately show ?thesis by metis
qed

lemma track_is_a_suffix:
  fixes d :: device_id and since_at until_at :: micros
  assumes "keyed db"
  defines "w \<equiv> sort_key snd (history_of db d since_at until_at)"
  shows "track db d since_at until_at limit = drop (length w - limit) w"
proof -
  note stamps = history_stamps_distinct [OF assms(1), of d since_at until_at]
  have "sort_key (\<lambda>p. - snd p) (history_of db d since_at until_at) = rev w"
    unfolding w_def by (rule sort_key_rev [OF stamps])
  then have "track db d since_at until_at limit = sort_key snd (rev (drop (length w - limit) w))"
    by (simp add: track_def take_rev)
  also have "\<dots> = drop (length w - limit) w"
  proof (rule sort_key_eqI)
    show "sorted (map snd (drop (length w - limit) w))" unfolding w_def drop_map [symmetric] by (intro sorted_wrt_drop sorted_sort_key)
    have "distinct (map snd w)" using stamps unfolding w_def by (metis distinct_map mset_sort mset_eq_imp_distinct_iff mset_map)
    then show "distinct (map snd (rev (drop (length w - limit) w)))" by (simp add: drop_map [symmetric] rev_map [symmetric])
  qed simp
  finally show ?thesis .
qed

subsection \<open>Properties\<close>

text \<open>(C38) A client that follows the cursor of the alert history ends, and has seen every alert that matched its filter
  when it began exactly once and newest first, although alerts keep arriving while it scrolls: with \<open>n\<close> matching
  alerts it makes at most \<open>n div limit + 1\<close> requests.\<close>

theorem scrolling_sees_every_alert_once:
  assumes "grows dbs" "checked 1 500 limit" "at_least 1 (af_before_id f)" "at_least 0 (af_after_id f)"
    and "case af_device_id f of None \<Rightarrow> True | Some d \<Rightarrow> DeviceId_ok d"
    and "n = length (filter (alert_matches u f) (alerts (dbs 0)))"
  shows "scroll (n div nat limit + 1) dbs u f limit = Some (rev (filter (alert_matches u f) (alerts (dbs 0))))"
proof -
  have "n < (n div nat limit + 1) * nat limit"
    using assms(2) by (simp add: checked_def) (metis div_less_iff_less_mult lessI zero_less_nat_eq add.commute mult_Suc zero_less_one less_le_trans)
  then have "length (matching (dbs 0) u f) < (n div nat limit + 1) * nat limit" by (simp add: matching_def assms(6))
  from scroll_collects [OF assms(1-5) this] show ?thesis by (simp add: matching_def)
qed

text \<open>The track of a device is the latest part of its history in the half-open window, oldest point first.\<close>

theorem track_is_the_latest_part:
  assumes "keyed db" "get_device_track s now db d since_at until_at limit = Inr points"
  shows "\<exists>lo hi older. lo < hi \<and> now - history_retention_days s * 86400 * 1000000 \<le> lo \<and>
    sort_key snd (history_of db d lo hi) = older @ points \<and> int (length points) \<le> limit \<and>
    (older \<noteq> [] \<longrightarrow> int (length points) = limit)"
proof -
  obtain lo hi where w: "lo < hi" "now - history_retention_days s * 86400 * 1000000 \<le> lo" "points = track db d lo hi (nat limit)" "1 \<le> limit"
    using assms(2) that [of "max _ _"] by (auto simp: get_device_track_def checked_def Let_def not_le split: if_splits)
  let ?w = "sort_key snd (history_of db d lo hi)"
  have "points = drop (length ?w - nat limit) ?w" using w(3) track_is_a_suffix [OF assms(1)] by simp
  then have "?w = take (length ?w - nat limit) ?w @ points \<and> int (length points) \<le> limit \<and>
      (take (length ?w - nat limit) ?w \<noteq> [] \<longrightarrow> int (length points) = limit)"
    using w(4) by (auto simp: min_def)
  with w(1, 2) show ?thesis by blast
qed

text \<open>A bounding box selects exactly the devices it contains, also across the antimeridian: the answer is the first
  \<open>limit\<close> of them in the order of their names.\<close>

theorem listed_devices_are_those_in_the_box:
  assumes "bbox_parse float_of raw = Inr b" "checked 1 20000 limit"
    and "list_all (\<lambda>(d, dp). - 180 \<le> snd (dp_position dp) \<and> snd (dp_position dp) \<le> 180) (device_positions db)"
  shows "list_devices float_of db (Some raw) limit =
    Inr (take (nat limit) (sort_key fst (filter (\<lambda>(d, dp). bbox_contains b (fst (dp_position dp)) (snd (dp_position dp))) (device_positions db))))"
proof -
  have parts_ne: "parts b \<noteq> []" by (simp add: parts_def)
  have wf: "wf_bbox b" using assms(1) by (auto simp: bbox_parse_def split: list.splits option.splits intro: BBox_wf)
  have "list_ex (\<lambda>c. c p) (map part_condition (parts b)) \<longleftrightarrow> bbox_contains b (fst p) (snd p)" if "- 180 \<le> snd p" "snd p \<le> 180" for p
    using parts_contains_iff [OF that wf, of "fst p"] parts_not_crossing [OF wf]
    by (auto simp: list_ex_iff part_condition_def bbox_contains_def)
  then have eq: "list_ex (\<lambda>c. c p) (map part_condition (parts b)) \<longleftrightarrow> bbox_contains b (fst p) (snd p)" if "- 180 \<le> snd p" "snd p \<le> 180" for p
    using that by blast
  have "filter (\<lambda>(d, dp). map part_condition (parts b) = [] \<or> list_ex (\<lambda>c. c (dp_position dp)) (map part_condition (parts b))) (device_positions db) =
      filter (\<lambda>(d, dp). bbox_contains b (fst (dp_position dp)) (snd (dp_position dp))) (device_positions db)"
    by (intro filter_cong refl) (use assms(3) parts_ne eq in \<open>force simp: list_all_iff simp del: list_ex_iff\<close>)
  then show ?thesis using assms(1, 2) by (simp add: list_devices_def in_bbox_def)
qed

definition sample_alert :: "int \<Rightarrow> alert_row" where
  "sample_alert i = \<lparr>al_id = i, al_user_id = 7, al_zone_id = None, al_zone_name = [], al_device_id = ''d'', al_kind = ENTER,
     al_latitude = 0, al_longitude = 0, al_occurred_at = i, al_created_at = i\<rparr>"

definition alert_db :: "nat \<Rightarrow> db" where
  "alert_db i = zone_db\<lparr>alerts := map sample_alert [1..3 + int i], alert_seq := 3 + int i\<rparr>"

definition no_filter :: alert_filter where
  "no_filter = \<lparr>af_before_id = None, af_after_id = None, af_zone_id = None, af_device_id = None\<rparr>"

lemma alert_db_grows: "grows alert_db"
proof -
  have "alerts_ok (alert_db i)" for i
    by (auto simp: alerts_ok_def alert_db_def sample_alert_def list_all_iff comp_def)
  moreover have "alerts (alert_db (Suc i)) = alerts (alert_db i) @ [sample_alert (4 + int i)]" for i
    by (simp add: alert_db_def upto_rec2 add.assoc [symmetric])
  ultimately show ?thesis by (auto simp: grows_def alert_db_def sample_alert_def list_all_iff)
qed

theorem scrolling_sees_every_alert_once_witness:
  "scroll 2 alert_db 7 no_filter 2 = Some [sample_alert 3, sample_alert 2, sample_alert 1]"
proof -
  have al: "filter (alert_matches 7 no_filter) (alerts (alert_db 0)) = [sample_alert 1, sample_alert 2, sample_alert 3]"
    by code_simp
  have two: "3 div nat 2 + 1 = (2 :: nat)" by simp
  from scrolling_sees_every_alert_once [OF alert_db_grows, of 2 no_filter 3 7]
  show ?thesis unfolding al two by (simp add: checked_def at_least_def no_filter_def del: scroll.simps)
qed

definition track_db :: db where
  "track_db = zone_db\<lparr>location_history := [((''d'', 10), \<lparr>h_position = (1, 1), h_received_at = 10\<rparr>), ((''d'', 30), \<lparr>h_position = (3, 3), h_received_at = 30\<rparr>),
     ((''d'', 20), \<lparr>h_position = (2, 2), h_received_at = 20\<rparr>)]\<rparr>"

theorem track_is_the_latest_part_witness:
  "keyed track_db \<and> get_device_track default_settings 100 track_db ''d'' None None 2 = Inr [((2, 2), 20), ((3, 3), 30)] \<and>
   (\<exists>lo hi older. sort_key snd (history_of track_db ''d'' lo hi) = older @ [((2, 2), 20), ((3, 3), 30)])"
proof -
  have k: "keyed track_db" by code_simp
  have t: "get_device_track default_settings 100 track_db ''d'' None None 2 = Inr [((2, 2), 20), ((3, 3), 30)]" by code_simp
  from track_is_the_latest_part [OF k t] k t show ?thesis by blast
qed

theorem listed_devices_are_those_in_the_box_witness:
  "list_devices (\<lambda>_. Some (Fin 0)) zone_db (Some '',,,'') 5 =
    Inr (take 5 (sort_key fst (filter (\<lambda>(d, dp). bbox_contains \<lparr>west = 0, south = 0, east = 0, north = 0\<rparr> (fst (dp_position dp)) (snd (dp_position dp))) (device_positions zone_db))))"
proof -
  have p: "bbox_parse (\<lambda>_. Some (Fin 0)) '',,,'' = Inr \<lparr>west = 0, south = 0, east = 0, north = 0\<rparr>" by code_simp
  have l: "list_all (\<lambda>(d, dp). - 180 \<le> snd (dp_position dp) \<and> snd (dp_position dp) \<le> 180) (device_positions zone_db)" by code_simp
  from listed_devices_are_those_in_the_box [OF p _ l, of 5] show ?thesis by (simp add: checked_def)
qed

end
