(* ===== verification/Accounts.thy ===== *)
theory Accounts
  imports Geozones Bridge "HOL-Library.Countable"
begin

text \<open>
  Accounts and tokens: \<^verbatim>\<open>schemas/auth.py\<close>, \<^verbatim>\<open>db/repositories/users.py\<close>, \<^verbatim>\<open>api/security.py\<close>, \<^verbatim>\<open>api/routes/auth.py\<close>,
  \<^verbatim>\<open>get_current_user\<close> of \<^verbatim>\<open>api/deps.py\<close>, the problem responses of \<^verbatim>\<open>api/problems.py\<close> and the readiness route
  of \<^verbatim>\<open>api/routes/health.py\<close>.

  The package \<^verbatim>\<open>jwt\<close> is third-party code: the record \<open>jwt\<close> holds its \<^verbatim>\<open>encode\<close> and \<^verbatim>\<open>decode\<close> as the module calls them,
  with the algorithm fixed. \<open>jwt_laws\<close> is what its documentation promises of them: a token decodes, with the key it was signed
  with and within its lifetime give or take the leeway, to the claims it was made of; with another key, or after
  its lifetime, it does not; and it has no blanks. Times are whole seconds in a token.
\<close>

subsection \<open>Names\<close>

definition username_char :: "char \<Rightarrow> bool" where
  "username_char c \<longleftrightarrow>
     (let n = of_char c :: nat in 65 \<le> n \<and> n \<le> 90 \<or> 97 \<le> n \<and> n \<le> 122 \<or> 48 \<le> n \<and> n \<le> 57 \<or> c \<in> set ''_.-'')"

definition Username_ok :: "string \<Rightarrow> bool" where
  "Username_ok s \<longleftrightarrow> 3 \<le> length s \<and> length s \<le> 32 \<and> list_all username_char s"

definition LoginRequest :: "string \<Rightarrow> string option" where
  "LoginRequest username = (if Username_ok username then Some (map lower_char username) else None)"

subsection \<open>Accounts\<close>

record user_out =
  uo_id :: uuid
  uo_username :: string

definition user_named :: "db \<Rightarrow> string \<Rightarrow> (uuid \<times> user_row) option" where
  "user_named db name = List.find (\<lambda>(i, r). u_username r = name) (users db)"

text \<open>
  \<^verbatim>\<open>INSERT ... ON CONFLICT (username) DO NOTHING\<close>: a taken name inserts nothing; a taken identifier, which the conflict
  clause does not cover, is an error of the statement.
\<close>

datatype account_error = IdentifierTaken | UserVanished

definition insert_user :: "uuid \<Rightarrow> micros \<Rightarrow> string \<Rightarrow> db \<Rightarrow> account_error + (user_out option \<times> db)" where
  "insert_user new_id now name db =
     (if user_named db name \<noteq> None then Inr (None, db)
      else if map_of (users db) new_id \<noteq> None then Inl IdentifierTaken
      else Inr (Some \<lparr>uo_id = new_id, uo_username = name\<rparr>, db\<lparr>users := users db @ [(new_id, \<lparr>u_username = name, u_created_at = now\<rparr>)]\<rparr>))"

definition get_or_create :: "uuid \<Rightarrow> micros \<Rightarrow> string \<Rightarrow> db \<Rightarrow> account_error + (user_out \<times> db)" where
  "get_or_create new_id now name db =
     (case insert_user new_id now name db of
        Inl e \<Rightarrow> Inl e
      | Inr (Some u, db') \<Rightarrow> Inr (u, db')
      | Inr (None, db') \<Rightarrow>
          (case user_named db' name of
             None \<Rightarrow> Inl UserVanished
           | Some (i, r) \<Rightarrow> Inr (\<lparr>uo_id = i, uo_username = u_username r\<rparr>, db')))"

subsection \<open>Tokens\<close>

record jwt_payload =
  jp_sub :: string
  jp_name :: "string option"
  jp_iat :: int
  jp_exp :: int
  jp_jti :: string

record jwt =
  jw_encode :: "jwt_payload \<Rightarrow> string \<Rightarrow> string"
  jw_decode :: "string \<Rightarrow> string \<Rightarrow> int \<Rightarrow> string + jwt_payload"

definition LEEWAY_S :: int where "LEEWAY_S = 5"

definition jwt_laws :: "jwt \<Rightarrow> bool" where
  "jwt_laws j \<longleftrightarrow>
     (\<forall>p key now. jp_iat p \<le> now + LEEWAY_S \<and> now - LEEWAY_S < jp_exp p \<longrightarrow> jw_decode j (jw_encode j p key) key now = Inr p) \<and>
     (\<forall>p key now. jp_exp p \<le> now - LEEWAY_S \<longrightarrow> isl (jw_decode j (jw_encode j p key) key now)) \<and>
     (\<forall>p key key' now. key \<noteq> key' \<longrightarrow> isl (jw_decode j (jw_encode j p key) key' now)) \<and>
     (\<forall>p key. list_all (\<lambda>c. \<not> whitespace c) (jw_encode j p key))"

definition to_seconds :: "micros \<Rightarrow> int" where
  "to_seconds t = t div 1000000"

definition create_access_token :: "jwt \<Rightarrow> settings \<Rightarrow> micros \<Rightarrow> uuid \<Rightarrow> uuid \<Rightarrow> string \<Rightarrow> string \<times> int" where
  "create_access_token j s issued_at jti user_id username =
     (let expires_in = jwt_ttl_seconds s;
          payload = \<lparr>jp_sub = uuid_str user_id, jp_name = Some username, jp_iat = to_seconds issued_at,
            jp_exp = to_seconds (issued_at + expires_in * 1000000), jp_jti = uuid_str jti\<rparr>
      in (jw_encode j payload (jwt_secret s), expires_in))"

datatype token_error = InvalidToken string

definition decode_access_token :: "jwt \<Rightarrow> (string \<Rightarrow> uuid option) \<Rightarrow> settings \<Rightarrow> micros \<Rightarrow> string \<Rightarrow> token_error + user_out" where
  "decode_access_token j uuid_of s now token =
     (case jw_decode j token (jwt_secret s) (to_seconds now) of
        Inl e \<Rightarrow> Inl (InvalidToken e)
      | Inr p \<Rightarrow>
          (case (uuid_of (jp_sub p), jp_name p) of
             (None, _) \<Rightarrow> Inl (InvalidToken ''badly formed hexadecimal UUID string'')
           | (Some u, None) \<Rightarrow> Inl (InvalidToken ''name'')
           | (Some u, Some n) \<Rightarrow> Inr \<lparr>uo_id = u, uo_username = n\<rparr>))"

subsection \<open>Routes\<close>

definition bearer_problem :: problem where
  "bearer_problem = \<lparr>pb_status = 401, pb_code = ''unauthorized'', pb_headers = [(''WWW-Authenticate'', ''Bearer'')], pb_extra = []\<rparr>"

definition after_blank :: "string \<Rightarrow> string" where
  "after_blank s = drop 1 (dropWhile (\<lambda>c. c \<noteq> CHR '' '') s)"

definition get_current_user :: "jwt \<Rightarrow> (string \<Rightarrow> uuid option) \<Rightarrow> settings \<Rightarrow> micros \<Rightarrow> string option \<Rightarrow> problem + user_out" where
  "get_current_user j uuid_of s now authorization =
     (case authorization of
        None \<Rightarrow> Inl bearer_problem
      | Some header \<Rightarrow>
          if \<not> prefix ''bearer '' (map lower_char header) then Inl bearer_problem
          else (case decode_access_token j uuid_of s now (strip (after_blank header)) of
                  Inl e \<Rightarrow> Inl bearer_problem
                | Inr claims \<Rightarrow> Inr claims))"

record token_response =
  tr_access_token :: string
  tr_expires_in :: int
  tr_user :: user_out

definition login :: "jwt \<Rightarrow> settings \<Rightarrow> micros \<Rightarrow> uuid \<Rightarrow> uuid \<Rightarrow> string \<Rightarrow> db \<Rightarrow> (problem + token_response) \<times> db" where
  "login j s now new_id jti username db =
     (case LoginRequest username of
        None \<Rightarrow> (Inl validation_problem, db)
      | Some name \<Rightarrow>
          (case get_or_create new_id now name db of
             Inl e \<Rightarrow> (Inl server_error, db)
           | Inr (user, db') \<Rightarrow>
               (case create_access_token j s now jti (uo_id user) (uo_username user) of (token, expires_in) \<Rightarrow>
                  (Inr \<lparr>tr_access_token = token, tr_expires_in = expires_in, tr_user = user\<rparr>, db'))))"

definition me :: "jwt \<Rightarrow> (string \<Rightarrow> uuid option) \<Rightarrow> settings \<Rightarrow> micros \<Rightarrow> string option \<Rightarrow> problem + user_out" where
  "me j uuid_of s now authorization = get_current_user j uuid_of s now authorization"

subsection \<open>Problem responses and readiness\<close>

definition TITLES :: "(int \<times> string) list" where
  "TITLES = [(400, ''Bad request''), (401, ''Authentication required''), (403, ''Forbidden''), (404, ''Not found''), (409, ''Conflict''),
     (412, ''Precondition failed''), (413, ''Payload too large''), (422, ''Request validation failed''), (429, ''Too many requests''),
     (503, ''Service unavailable'')]"

definition CODES :: "(int \<times> string) list" where
  "CODES = [(400, ''bad_request''), (401, ''unauthorized''), (403, ''forbidden''), (404, ''not_found''), (409, ''conflict''),
     (412, ''precondition_failed''), (413, ''payload_too_large''), (422, ''validation_error''), (429, ''too_many_requests''),
     (503, ''service_unavailable'')]"

text \<open>The body of a problem: the members in their order, with \<^verbatim>\<open>extra\<close> merged in as \<^verbatim>\<open>dict.update\<close> does.\<close>

definition problem_body :: "int \<Rightarrow> string \<Rightarrow> string \<Rightarrow> string option \<Rightarrow> (string \<times> json) list \<Rightarrow> (string \<times> json) list" where
  "problem_body status title code detail extra =
     (let body = [(''type'', JStr (''/problems/'' @ code)), (''title'', JStr title), (''status'', JInt status), (''code'', JStr code)] @
        (case detail of None \<Rightarrow> [] | Some d \<Rightarrow> if d = [] then [] else [(''detail'', JStr d)])
      in fold (\<lambda>(k, v) b. AList.update k v b) extra body)"

record response =
  rs_status :: int
  rs_headers :: "(string \<times> string) list"
  rs_body :: bytes

definition problem_response :: "dumps \<Rightarrow> int \<Rightarrow> string \<Rightarrow> string \<Rightarrow> string option \<Rightarrow> (string \<times> string) list \<Rightarrow> (string \<times> json) list \<Rightarrow> response" where
  "problem_response dumps status title code detail headers extra =
     \<lparr>rs_status = status, rs_headers = headers, rs_body = dumps (JObj (problem_body status title code detail extra))\<rparr>"

definition http_problem :: "dumps \<Rightarrow> int \<Rightarrow> string \<Rightarrow> (string \<times> string) list \<Rightarrow> response" where
  "http_problem dumps status detail headers =
     problem_response dumps status
       (case map_of TITLES status of None \<Rightarrow> ''Request failed'' | Some t \<Rightarrow> t)
       (case map_of CODES status of None \<Rightarrow> ''http_error'' | Some c \<Rightarrow> c)
       (if detail = [] then None else Some detail) headers []"

definition pool_timeout_problem :: "dumps \<Rightarrow> response" where
  "pool_timeout_problem dumps =
     problem_response dumps 503 ''Database is busy'' ''database_busy''
       (Some ''No database connection was available in time. Retry shortly.'') [(''Retry-After'', ''1'')] []"

text \<open>\<open>failure\<close> is the text of what the two checks raise within their three seconds, if they do.\<close>

definition ready :: "dumps \<Rightarrow> string option \<Rightarrow> bridge \<Rightarrow> response option" where
  "ready dumps failure b =
     (case failure of
        Some e \<Rightarrow> Some (problem_response dumps 503 ''Service unavailable'' ''not_ready'' (Some (''A dependency is not reachable: '' @ e)) [(''Retry-After'', ''1'')] [])
      | None \<Rightarrow>
          if \<not> delivering b then
            Some (problem_response dumps 503 ''Service unavailable'' ''not_ready''
              (Some ''The realtime fan-out reader is not running on this replica.'') [(''Retry-After'', ''1'')] [])
          else None)"

subsection \<open>Lemmas\<close>

lemma lower_lower [simp]: "lower_char (lower_char c) = lower_char c"
  by (auto simp: lower_char_def Let_def of_char_of)

lemma strip_plain: "list_all (\<lambda>c. \<not> whitespace c) s \<Longrightarrow> strip s = s"
proof -
  have "dropWhile whitespace xs = xs" if "list_all (\<lambda>c. \<not> whitespace c) xs" for xs using that by (cases xs) auto
  from this [of s] this [of "rev s"] show "list_all (\<lambda>c. \<not> whitespace c) s \<Longrightarrow> strip s = s" by (simp add: strip_def list_all_iff)
qed

lemma bearer_lower: "map lower_char ''Bearer '' = ''bearer ''"
  by code_simp

lemma bearer_header:
  "prefix ''bearer '' (map lower_char (''Bearer '' @ token))" "after_blank (''Bearer '' @ token) = token"
proof -
  show "prefix ''bearer '' (map lower_char (''Bearer '' @ token))" unfolding map_append bearer_lower by (rule prefixI) (rule refl)
  show "after_blank (''Bearer '' @ token) = token" by (simp add: after_blank_def)
qed

lemma find_append_list: "List.find P (xs @ ys) = (case List.find P xs of None \<Rightarrow> List.find P ys | Some x \<Rightarrow> Some x)"
  by (induction xs) auto

lemma user_named_Some:
  "user_named db name = Some (i, r) \<Longrightarrow> (i, r) \<in> set (users db) \<and> u_username r = name"
  by (auto simp: user_named_def find_Some_iff) (metis nth_mem)

lemma user_named_None: "user_named db name = None \<Longrightarrow> (i, r) \<in> set (users db) \<Longrightarrow> u_username r \<noteq> name"
  by (auto simp: user_named_def find_None_iff)

lemma get_or_create_ok:
  assumes "get_or_create new_id now name db = Inr (u, db')"
  obtains r where "user_named db' name = Some (uo_id u, r)" "uo_username u = name"
    "db' = db \<or> (user_named db name = None \<and> uo_id u \<notin> set (keys (users db)) \<and> db' = db\<lparr>users := users db @ [(uo_id u, r)]\<rparr>)"
proof (cases "user_named db name")
  case None
  then have "List.find (\<lambda>(i, r). u_username r = name) (users db @ [(new_id, \<lparr>u_username = name, u_created_at = now\<rparr>)]) =
      Some (new_id, \<lparr>u_username = name, u_created_at = now\<rparr>)"
    by (auto simp: user_named_def find_append_list)
  with None assms show ?thesis
    by (intro that [of "\<lparr>u_username = name, u_created_at = now\<rparr>"])
      (auto simp: get_or_create_def insert_user_def user_named_def map_of_eq_None_iff rev_image_eqI split: if_splits)
next
  case (Some ir)
  with assms user_named_Some [of db name] show ?thesis
    by (cases ir) (auto simp: get_or_create_def insert_user_def intro: that)
qed

lemma get_or_create_again:
  assumes "user_named db' name = Some (uo_id u, r)" "uo_username u = name"
  shows "get_or_create new_id now name db' = Inr (u, db')"
  using assms user_named_Some [OF assms(1)] by (simp add: get_or_create_def insert_user_def)

definition names_unique :: "db \<Rightarrow> bool" where
  "names_unique db \<longleftrightarrow> distinct (map (\<lambda>(i, r). u_username r) (users db))"

lemma wf_add_user:
  assumes "wf_db db" "i \<notin> set (keys (users db))"
  shows "wf_db (db\<lparr>users := users db @ [(i, r)]\<rparr>)"
  using assms by (auto simp: wf_db_def keyed_def presence_ok_def alerts_ok_def references_ok_def history_ok_def list_all_iff split: option.splits)

lemma get_or_create_keeps:
  assumes "get_or_create new_id now name db = Inr (u, db')" "wf_db db" "names_unique db"
  shows "wf_db db' \<and> names_unique db'"
proof -
  obtain r where r: "user_named db' name = Some (uo_id u, r)"
    "db' = db \<or> (user_named db name = None \<and> uo_id u \<notin> set (keys (users db)) \<and> db' = db\<lparr>users := users db @ [(uo_id u, r)]\<rparr>)"
    using get_or_create_ok [OF assms(1)] by metis
  have "names_unique (db\<lparr>users := users db @ [(uo_id u, r)]\<rparr>)" if "user_named db name = None"
    using that assms(3) user_named_Some [OF r(1)] user_named_None [OF that] by (fastforce simp: names_unique_def)
  with r(2) assms(2, 3) wf_add_user [of db "uo_id u" r] show ?thesis by auto
qed

lemma login_ok:
  assumes "login j s now new_id jti username db = (Inr resp, db')"
  shows "get_or_create new_id now (map lower_char username) db = Inr (tr_user resp, db') \<and>
    tr_access_token resp = fst (create_access_token j s now jti (uo_id (tr_user resp)) (uo_username (tr_user resp)))"
  using assms by (auto simp: login_def LoginRequest_def split: option.splits if_splits sum.splits prod.splits)

subsection \<open>Properties\<close>

text \<open>(C39) Login and identity: the token that a login hands out names, on every replica with the same secret and at any
  time of its life, the account that the database has for the lower-case name; a replica with another secret, or any
  replica five seconds after the end of its life, answers 401. A later login under the same name, in whatever case,
  gets the same account and changes nothing.\<close>

theorem token_names_the_account:
  assumes "jwt_laws j" "uuid_of (uuid_str (uo_id (tr_user resp))) = Some (uo_id (tr_user resp))"
    and "login j s now new_id jti username db = (Inr resp, db')"
    and "to_seconds now \<le> to_seconds t + LEEWAY_S"
  defines "header \<equiv> ''Bearer '' @ tr_access_token resp" and "end_s \<equiv> to_seconds (now + jwt_ttl_seconds s * 1000000)"
  shows "(to_seconds t - LEEWAY_S < end_s \<longrightarrow> me j uuid_of s t (Some header) = Inr (tr_user resp)) \<and>
    (end_s \<le> to_seconds t - LEEWAY_S \<longrightarrow> me j uuid_of s t (Some header) = Inl bearer_problem) \<and>
    (jwt_secret s' \<noteq> jwt_secret s \<longrightarrow> me j uuid_of s' t (Some header) = Inl bearer_problem) \<and>
    (\<exists>r. (uo_id (tr_user resp), r) \<in> set (users db') \<and> u_username r = map lower_char username) \<and>
    (Username_ok username' \<and> map lower_char username' = map lower_char username \<longrightarrow>
       (\<exists>resp'. login j s later other_id jti' username' db' = (Inr resp', db') \<and> tr_user resp' = tr_user resp))"
proof -
  note gc = login_ok [OF assms(3), THEN conjunct1] and tok = login_ok [OF assms(3), THEN conjunct2]
  obtain r where r: "user_named db' (map lower_char username) = Some (uo_id (tr_user resp), r)"
      "uo_username (tr_user resp) = map lower_char username"
    using get_or_create_ok [OF gc] by metis
  define p where "p = \<lparr>jp_sub = uuid_str (uo_id (tr_user resp)), jp_name = Some (uo_username (tr_user resp)), jp_iat = to_seconds now,
    jp_exp = end_s, jp_jti = uuid_str jti\<rparr>"
  have tok': "tr_access_token resp = jw_encode j p (jwt_secret s)"
    by (simp add: tok create_access_token_def p_def end_s_def Let_def)
  have stripped: "strip (after_blank header) = jw_encode j p (jwt_secret s)" and bearer: "prefix ''bearer '' (map lower_char header)"
    using assms(1) bearer_header(1) [of "tr_access_token resp"] unfolding header_def bearer_header(2) tok' jwt_laws_def by (blast intro: strip_plain)+
  have "me j uuid_of x t (Some header) =
      (case decode_access_token j uuid_of x t (jw_encode j p (jwt_secret s)) of Inl e \<Rightarrow> Inl bearer_problem | Inr c \<Rightarrow> Inr c)" for x
    by (simp add: me_def get_current_user_def stripped bearer)
  moreover have "decode_access_token j uuid_of s t (jw_encode j p (jwt_secret s)) = Inr (tr_user resp)" if "to_seconds t - LEEWAY_S < end_s"
    using assms(1, 2, 4) that by (simp add: jwt_laws_def decode_access_token_def p_def)
  moreover have "isl (decode_access_token j uuid_of s t (jw_encode j p (jwt_secret s)))" if "end_s \<le> to_seconds t - LEEWAY_S"
  proof -
    have "isl (jw_decode j (jw_encode j p (jwt_secret s)) (jwt_secret s) (to_seconds t))"
      using assms(1) that unfolding jwt_laws_def by (simp add: p_def)
    then show ?thesis by (auto simp: decode_access_token_def isl_def)
  qed
  moreover have "isl (decode_access_token j uuid_of s' t (jw_encode j p (jwt_secret s)))" if "jwt_secret s' \<noteq> jwt_secret s"
  proof -
    have "isl (jw_decode j (jw_encode j p (jwt_secret s)) (jwt_secret s') (to_seconds t))"
      using assms(1) that unfolding jwt_laws_def by metis
    then show ?thesis by (auto simp: decode_access_token_def isl_def)
  qed
  moreover have "\<exists>resp'. login j s later other_id jti' username' db' = (Inr resp', db') \<and> tr_user resp' = tr_user resp"
    if "Username_ok username'" "map lower_char username' = map lower_char username"
    using that get_or_create_again [OF r] by (simp add: login_def LoginRequest_def split: prod.splits)
  ultimately show ?thesis using user_named_Some [OF r(1)] by (auto simp: isl_def)
qed

text \<open>Logins keep the tables well-formed and the names unique: after any sequence of logins every name has one account.\<close>

theorem logins_keep_names_unique:
  "wf_db db \<Longrightarrow> names_unique db \<Longrightarrow>
     wf_db (fold (\<lambda>(now, new_id, jti, name) db. snd (login j s now new_id jti name db)) logins db) \<and>
     names_unique (fold (\<lambda>(now, new_id, jti, name) db. snd (login j s now new_id jti name db)) logins db)"
proof (induction logins arbitrary: db)
  case (Cons l logins)
  obtain now new_id jti name where l: "l = (now, new_id, jti, name)" by (cases l)
  have "wf_db (snd (login j s now new_id jti name db)) \<and> names_unique (snd (login j s now new_id jti name db))"
  proof (cases "login j s now new_id jti name db")
    case (Pair res db')
    show ?thesis
    proof (cases res)
      case (Inl p)
      with Pair Cons.prems show ?thesis by (auto simp: login_def split: option.splits sum.splits prod.splits)
    next
      case (Inr resp)
      with login_ok [of j s now new_id jti name db resp db'] Pair get_or_create_keeps Cons.prems show ?thesis by auto
    qed
  qed
  with Cons.IH show ?case by (simp add: l)
qed simp

definition counting_jwt :: jwt where
  "counting_jwt =
     \<lparr>jw_encode = (\<lambda>p key. replicate (to_nat (jp_sub p, jp_name p, jp_iat p, jp_exp p, jp_jti p, key)) CHR ''x''),
      jw_decode = (\<lambda>token key now.
        case from_nat (length token) of (sub, name, iat, until_s, jti, signature :: string) \<Rightarrow>
          if signature \<noteq> key then Inl ''Signature verification failed''
          else if until_s \<le> now - LEEWAY_S then Inl ''Signature has expired''
          else if now + LEEWAY_S < iat then Inl ''The token is not yet valid (iat)''
          else Inr \<lparr>jp_sub = sub, jp_name = name, jp_iat = iat, jp_exp = until_s, jp_jti = jti\<rparr>)\<rparr>"

lemma counting_jwt_laws: "jwt_laws counting_jwt"
  by (auto simp: jwt_laws_def counting_jwt_def list_all_iff whitespace_def)

theorem token_names_the_account_witness:
  "\<exists>resp db'. login counting_jwt default_settings 0 9 1 ''Ann'' zone_db = (Inr resp, db') \<and>
     me counting_jwt (\<lambda>s. if s = uuid_str 7 then Some 7 else None) default_settings 5000000 (Some (''Bearer '' @ tr_access_token resp)) = Inr \<lparr>uo_id = 7, uo_username = ''ann''\<rparr>"
proof -
  have name: "LoginRequest ''Ann'' = Some ''ann''" by code_simp
  have "get_or_create 9 0 ''ann'' zone_db = Inr (\<lparr>uo_id = 7, uo_username = ''ann''\<rparr>, zone_db)" by code_simp
  then obtain resp where l: "login counting_jwt default_settings 0 9 1 ''Ann'' zone_db = (Inr resp, zone_db)" and u: "tr_user resp = \<lparr>uo_id = 7, uo_username = ''ann''\<rparr>"
    by (cases "create_access_token counting_jwt default_settings 0 1 7 ''ann''") (auto simp: login_def name)
  have "to_seconds 0 \<le> to_seconds 5000000 + LEEWAY_S" "to_seconds 5000000 - LEEWAY_S < to_seconds (0 + jwt_ttl_seconds default_settings * 1000000)"
    by code_simp+
  with token_names_the_account [OF counting_jwt_laws _ l, of "\<lambda>s. if s = uuid_str 7 then Some 7 else None" 5000000] l show ?thesis
    by (auto simp: u)
qed

theorem logins_keep_names_unique_witness:
  "names_unique (fold (\<lambda>(now, new_id, jti, name) db. snd (login counting_jwt default_settings now new_id jti name db)) [(0, 9, 1, ''Ann''), (0, 10, 1, ''eve'')] zone_db)"
proof -
  have "wf_db zone_db" "names_unique zone_db" by code_simp+
  from logins_keep_names_unique [OF this] show ?thesis by blast
qed

end
