(* ===== verification/Fleet.thy ===== *)
theory Fleet
  imports Gateway "HOL-Library.Multiset"
begin

text \<open>
  The load generator \<^verbatim>\<open>generator.py\<close>, first part: geometry, movement, payloads, the schedule of a fleet and the batcher.

  \<^verbatim>\<open>math\<close> and \<^verbatim>\<open>random\<close> are records of the functions that the module calls: the trigonometric functions come from the
  platform's C library, and a \<^verbatim>\<open>random.Random\<close> is a state of any type with the draws as operations on it. All statements
  hold whatever these functions are.
\<close>

record math =
  mt_sin :: "rat \<Rightarrow> rat"
  mt_cos :: "rat \<Rightarrow> rat"
  mt_sqrt :: "rat \<Rightarrow> rat"
  mt_hypot :: "rat \<Rightarrow> rat \<Rightarrow> rat"
  mt_atan2 :: "rat \<Rightarrow> rat \<Rightarrow> rat"
  mt_radians :: "rat \<Rightarrow> rat"
  mt_degrees :: "rat \<Rightarrow> rat"
  mt_pi :: rat

record 'g prng =
  pr_seed :: "string \<Rightarrow> 'g"
  pr_random :: "'g \<Rightarrow> rat \<times> 'g"
  pr_uniform :: "rat \<Rightarrow> rat \<Rightarrow> 'g \<Rightarrow> rat \<times> 'g"
  pr_gauss :: "rat \<Rightarrow> rat \<Rightarrow> 'g \<Rightarrow> rat \<times> 'g"
  pr_randrange :: "nat \<Rightarrow> 'g \<Rightarrow> nat \<times> 'g"

subsection \<open>Geometry\<close>

definition M_PER_DEG_LAT :: rat where "M_PER_DEG_LAT = 111320"

definition m_per_deg_lon :: "math \<Rightarrow> rat \<Rightarrow> rat" where
  "m_per_deg_lon mt lat = max (fl (M_PER_DEG_LAT * mt_cos mt (mt_radians mt lat))) 1"

definition wrap_deg :: "rat \<Rightarrow> rat" where
  "wrap_deg delta = fl (pymod (fl (delta + 180)) 360 - 180)"

record area =
  ar_lat :: rat
  ar_lon :: rat
  ar_radius_m :: rat

definition offsets :: "math \<Rightarrow> area \<Rightarrow> rat \<Rightarrow> rat \<Rightarrow> rat \<times> rat" where
  "offsets mt a lat lon =
     (let north_m = fl (fl (lat - ar_lat a) * M_PER_DEG_LAT);
          east_m = fl (wrap_deg (fl (lon - ar_lon a)) * m_per_deg_lon mt (fl (fl (lat + ar_lat a) / 2)))
      in (east_m, north_m))"

definition position :: "math \<Rightarrow> area \<Rightarrow> rat \<Rightarrow> rat \<Rightarrow> rat \<times> rat" where
  "position mt a east_m north_m =
     (let lat = fl (ar_lat a + fl (north_m / M_PER_DEG_LAT));
          lat = min (max lat (- fl (899 / 10))) (fl (899 / 10));
          lon = wrap_deg (fl (ar_lon a + fl (east_m / m_per_deg_lon mt (fl (fl (lat + ar_lat a) / 2)))))
      in (lat, lon))"

subsection \<open>Movement\<close>

record motion_profile =
  mp_name :: string
  mp_share :: rat
  mp_min_speed_mps :: rat
  mp_max_speed_mps :: rat
  mp_heading_sigma_deg :: rat
  mp_speed_sigma_mps :: rat

definition MotionProfile :: "string \<Rightarrow> rat \<Rightarrow> rat \<Rightarrow> rat \<Rightarrow> rat \<Rightarrow> rat \<Rightarrow> motion_profile" where
  "MotionProfile name share lo hi heading speed =
     \<lparr>mp_name = name, mp_share = fl share, mp_min_speed_mps = fl lo, mp_max_speed_mps = fl hi,
      mp_heading_sigma_deg = fl heading, mp_speed_sigma_mps = fl speed\<rparr>"

definition PROFILES :: "motion_profile list" where
  "PROFILES =
     [MotionProfile ''stationary'' (20/100) 0 (4/10) 30 (8/100), MotionProfile ''pedestrian'' (35/100) (6/10) 2 12 (20/100),
      MotionProfile ''cyclist'' (20/100) 3 (65/10) 8 (50/100), MotionProfile ''car'' (25/100) 12 20 5 (120/100)]"

record device_state =
  st_device_id :: device_id
  st_lat :: rat
  st_lon :: rat
  st_heading_deg :: rat
  st_speed_mps :: rat
  st_profile :: motion_profile

definition device_rng :: "'g prng \<Rightarrow> int \<Rightarrow> device_id \<Rightarrow> 'g" where
  "device_rng pr seed d = pr_seed pr (str_int seed @ '':'' @ d)"

definition report_rng :: "'g prng \<Rightarrow> int \<Rightarrow> device_id \<Rightarrow> 'g" where
  "report_rng pr seed d = pr_seed pr (str_int seed @ '':interval:'' @ d)"

fun pick_profile :: "rat \<Rightarrow> rat \<Rightarrow> motion_profile list \<Rightarrow> motion_profile" where
  "pick_profile draw cumulative [] = last PROFILES"
| "pick_profile draw cumulative (p # ps) =
     (let cumulative = fl (cumulative + mp_share p) in if draw < cumulative then p else pick_profile draw cumulative ps)"

definition profile_for :: "'g prng \<Rightarrow> 'g \<Rightarrow> motion_profile \<times> 'g" where
  "profile_for pr g = (case pr_random pr g of (draw, g1) \<Rightarrow> (pick_profile draw 0 PROFILES, g1))"

text \<open>The format \<^verbatim>\<open>:05d\<close>.\<close>

definition pad5 :: "nat \<Rightarrow> string" where
  "pad5 n = replicate (5 - length (digits n)) CHR ''0'' @ digits n"

definition build_device :: "math \<Rightarrow> 'g prng \<Rightarrow> string \<Rightarrow> area \<Rightarrow> int \<Rightarrow> nat \<Rightarrow> device_state" where
  "build_device mt pr name_prefix a seed index =
     (let d = name_prefix @ pad5 index;
          (profile, g1) = profile_for pr (device_rng pr seed d);
          (u, g2) = pr_random pr g1;
          distance = fl (ar_radius_m a * mt_sqrt mt u);
          (bearing, g3) = pr_uniform pr 0 (fl (2 * mt_pi mt)) g2;
          (lat, lon) = position mt a (fl (distance * mt_sin mt bearing)) (fl (distance * mt_cos mt bearing));
          (heading, g4) = pr_uniform pr 0 360 g3;
          (speed, g5) = pr_uniform pr (mp_min_speed_mps profile) (mp_max_speed_mps profile) g4
      in \<lparr>st_device_id = d, st_lat = lat, st_lon = lon, st_heading_deg = heading, st_speed_mps = speed, st_profile = profile\<rparr>)"

definition build_fleet :: "math \<Rightarrow> 'g prng \<Rightarrow> nat \<Rightarrow> string \<Rightarrow> area \<Rightarrow> int \<Rightarrow> device_state list" where
  "build_fleet mt pr devices name_prefix a seed = map (build_device mt pr name_prefix a seed) [0..<devices]"

definition reflect :: "math \<Rightarrow> rat \<Rightarrow> rat \<Rightarrow> rat \<Rightarrow> rat \<Rightarrow> rat \<Rightarrow> rat \<times> rat \<times> rat" where
  "reflect mt east_m north_m radius limit heading_deg =
     (let scale = fl (max (fl (fl (2 * limit) - radius)) 0 / radius);
          normal_deg = mt_degrees mt (mt_atan2 mt east_m north_m)
      in (fl (east_m * scale), fl (north_m * scale), pymod (fl (fl (fl (2 * normal_deg) + 180) - heading_deg)) 360))"

definition advance :: "math \<Rightarrow> 'g prng \<Rightarrow> rat \<Rightarrow> area \<Rightarrow> device_state \<Rightarrow> 'g \<Rightarrow> device_state \<times> 'g" where
  "advance mt pr dt a st g =
     (let profile = st_profile st;
          scale = mt_sqrt mt dt;
          (turn, g1) = pr_gauss pr 0 (fl (mp_heading_sigma_deg profile * scale)) g;
          heading_deg = pymod (fl (st_heading_deg st + turn)) 360;
          (drift, g2) = pr_gauss pr 0 (fl (mp_speed_sigma_mps profile * scale)) g1;
          drifted = fl (st_speed_mps st + drift);
          speed = min (max drifted (mp_min_speed_mps profile)) (mp_max_speed_mps profile);
          heading = mt_radians mt heading_deg;
          distance = fl (speed * dt);
          (east0, north0) = offsets mt a (st_lat st) (st_lon st);
          east1 = fl (east0 + fl (distance * mt_sin mt heading));
          north1 = fl (north0 + fl (distance * mt_cos mt heading));
          radius = mt_hypot mt east1 north1;
          (east2, north2, heading2) =
            (if ar_radius_m a < radius then reflect mt east1 north1 radius (ar_radius_m a) heading_deg else (east1, north1, heading_deg));
          (lat, lon) = position mt a east2 north2
      in (st\<lparr>st_lat := lat, st_lon := lon, st_heading_deg := heading2, st_speed_mps := speed\<rparr>, g2))"

subsection \<open>Payloads\<close>

text \<open>\<^verbatim>\<open>round(x, 7)\<close>: the nearest decimal with seven places, half to even, read back as a double.\<close>

definition round7 :: "rat \<Rightarrow> rat" where
  "round7 x = fl (of_int (half_even (x * 10000000)) / 10000000)"

record fleet_report =
  fr_device_id :: device_id
  fr_latitude :: rat
  fr_longitude :: rat
  fr_timestamp :: micros

definition report_payload :: "device_state \<Rightarrow> micros \<Rightarrow> fleet_report" where
  "report_payload st moment =
     \<lparr>fr_device_id = st_device_id st, fr_latitude = round7 (st_lat st), fr_longitude = round7 (st_lon st), fr_timestamp = moment\<rparr>"

definition report_json :: "(micros \<Rightarrow> string) \<Rightarrow> fleet_report \<Rightarrow> json" where
  "report_json isofmt r =
     JObj [(''device_id'', JStr (fr_device_id r)), (''latitude'', JFloat (Fin (fr_latitude r))), (''longitude'', JFloat (Fin (fr_longitude r))),
       (''timestamp'', JStr (isofmt (fr_timestamp r)))]"

definition ingest_envelope :: "dumps \<Rightarrow> (micros \<Rightarrow> string) \<Rightarrow> fleet_report list \<Rightarrow> int option \<Rightarrow> bytes" where
  "ingest_envelope dumps isofmt reports seq =
     (case seq of
        None \<Rightarrow> dumps (JObj [(''items'', JList (map (report_json isofmt) reports))])
      | Some n \<Rightarrow> dumps (JObj [(''seq'', JInt n), (''items'', JList (map (report_json isofmt) reports))]))"

text \<open>\<^verbatim>\<open>range(0, len(reports), size)\<close> raises for a size of zero, which no configuration has.\<close>

function chunked :: "'a list \<Rightarrow> nat \<Rightarrow> 'a list list" where
  "chunked reports n = (if reports = [] \<or> n = 0 then [] else take n reports # chunked (drop n reports) n)"
  by auto
termination by (relation "measure (length \<circ> fst)") auto

declare chunked.simps [simp del]

subsection \<open>Scheduling\<close>

definition JITTER :: rat where "JITTER = fl (2/10)"
definition IDLE_SLEEP_S :: rat where "IDLE_SLEEP_S = 1/4"

definition jittered_interval :: "'g prng \<Rightarrow> rat \<Rightarrow> 'g \<Rightarrow> rat \<times> 'g" where
  "jittered_interval pr interval g =
     (case pr_uniform pr (fl (1 - JITTER)) (fl (1 + JITTER)) g of (u, g1) \<Rightarrow> (fl (interval * u), g1))"

text \<open>The heap of pairs \<^verbatim>\<open>(due, index)\<close>, kept as its sorted list: \<^verbatim>\<open>heappop\<close> always takes the least pair.\<close>

type_synonym schedule = "(rat \<times> nat) list"

definition push :: "nat \<Rightarrow> rat \<Rightarrow> schedule \<Rightarrow> schedule" where
  "push index due s = insort (due, index) s"

fun pop_due :: "rat \<Rightarrow> schedule \<Rightarrow> nat list \<times> schedule" where
  "pop_due now [] = ([], [])"
| "pop_due now ((due, index) # s) =
     (if due \<le> now then (case pop_due now s of (is, rest) \<Rightarrow> (index # is, rest)) else ([], (due, index) # s))"

definition next_delay :: "rat \<Rightarrow> schedule \<Rightarrow> rat" where
  "next_delay now s = (case s of [] \<Rightarrow> IDLE_SLEEP_S | (due, index) # rest \<Rightarrow> max (fl (due - now)) 0)"

subsection \<open>The batcher\<close>

record batcher =
  ba_size :: nat
  ba_window :: rat
  ba_reports :: "fleet_report list"
  ba_oldest_at :: rat

definition new_batcher :: "nat \<Rightarrow> rat \<Rightarrow> batcher" where
  "new_batcher n window = \<lparr>ba_size = n, ba_window = window, ba_reports = [], ba_oldest_at = 0\<rparr>"

definition batcher_add :: "fleet_report \<Rightarrow> rat \<Rightarrow> batcher \<Rightarrow> batcher" where
  "batcher_add r now b =
     (if ba_reports b = [] then b\<lparr>ba_oldest_at := now, ba_reports := [r]\<rparr> else b\<lparr>ba_reports := ba_reports b @ [r]\<rparr>)"

definition remaining :: "rat \<Rightarrow> batcher \<Rightarrow> rat option" where
  "remaining now b =
     (if ba_reports b = [] then None else Some (max (fl (fl (ba_oldest_at b + ba_window b) - now)) 0))"

definition batch_ready :: "rat \<Rightarrow> batcher \<Rightarrow> bool" where
  "batch_ready now b = (case remaining now b of None \<Rightarrow> False | Some r \<Rightarrow> ba_size b \<le> length (ba_reports b) \<or> r \<le> 0)"

definition batcher_take :: "batcher \<Rightarrow> fleet_report list \<times> batcher" where
  "batcher_take b =
     (if length (ba_reports b) \<le> ba_size b then (ba_reports b, b\<lparr>ba_reports := []\<rparr>)
      else (take (ba_size b) (ba_reports b), b\<lparr>ba_reports := drop (ba_size b) (ba_reports b)\<rparr>))"

text \<open>\<^verbatim>\<open>while batcher.ready(now): self._offer(batcher.take())\<close>; \<open>None\<close> when the fuel is spent before the loop ends.\<close>

fun take_ready :: "nat \<Rightarrow> rat \<Rightarrow> batcher \<Rightarrow> (fleet_report list list \<times> batcher) option" where
  "take_ready 0 now b = (if batch_ready now b then None else Some ([], b))"
| "take_ready (Suc fuel) now b =
     (if batch_ready now b then
        (case batcher_take b of (batch, b1) \<Rightarrow> map_option (\<lambda>(bs, b2). (batch # bs, b2)) (take_ready fuel now b1))
      else Some ([], b))"

subsection \<open>The interface of a schedule\<close>

text \<open>
  What the driver of a fleet relies on: pushing adds one deadline, popping removes exactly the deadlines that have come.
  A driver that puts every device back that it popped keeps one deadline per device.
\<close>

locale deadline_queue =
  fixes put :: "nat \<Rightarrow> rat \<Rightarrow> 'q \<Rightarrow> 'q" and pop :: "rat \<Rightarrow> 'q \<Rightarrow> nat list \<times> 'q"
    and entries :: "'q \<Rightarrow> (rat \<times> nat) multiset" and ok :: "'q \<Rightarrow> bool"
  assumes ok_put: "ok q \<Longrightarrow> ok (put i t q)"
    and entries_put: "entries (put i t q) = add_mset (t, i) (entries q)"
    and ok_pop: "ok q \<Longrightarrow> pop now q = (due, q') \<Longrightarrow> ok q'"
    and entries_pop: "ok q \<Longrightarrow> pop now q = (due, q') \<Longrightarrow> image_mset snd (entries q) = mset due + image_mset snd (entries q')"
    and pop_complete: "ok q \<Longrightarrow> pop now q = (due, q') \<Longrightarrow> e \<in># entries q' \<Longrightarrow> now < fst e"
begin

definition members :: "'q \<Rightarrow> nat multiset" where
  "members q = image_mset snd (entries q)"

lemma members_put [simp]: "members (put i t q) = add_mset i (members q)"
  by (simp add: members_def entries_put)

lemma members_put_all: "members (fold (\<lambda>(i, t). put i t) its q) = mset (map fst its) + members q"
  by (induction its arbitrary: q) auto

lemma ok_put_all: "ok q \<Longrightarrow> ok (fold (\<lambda>(i, t). put i t) its q)"
  by (induction its arbitrary: q) (auto intro: ok_put)

lemma members_pop: "ok q \<Longrightarrow> pop now q = (due, q') \<Longrightarrow> members q = mset due + members q'"
  unfolding members_def by (rule entries_pop)

lemma served_keeps_members:
  "ok q \<Longrightarrow> pop now q = (due, q') \<Longrightarrow> map fst its = due \<Longrightarrow> members (fold (\<lambda>(i, t). put i t) its q') = members q"
  by (simp add: members_put_all members_pop del: mset_map)

lemma due_distinct:
  assumes "ok q" "pop now q = (due, q')" "members q = mset ids" "distinct ids"
  shows "distinct due \<and> set due \<subseteq> set ids"
proof -
  obtain rest where "mset rest = members q'" using ex_mset by blast
  with members_pop [OF assms(1, 2)] assms(3) have eq: "mset ids = mset (due @ rest)" by simp
  then have "distinct (due @ rest)" using assms(4) mset_eq_imp_distinct_iff by blast
  with mset_eq_setD [OF eq] show ?thesis by auto
qed

end

lemma sorted_pop_due:
  "sorted s \<Longrightarrow> pop_due now s = (due, s') \<Longrightarrow>
     sorted s' \<and> image_mset snd (mset s) = mset due + image_mset snd (mset s') \<and> (\<forall>e \<in> set s'. now < fst e)"
proof (induction s arbitrary: due)
  case (Cons e s)
  then show ?case
    by (cases e) (force simp: less_eq_prod_def split: if_splits prod.splits)
qed auto

interpretation sched: deadline_queue push pop_due mset sorted
proof unfold_locales
  fix s s' :: schedule and now due i t e
  show "sorted (push i t s)" if "sorted s" using that by (simp add: push_def sorted_insort)
  show "mset (push i t s) = add_mset (t, i) (mset s)" by (simp add: push_def)
  assume "sorted s" "pop_due now s = (due, s')"
  note facts = sorted_pop_due [OF this]
  show "sorted s'" "image_mset snd (mset s) = mset due + image_mset snd (mset s')" using facts by blast+
  show "now < fst e" if "e \<in># mset s'" using facts that by auto
qed

subsection \<open>Chunks and batches\<close>

lemma chunked_concat: "0 < n \<Longrightarrow> concat (chunked xs n) = xs"
  by (induction xs n rule: chunked.induct) (subst chunked.simps, auto)

lemma chunked_sizes: "c \<in> set (chunked xs n) \<Longrightarrow> c \<noteq> [] \<and> length c \<le> n"
proof (induction xs n rule: chunked.induct)
  case (1 xs n)
  then show ?case by (subst (asm) chunked.simps) (auto split: if_splits)
qed

lemma batch_ready_nonempty: "batch_ready now b \<Longrightarrow> ba_reports b \<noteq> []"
  by (auto simp: batch_ready_def remaining_def split: if_splits)

lemma batcher_take_parts:
  "batcher_take b = (batch, b1) \<Longrightarrow> batch @ ba_reports b1 = ba_reports b \<and> length batch \<le> ba_size b \<and>
     ba_size b1 = ba_size b \<and> ba_window b1 = ba_window b \<and> ba_oldest_at b1 = ba_oldest_at b \<and>
     (0 < ba_size b \<and> ba_reports b \<noteq> [] \<longrightarrow> batch \<noteq> [])"
  by (auto simp: batcher_take_def split: if_splits)

lemma take_ready_total:
  "0 < ba_size b \<Longrightarrow> length (ba_reports b) \<le> fuel \<Longrightarrow>
     \<exists>batches b'. take_ready fuel now b = Some (batches, b') \<and> concat batches @ ba_reports b' = ba_reports b \<and>
       list_all (\<lambda>x. x \<noteq> [] \<and> length x \<le> ba_size b) batches \<and> \<not> batch_ready now b'"
proof (induction fuel arbitrary: b)
  case 0
  then show ?case using batch_ready_nonempty [of now b] by auto
next
  case (Suc fuel)
  show ?case
  proof (cases "batch_ready now b")
    case True
    obtain batch b1 where t: "batcher_take b = (batch, b1)" by fastforce
    note parts = batcher_take_parts [OF t] and ne = batch_ready_nonempty [OF True]
    have "length (ba_reports b1) < length (ba_reports b)"
      using parts Suc.prems(1) ne by (metis length_append less_add_same_cancel2 length_greater_0_conv)
    with Suc.IH [of b1] Suc.prems parts obtain batches b'
      where "take_ready fuel now b1 = Some (batches, b')" "concat batches @ ba_reports b' = ba_reports b1"
        "list_all (\<lambda>x. x \<noteq> [] \<and> length x \<le> ba_size b) batches" "\<not> batch_ready now b'" by auto
    with True t parts Suc.prems(1) ne show ?thesis by auto
  qed simp
qed

lemma take_ready_size: "take_ready k now b = Some (batches, b') \<Longrightarrow> ba_size b' = ba_size b"
  by (induction k arbitrary: b batches) (auto split: if_splits prod.splits dest!: batcher_take_parts)

text \<open>The batching loop of the producer ends, in at most one turn per waiting report, and loses nothing: the requests
  it hands over, none empty and none larger than the configured size, followed by what it keeps, are the waiting
  reports in their order, and what it keeps is neither full nor due.\<close>

theorem batching_ends_and_loses_nothing:
  fixes added :: "(fleet_report \<times> rat) list" and window now :: rat
  assumes "0 < n"
  defines "b \<equiv> fold (\<lambda>(r, t). batcher_add r t) added (new_batcher n window)"
  shows "\<exists>batches b'. take_ready (length added) now b = Some (batches, b') \<and>
    concat batches @ ba_reports b' = map fst added \<and> list_all (\<lambda>x. x \<noteq> [] \<and> length x \<le> n) batches \<and>
    length (ba_reports b') < n"
proof -
  have add: "ba_reports (fold (\<lambda>(r, t). batcher_add r t) as b0) = ba_reports b0 @ map fst as \<and>
      ba_size (fold (\<lambda>(r, t). batcher_add r t) as b0) = ba_size b0" for as b0
    by (induction as arbitrary: b0) (auto simp: batcher_add_def)
  have b: "ba_reports b = map fst added" "ba_size b = n" using add [of added "new_batcher n window"] by (simp_all add: b_def new_batcher_def)
  obtain batches b' where r: "take_ready (length added) now b = Some (batches, b')" "concat batches @ ba_reports b' = ba_reports b"
      "list_all (\<lambda>x. x \<noteq> [] \<and> length x \<le> ba_size b) batches" "\<not> batch_ready now b'"
    using take_ready_total [of b "length added" now] assms b by auto
  have "length (ba_reports b') < n"
    using r(4) take_ready_size [OF r(1)] assms(1) unfolding b(2) by (auto simp: batch_ready_def remaining_def split: if_splits)
  with r b show ?thesis by auto
qed

definition sample_report :: "nat \<Rightarrow> fleet_report" where
  "sample_report k = \<lparr>fr_device_id = ''dev-'' @ pad5 k, fr_latitude = 50, fr_longitude = 30, fr_timestamp = int k\<rparr>"

theorem batching_ends_and_loses_nothing_witness:
  "\<exists>batches b'. take_ready 3 0 (fold (\<lambda>(r, t). batcher_add r t) [(sample_report 0, 0), (sample_report 1, 0), (sample_report 2, 0)] (new_batcher 2 1)) =
       Some (batches, b') \<and> concat batches @ ba_reports b' = [sample_report 0, sample_report 1, sample_report 2] \<and>
     list_all (\<lambda>x. x \<noteq> [] \<and> length x \<le> 2) batches \<and> length (ba_reports b') < 2"
  using batching_ends_and_loses_nothing [of 2 "[(sample_report 0, 0), (sample_report 1, 0), (sample_report 2, 0)]" 0 1]
  by (simp only: list.map fst_conv list.size) (simp add: eval_nat_numeral)

end
