(* ===== verification/LoadConfig.thy ===== *)
theory LoadConfig
  imports Fleet Geozones Geo
begin

text \<open>
  The load generator \<^verbatim>\<open>generator.py\<close>, second part: its configuration from flags, environment and defaults, the pauses it
  takes when the service asks for one, and the check of the file descriptor limit. The flags are what \<^verbatim>\<open>argparse\<close> hands
  over, \<open>None\<close> where a flag was not given; \<open>int_of\<close> and \<open>float_of\<close> are the built-in conversions of text. An error is
  the option that \<^verbatim>\<open>parser.error\<close> complains about. Floats may be infinite or not a number, as \<^verbatim>\<open>float\<close> reads them.
\<close>

definition DEFAULT_URL :: string where "DEFAULT_URL = ''http://localhost:8080''"
definition DEFAULT_DEVICES :: int where "DEFAULT_DEVICES = 10000"
definition DEFAULT_INTERVAL_S :: pyfloat where "DEFAULT_INTERVAL_S = Fin 3"
definition DEFAULT_CENTER :: string where "DEFAULT_CENTER = ''50.4501,30.5234''"
definition DEFAULT_RADIUS_KM :: pyfloat where "DEFAULT_RADIUS_KM = Fin 25"
definition DEFAULT_RAMP_UP_S :: pyfloat where "DEFAULT_RAMP_UP_S = Fin 30"
definition DEFAULT_STATS_INTERVAL_S :: pyfloat where "DEFAULT_STATS_INTERVAL_S = Fin 5"
definition DEFAULT_MAX_CONNECTIONS :: int where "DEFAULT_MAX_CONNECTIONS = 10000"
definition DEFAULT_HTTP_CONNECTIONS :: int where "DEFAULT_HTTP_CONNECTIONS = 32"
definition DEFAULT_BATCH_SIZE :: int where "DEFAULT_BATCH_SIZE = 100"
definition DEFAULT_BATCH_WINDOW_MS :: int where "DEFAULT_BATCH_WINDOW_MS = 100"
definition DEFAULT_SEED :: int where "DEFAULT_SEED = 1"
definition DEFAULT_PREFIX :: string where "DEFAULT_PREFIX = ''dev-''"
definition DEFAULT_MAX_BATCH :: int where "DEFAULT_MAX_BATCH = 1000"

subsection \<open>The environment\<close>

type_synonym environ = "(string \<times> string) list"

definition ENV_ALIASES :: "(string \<times> string list) list" where
  "ENV_ALIASES =
     [(''GEOTRACK_URL'', [''GENERATOR_BASE_URL'', ''GENERATOR_URL'']), (''TRANSPORT'', [''GENERATOR_TRANSPORT'']),
      (''DEVICES'', [''GENERATOR_DEVICES'']), (''INTERVAL'', [''GENERATOR_INTERVAL_S'', ''GENERATOR_INTERVAL'']),
      (''CONNECTIONS'', [''GENERATOR_CONCURRENCY'', ''GENERATOR_CONNECTIONS'']), (''MAX_CONNECTIONS'', [''GENERATOR_MAX_CONNECTIONS'']),
      (''BATCH_SIZE'', [''GENERATOR_BATCH_SIZE'']), (''BATCH_WINDOW_MS'', [''GENERATOR_BATCH_WINDOW_MS'']),
      (''MAX_BATCH'', [''GENERATOR_MAX_BATCH'', ''INGEST_MAX_BATCH'']), (''CENTER'', [''GENERATOR_CENTER'']),
      (''RADIUS_KM'', [''GENERATOR_RADIUS_KM'']), (''DURATION'', [''GENERATOR_DURATION_S'', ''GENERATOR_DURATION'']),
      (''RAMP_UP'', [''GENERATOR_RAMP_UP_S'', ''GENERATOR_RAMP_UP'']), (''SEED'', [''GENERATOR_SEED'']),
      (''DEVICE_PREFIX'', [''GENERATOR_DEVICE_PREFIX'']), (''STATS_INTERVAL'', [''GENERATOR_STATS_INTERVAL'']),
      (''JSON_SUMMARY'', [''GENERATOR_JSON_SUMMARY'']), (''VERBOSE'', [''GENERATOR_VERBOSE''])]"

definition env_value :: "environ \<Rightarrow> string \<Rightarrow> string" where
  "env_value env name = strip (case map_of env name of None \<Rightarrow> [] | Some v \<Rightarrow> v)"

definition env_raw :: "environ \<Rightarrow> string \<Rightarrow> string" where
  "env_raw env key =
     (let names = key # (case map_of ENV_ALIASES key of None \<Rightarrow> [] | Some aliases \<Rightarrow> aliases)
      in case filter (\<lambda>v. v \<noteq> []) (map (env_value env) names) of [] \<Rightarrow> [] | v # vs \<Rightarrow> v)"

definition env_str :: "environ \<Rightarrow> string \<Rightarrow> string \<Rightarrow> string" where
  "env_str env key fallback = (if env_raw env key = [] then fallback else env_raw env key)"

datatype config_error = BadOption string | BadCenter string

text \<open>\<^verbatim>\<open>_number\<close>: a flag beats the environment, which beats the default.\<close>

definition number :: "'a option \<Rightarrow> environ \<Rightarrow> string \<Rightarrow> 'a \<Rightarrow> (string \<Rightarrow> 'a option) \<Rightarrow> config_error + 'a" where
  "number flag env key fallback cast =
     (case flag of
        Some v \<Rightarrow> Inr v
      | None \<Rightarrow>
          if env_raw env key = [] then Inr fallback
          else (case cast (env_raw env key) of None \<Rightarrow> Inl (BadOption key) | Some v \<Rightarrow> Inr v))"

text \<open>\<^verbatim>\<open>float_of\<close> may read an infinity or not-a-number, for which the bounds are false.\<close>

definition parse_center :: "(string \<Rightarrow> pyfloat option) \<Rightarrow> string \<Rightarrow> config_error + (rat \<times> rat)" where
  "parse_center float_of raw =
     (case split_on CHR '','' raw of
        [a, b] \<Rightarrow>
          (case (float_of a, float_of b) of
             (Some (Fin lat), Some (Fin lon)) \<Rightarrow>
               if - 90 \<le> lat \<and> lat \<le> 90 \<and> - 180 \<le> lon \<and> lon \<le> 180 then Inr (lat, lon) else Inl (BadCenter raw)
           | _ \<Rightarrow> Inl (BadCenter raw))
      | _ \<Rightarrow> Inl (BadCenter raw))"

subsection \<open>The configuration\<close>

datatype transport = Ws | Http

record flags =
  fg_url :: "string option"
  fg_transport :: "transport option"
  fg_devices :: "int option"
  fg_interval :: "pyfloat option"
  fg_connections :: "int option"
  fg_max_connections :: "int option"
  fg_batch_size :: "int option"
  fg_batch_window_ms :: "int option"
  fg_max_batch :: "int option"
  fg_center :: "(rat \<times> rat) option"
  fg_radius_km :: "pyfloat option"
  fg_duration :: "pyfloat option"
  fg_ramp_up :: "pyfloat option"
  fg_seed :: "int option"
  fg_ingest_key :: "string option"
  fg_device_prefix :: "string option"
  fg_stats_interval :: "pyfloat option"
  fg_json_summary :: "string option"
  fg_verbose :: "bool option"

record config =
  cf_url :: string
  cf_transport :: transport
  cf_devices :: int
  cf_interval :: pyfloat
  cf_connections :: int
  cf_batch_size :: int
  cf_batch_window_s :: rat
  cf_max_batch :: int
  cf_center :: "rat \<times> rat"
  cf_radius_m :: pyfloat
  cf_duration :: pyfloat
  cf_ramp_up :: pyfloat
  cf_seed :: int
  cf_ingest_key :: string
  cf_device_prefix :: string
  cf_stats_interval :: pyfloat
  cf_json_summary :: "string option"
  cf_verbose :: bool

definition http_url :: "config \<Rightarrow> string" where
  "http_url c = cf_url c @ ''/api/v1/ingest/locations''"

definition ws_url :: "config \<Rightarrow> string" where
  "ws_url c =
     (if prefix ''https://'' (cf_url c) then ''wss://'' @ drop 8 (cf_url c) @ ''/ws/ingest''
      else ''ws://'' @ drop 7 (cf_url c) @ ''/ws/ingest'')"

definition or_else :: "string option \<Rightarrow> string \<Rightarrow> string" where
  "or_else flag fallback = (case flag of Some (c # cs) \<Rightarrow> c # cs | _ \<Rightarrow> fallback)"

definition rstrip_slashes :: "string \<Rightarrow> string" where
  "rstrip_slashes s = rev (dropWhile (\<lambda>c. c = CHR ''/'') (rev s))"

definition transport_of :: "string \<Rightarrow> transport option" where
  "transport_of s = (if s = ''ws'' then Some Ws else if s = ''http'' then Some Http else None)"

text \<open>The numbers of the configuration, in the order in which they are read.\<close>

record numbers =
  nu_devices :: int
  nu_interval :: pyfloat
  nu_max_connections :: int
  nu_batch_size :: int
  nu_batch_window_ms :: int
  nu_max_batch :: int
  nu_radius_km :: pyfloat
  nu_duration :: pyfloat
  nu_ramp_up :: pyfloat
  nu_seed :: int
  nu_stats_interval :: pyfloat
  nu_requested :: int

definition read_numbers :: "(string \<Rightarrow> int option) \<Rightarrow> (string \<Rightarrow> pyfloat option) \<Rightarrow> flags \<Rightarrow> environ \<Rightarrow> config_error + numbers" where
  "read_numbers int_of float_of fg env =
     (case number (fg_devices fg) env ''DEVICES'' DEFAULT_DEVICES int_of of Inl e \<Rightarrow> Inl e | Inr devices \<Rightarrow>
     (case number (fg_interval fg) env ''INTERVAL'' DEFAULT_INTERVAL_S float_of of Inl e \<Rightarrow> Inl e | Inr interval \<Rightarrow>
     (case number (fg_max_connections fg) env ''MAX_CONNECTIONS'' DEFAULT_MAX_CONNECTIONS int_of of Inl e \<Rightarrow> Inl e | Inr max_connections \<Rightarrow>
     (case number (fg_batch_size fg) env ''BATCH_SIZE'' DEFAULT_BATCH_SIZE int_of of Inl e \<Rightarrow> Inl e | Inr batch_size \<Rightarrow>
     (case number (fg_batch_window_ms fg) env ''BATCH_WINDOW_MS'' DEFAULT_BATCH_WINDOW_MS int_of of Inl e \<Rightarrow> Inl e | Inr batch_window_ms \<Rightarrow>
     (case number (fg_max_batch fg) env ''MAX_BATCH'' DEFAULT_MAX_BATCH int_of of Inl e \<Rightarrow> Inl e | Inr max_batch \<Rightarrow>
     (case number (fg_radius_km fg) env ''RADIUS_KM'' DEFAULT_RADIUS_KM float_of of Inl e \<Rightarrow> Inl e | Inr radius_km \<Rightarrow>
     (case number (fg_duration fg) env ''DURATION'' (Fin 0) float_of of Inl e \<Rightarrow> Inl e | Inr duration \<Rightarrow>
     (case number (fg_ramp_up fg) env ''RAMP_UP'' DEFAULT_RAMP_UP_S float_of of Inl e \<Rightarrow> Inl e | Inr ramp_up \<Rightarrow>
     (case number (fg_seed fg) env ''SEED'' DEFAULT_SEED int_of of Inl e \<Rightarrow> Inl e | Inr seed \<Rightarrow>
     (case number (fg_stats_interval fg) env ''STATS_INTERVAL'' DEFAULT_STATS_INTERVAL_S float_of of Inl e \<Rightarrow> Inl e | Inr stats_interval \<Rightarrow>
     (case number (fg_connections fg) env ''CONNECTIONS'' 0 int_of of Inl e \<Rightarrow> Inl e | Inr requested \<Rightarrow>
        Inr \<lparr>nu_devices = devices, nu_interval = interval, nu_max_connections = max_connections, nu_batch_size = batch_size,
             nu_batch_window_ms = batch_window_ms, nu_max_batch = max_batch, nu_radius_km = radius_km, nu_duration = duration,
             nu_ramp_up = ramp_up, nu_seed = seed, nu_stats_interval = stats_interval, nu_requested = requested\<rparr>))))))))))))"

text \<open>
  The checks, in their order; the first one that fails is the one reported. They are comparisons that must be false, and
  every comparison with not-a-number is false.
\<close>

definition le_zero :: "pyfloat \<Rightarrow> bool" where
  "le_zero f = (case f of Fin x \<Rightarrow> x \<le> 0 | PosInf \<Rightarrow> False | NegInf \<Rightarrow> True | NaN \<Rightarrow> False)"

definition below_zero :: "pyfloat \<Rightarrow> bool" where
  "below_zero f = (case f of Fin x \<Rightarrow> x < 0 | PosInf \<Rightarrow> False | NegInf \<Rightarrow> True | NaN \<Rightarrow> False)"

definition thousandfold :: "pyfloat \<Rightarrow> pyfloat" where
  "thousandfold f = (case f of Fin x \<Rightarrow> Fin (fl (x * 1000)) | PosInf \<Rightarrow> PosInf | NegInf \<Rightarrow> NegInf | NaN \<Rightarrow> NaN)"

definition number_checks :: "flags \<Rightarrow> environ \<Rightarrow> string \<Rightarrow> numbers \<Rightarrow> (string \<times> bool) list" where
  "number_checks fg env key n =
     [(''--devices'', 1 \<le> nu_devices n), (''--interval'', \<not> le_zero (nu_interval n)), (''--max-batch'', 1 \<le> nu_max_batch n),
      (''--batch-size'', 1 \<le> nu_batch_size n),
      (''--batch-size'', \<not> (nu_max_batch n < nu_batch_size n \<and> (fg_batch_size fg \<noteq> None \<or> env_raw env ''BATCH_SIZE'' \<noteq> []))),
      (''--batch-window-ms'', 0 \<le> nu_batch_window_ms n), (''--radius-km'', \<not> le_zero (nu_radius_km n)),
      (''--duration'', \<not> (below_zero (nu_duration n) \<or> below_zero (nu_ramp_up n))), (''--stats-interval'', \<not> le_zero (nu_stats_interval n)),
      (''--max-connections'', 1 \<le> nu_max_connections n), (''--connections'', 0 \<le> nu_requested n), (''--ingest-key'', key \<noteq> [])]"

definition build_config :: "flags \<Rightarrow> environ \<Rightarrow> string \<Rightarrow> transport \<Rightarrow> rat \<times> rat \<Rightarrow> string \<Rightarrow> numbers \<Rightarrow> config" where
  "build_config fg env url transport center key n =
     (let requested = (if nu_requested n = 0 then (if transport = Ws then nu_devices n else DEFAULT_HTTP_CONNECTIONS) else nu_requested n)
      in \<lparr>cf_url = url, cf_transport = transport, cf_devices = nu_devices n, cf_interval = nu_interval n,
          cf_connections = max (min (min requested (nu_devices n)) (nu_max_connections n)) 1,
          cf_batch_size = (if nu_max_batch n < nu_batch_size n then nu_max_batch n else nu_batch_size n),
          cf_batch_window_s = fl (of_int (nu_batch_window_ms n) / 1000), cf_max_batch = nu_max_batch n,
          cf_center = center, cf_radius_m = thousandfold (nu_radius_km n),
          cf_duration = nu_duration n, cf_ramp_up = nu_ramp_up n, cf_seed = nu_seed n, cf_ingest_key = key,
          cf_device_prefix = or_else (fg_device_prefix fg) (env_str env ''DEVICE_PREFIX'' DEFAULT_PREFIX), cf_stats_interval = nu_stats_interval n,
          cf_json_summary = (case fg_json_summary fg of Some p \<Rightarrow> Some p | None \<Rightarrow> if env_str env ''JSON_SUMMARY'' [] = [] then None else Some (env_str env ''JSON_SUMMARY'' [])),
          cf_verbose = (case fg_verbose fg of Some v \<Rightarrow> v
            | None \<Rightarrow> map lower_char (env_str env ''VERBOSE'' []) \<in> set [''1'', ''true'', ''yes'', ''on''])\<rparr>)"

definition parse_config :: "(string \<Rightarrow> int option) \<Rightarrow> (string \<Rightarrow> pyfloat option) \<Rightarrow> flags \<Rightarrow> environ \<Rightarrow> config_error + config" where
  "parse_config int_of float_of fg env =
     (let url = rstrip_slashes (or_else (fg_url fg) (env_str env ''GEOTRACK_URL'' DEFAULT_URL));
          key = or_else (fg_ingest_key fg) (env_str env ''INGEST_API_KEY'' [])
      in if \<not> (prefix ''http://'' url \<or> prefix ''https://'' url) then Inl (BadOption ''--url'')
         else (case (case fg_transport fg of Some t \<Rightarrow> Some t | None \<Rightarrow> transport_of (env_str env ''TRANSPORT'' ''ws'')) of
           None \<Rightarrow> Inl (BadOption ''--transport'')
         | Some transport \<Rightarrow>
             (case read_numbers int_of float_of fg env of
                Inl e \<Rightarrow> Inl e
              | Inr n \<Rightarrow>
                  (case (case fg_center fg of Some c \<Rightarrow> Inr c | None \<Rightarrow> parse_center float_of (env_str env ''CENTER'' DEFAULT_CENTER)) of
                     Inl e \<Rightarrow> Inl e
                   | Inr center \<Rightarrow>
                       (case filter (\<lambda>c. \<not> snd c) (number_checks fg env key n) of
                          c # cs \<Rightarrow> Inl (BadOption (fst c))
                        | [] \<Rightarrow> Inr (build_config fg env url transport center key n))))))"

subsection \<open>Pauses\<close>

definition RECONNECT_BASE_S :: rat where "RECONNECT_BASE_S = 1/2"
definition RECONNECT_MAX_S :: rat where "RECONNECT_MAX_S = 30"
definition RETRY_AFTER_MAX_S :: rat where "RETRY_AFTER_MAX_S = 30"

text \<open>
  The parts of \<^verbatim>\<open>parse_retry_after\<close> that read text: \<open>int_of\<close> is \<^verbatim>\<open>int\<close>, \<open>date_of\<close> is \<^verbatim>\<open>parsedate_to_datetime\<close> in
  microseconds. \<^verbatim>\<open>float\<close> of an integer beyond the range of a double raises \<^verbatim>\<open>OverflowError\<close>, which nothing here catches;
  the outer sum is that error.
\<close>

datatype overflow = OverflowError

definition float_of_int :: "int \<Rightarrow> overflow + rat" where
  "float_of_int n = (if 2 ^ 1024 - 2 ^ 970 \<le> \<bar>n\<bar> then Inl OverflowError else Inr (fl (of_int n)))"

definition parse_retry_after :: "(string \<Rightarrow> int option) \<Rightarrow> (string \<Rightarrow> micros option) \<Rightarrow> micros \<Rightarrow> string option \<Rightarrow> overflow + rat option" where
  "parse_retry_after int_of date_of now v =
     (case v of
        None \<Rightarrow> Inr None
      | Some [] \<Rightarrow> Inr None
      | Some raw \<Rightarrow>
          (case int_of (strip raw) of
             Some n \<Rightarrow> (case float_of_int n of Inl e \<Rightarrow> Inl e | Inr f \<Rightarrow> Inr (Some (max f 0)))
           | None \<Rightarrow>
               (case date_of (strip raw) of
                  None \<Rightarrow> Inr None
                | Some moment \<Rightarrow> Inr (Some (max (total_seconds (moment - now)) 0)))))"

definition retry_pause :: "rat option \<Rightarrow> rat \<Rightarrow> rat" where
  "retry_pause retry_after fallback = min (case retry_after of None \<Rightarrow> fallback | Some r \<Rightarrow> r) RETRY_AFTER_MAX_S"

subsection \<open>File descriptors\<close>

definition FD_HEADROOM :: int where "FD_HEADROOM = 256"

text \<open>
  \<open>hard\<close> is \<open>None\<close> when the hard limit is infinite, \<open>raised\<close> what the limit is after \<^verbatim>\<open>setrlimit\<close>, or the failure of the
  call. The result is the limit, or an explanation.
\<close>

datatype limit_error = RaisingFailed int | LimitTooLow int

definition descriptor_target :: "int \<Rightarrow> int option \<Rightarrow> int" where
  "descriptor_target required hard = (case hard of None \<Rightarrow> required | Some h \<Rightarrow> min required h)"

definition ensure_file_limit :: "int \<Rightarrow> int \<Rightarrow> int option \<Rightarrow> (int \<Rightarrow> int option) \<Rightarrow> limit_error + int" where
  "ensure_file_limit connections soft hard setrlimit =
     (let required = connections + FD_HEADROOM in
      if required \<le> soft then Inr soft
      else (case setrlimit (descriptor_target required hard) of
              None \<Rightarrow> Inl (RaisingFailed soft)
            | Some raised \<Rightarrow> if raised < required then Inl (LimitTooLow raised) else Inr raised))"

subsection \<open>Properties\<close>

lemma number_flag [simp]: "number (Some v) env key fallback cast = Inr v"
  by (simp add: number_def)

lemma number_default: "env_raw env key = [] \<Longrightarrow> number None env key fallback cast = Inr fallback"
  by (simp add: number_def)

text \<open>What the parser accepts can be run against the server: a request never carries more reports than the server
  takes, there is at least one connection and never more than devices or than the bound allows, and the key is
  there.\<close>

theorem accepted_config_fits_the_server:
  assumes "parse_config int_of float_of fg env = Inr c"
  shows "1 \<le> cf_batch_size c \<and> cf_batch_size c \<le> cf_max_batch c \<and> 1 \<le> cf_connections c \<and>
    cf_connections c \<le> cf_devices c \<and> cf_ingest_key c \<noteq> [] \<and> 0 \<le> cf_batch_window_s c \<and>
    (\<exists>n. read_numbers int_of float_of fg env = Inr n \<and> cf_connections c \<le> nu_max_connections n \<and> cf_devices c = nu_devices n)"
proof -
  obtain n url transport center key where n: "read_numbers int_of float_of fg env = Inr n"
      and ok: "filter (\<lambda>c. \<not> snd c) (number_checks fg env key n) = []" and c: "c = build_config fg env url transport center key n"
    using assms by (auto simp: parse_config_def Let_def split: if_splits option.splits sum.splits list.splits)
  have checks: "\<forall>x \<in> set (number_checks fg env key n). snd x" using ok by (simp add: filter_empty_conv)
  have w: "0 \<le> fl (of_int (nu_batch_window_ms n) / 1000)"
    using checks fl_mono [of 0 "of_int (nu_batch_window_ms n) / 1000"] by (simp add: number_checks_def fl_def)
  show ?thesis using checks n w unfolding c by (auto simp: number_checks_def build_config_def Let_def DEFAULT_HTTP_CONNECTIONS_def)
qed

text \<open>A server that asks for an absurd pause in digits gets the sender to fail instead.\<close>

lemma huge_retry_after_raises:
  "2 ^ 1024 \<le> n \<Longrightarrow> int_of (strip (c # cs)) = Some n \<Longrightarrow> parse_retry_after int_of date_of now (Some (c # cs)) = Inl OverflowError"
  by (simp add: parse_retry_after_def float_of_int_def)

lemma pause_is_bounded: "retry_pause r fallback \<le> RETRY_AFTER_MAX_S"
  by (simp add: retry_pause_def)

lemma nan_interval_is_accepted: "\<not> le_zero NaN"
  by (simp add: le_zero_def)

definition sample_flags :: flags where
  "sample_flags = \<lparr>fg_url = None, fg_transport = Some Http, fg_devices = Some 10, fg_interval = None, fg_connections = None, fg_max_connections = None,
     fg_batch_size = None, fg_batch_window_ms = None, fg_max_batch = Some 50, fg_center = Some (50, 30), fg_radius_km = None, fg_duration = None,
     fg_ramp_up = None, fg_seed = None, fg_ingest_key = Some ''key'', fg_device_prefix = None, fg_stats_interval = None,
     fg_json_summary = None, fg_verbose = None\<rparr>"

theorem accepted_config_fits_the_server_witness:
  "\<exists>c. parse_config (\<lambda>_. None) (\<lambda>_. None) sample_flags [] = Inr c \<and> cf_batch_size c = 50 \<and> cf_connections c \<le> cf_devices c"
proof -
  have "\<not> isl (parse_config (\<lambda>_. None) (\<lambda>_. None) sample_flags [])" by code_simp
  then obtain c where c: "parse_config (\<lambda>_. None) (\<lambda>_. None) sample_flags [] = Inr c" by (auto simp: isl_def split: sum.splits) (metis sum.exhaust)
  moreover have "map_sum id cf_batch_size (parse_config (\<lambda>_. None) (\<lambda>_. None) sample_flags []) = Inr 50" by code_simp
  ultimately have "cf_batch_size c = 50" by simp
  with c accepted_config_fits_the_server [OF c] show ?thesis by blast
qed

end
