(* ===== verification/FleetDrive.thy ===== *)
theory FleetDrive
  imports LoadConfig
begin

text \<open>
  The load generator \<^verbatim>\<open>generator.py\<close>, third part: the class \<^verbatim>\<open>Devices\<close>, a slice of the fleet with its schedule, and the two
  loops that drive it. The lists of states, random streams, reporting clocks and moving times are parallel, as in the
  code. The theory shows what the class exists for: every device has one deadline at all times, and its \<open>n\<close>-th
  report is a function of the seed and of \<open>n\<close>, whatever the network, the transport and the supervisor did to the run.
\<close>

record 'g devices =
  dv_states :: "device_state list"
  dv_rngs :: "'g list"
  dv_clocks :: "'g list"
  dv_dt :: "rat list"
  dv_area :: area
  dv_interval :: rat
  dv_driving :: bool
  dv_rng :: 'g
  dv_schedule :: schedule

definition new_devices :: "'g prng \<Rightarrow> int \<Rightarrow> rat \<Rightarrow> area \<Rightarrow> device_state list \<Rightarrow> 'g \<Rightarrow> 'g devices" where
  "new_devices pr seed interval a states g =
     \<lparr>dv_states = states, dv_rngs = map (\<lambda>st. device_rng pr seed (st_device_id st)) states,
      dv_clocks = map (\<lambda>st. report_rng pr seed (st_device_id st)) states, dv_dt = replicate (length states) interval,
      dv_area = a, dv_interval = interval, dv_driving = False, dv_rng = g, dv_schedule = []\<rparr>"

text \<open>The body of the loop of \<^verbatim>\<open>start\<close>.\<close>

definition arm :: "'g prng \<Rightarrow> rat \<Rightarrow> rat \<Rightarrow> nat \<Rightarrow> 'g devices \<Rightarrow> 'g devices" where
  "arm pr now spread index d =
     (let offset = fl (fl (spread * of_nat index) / of_nat (length (dv_states d)));
          (u, g) = pr_random pr (dv_rng d)
      in d\<lparr>dv_rng := g, dv_schedule := push index (fl (fl (now + offset) + fl (u * dv_interval d))) (dv_schedule d)\<rparr>)"

definition devices_start :: "'g prng \<Rightarrow> rat \<Rightarrow> rat \<Rightarrow> 'g devices \<Rightarrow> 'g devices" where
  "devices_start pr now spread d = fold (arm pr now spread) [0..<length (dv_states d)] (d\<lparr>dv_schedule := []\<rparr>)"

datatype driving_error = AlreadyDriven nat

text \<open>Entering and leaving \<^verbatim>\<open>with devices.driving(...)\<close>.\<close>

definition claim :: "'g prng \<Rightarrow> rat \<Rightarrow> rat \<Rightarrow> 'g devices \<Rightarrow> driving_error + 'g devices" where
  "claim pr now spread d =
     (if dv_driving d then Inl (AlreadyDriven (length (dv_states d)))
      else Inr (devices_start pr now spread (d\<lparr>dv_driving := True\<rparr>)))"

definition let_go :: "'g devices \<Rightarrow> 'g devices" where
  "let_go d = d\<lparr>dv_driving := False\<rparr>"

definition devices_step :: "math \<Rightarrow> 'g prng \<Rightarrow> nat \<Rightarrow> micros \<Rightarrow> 'g devices \<Rightarrow> fleet_report \<times> 'g devices" where
  "devices_step mt pr index moment d =
     (case advance mt pr (dv_dt d ! index) (dv_area d) (dv_states d ! index) (dv_rngs d ! index) of
        (st, g) \<Rightarrow> (report_payload st moment, d\<lparr>dv_states := (dv_states d)[index := st], dv_rngs := (dv_rngs d)[index := g]\<rparr>))"

definition reschedule :: "'g prng \<Rightarrow> rat \<Rightarrow> nat \<Rightarrow> 'g devices \<Rightarrow> 'g devices" where
  "reschedule pr now index d =
     (case jittered_interval pr (dv_interval d) (dv_clocks d ! index) of
        (delay, g) \<Rightarrow> d\<lparr>dv_clocks := (dv_clocks d)[index := g], dv_dt := (dv_dt d)[index := delay],
                        dv_schedule := push index (fl (now + delay)) (dv_schedule d)\<rparr>)"

definition postpone :: "'g prng \<Rightarrow> rat \<Rightarrow> nat \<Rightarrow> 'g devices \<Rightarrow> 'g devices" where
  "postpone pr until index d =
     (case jittered_interval pr (dv_interval d) (dv_rng d) of
        (delay, g) \<Rightarrow> d\<lparr>dv_rng := g, dv_schedule := push index (fl (until + delay)) (dv_schedule d)\<rparr>)"

subsection \<open>The loops\<close>

fun step_all :: "math \<Rightarrow> 'g prng \<Rightarrow> micros \<Rightarrow> nat list \<Rightarrow> 'g devices \<Rightarrow> fleet_report list \<times> 'g devices" where
  "step_all mt pr moment [] d = ([], d)"
| "step_all mt pr moment (i # is) d =
     (case devices_step mt pr i moment d of
        (r, d1) \<Rightarrow> (case step_all mt pr moment is d1 of (rs, d2) \<Rightarrow> (r # rs, d2)))"

text \<open>
  One turn of \<^verbatim>\<open>_send_forever\<close> up to the call of \<^verbatim>\<open>_send\<close>: nothing is due, the due devices are held back for a pause, or
  they report.
\<close>

datatype tick = Sleeping rat | Held rat | Reports "fleet_report list"

definition ws_tick :: "math \<Rightarrow> 'g prng \<Rightarrow> rat \<Rightarrow> micros \<Rightarrow> rat \<Rightarrow> 'g devices \<Rightarrow> tick \<times> 'g devices" where
  "ws_tick mt pr now moment pause_until d =
     (case pop_due now (dv_schedule d) of
        (due, rest) \<Rightarrow>
          (let d = d\<lparr>dv_schedule := rest\<rparr> in
           if due = [] then (Sleeping (next_delay now rest), d)
           else (let pause = fl (pause_until - now) in
                 if 0 < pause then (Held pause, fold (postpone pr (fl (now + pause))) due d)
                 else (case step_all mt pr moment due d of
                         (reports, d1) \<Rightarrow> (Reports reports, fold (reschedule pr now) due d1)))))"

text \<open>The loop of \<^verbatim>\<open>_produce\<close> over the due devices, which fills the batcher.\<close>

fun produce_all :: "math \<Rightarrow> 'g prng \<Rightarrow> rat \<Rightarrow> micros \<Rightarrow> nat list \<Rightarrow> batcher \<Rightarrow> 'g devices \<Rightarrow> batcher \<times> 'g devices" where
  "produce_all mt pr now moment [] b d = (b, d)"
| "produce_all mt pr now moment (i # is) b d =
     (case devices_step mt pr i moment d of
        (r, d1) \<Rightarrow> produce_all mt pr now moment is (batcher_add r now b) (reschedule pr now i d1))"

definition http_tick :: "math \<Rightarrow> 'g prng \<Rightarrow> rat \<Rightarrow> micros \<Rightarrow> batcher \<Rightarrow> 'g devices \<Rightarrow> nat \<times> batcher \<times> 'g devices" where
  "http_tick mt pr now moment b d =
     (case pop_due now (dv_schedule d) of
        (due, rest) \<Rightarrow> (length due, produce_all mt pr now moment due b (d\<lparr>dv_schedule := rest\<rparr>)))"

text \<open>What can happen to a slice while a run lasts: a turn of either loop, or a restart that arms it again.\<close>

datatype drive_event = Rearmed rat rat | WsTurn rat micros rat | HttpTurn rat micros

definition drive_one :: "math \<Rightarrow> 'g prng \<Rightarrow> drive_event \<Rightarrow> 'g devices \<Rightarrow> fleet_report list \<times> 'g devices" where
  "drive_one mt pr e d =
     (case e of
        Rearmed now spread \<Rightarrow> ([], devices_start pr now spread d)
      | WsTurn now moment pause_until \<Rightarrow>
          (case ws_tick mt pr now moment pause_until d of (Reports rs, d1) \<Rightarrow> (rs, d1) | (_, d1) \<Rightarrow> ([], d1))
      | HttpTurn now moment \<Rightarrow>
          (case http_tick mt pr now moment (new_batcher 1 0) d of (n, b, d1) \<Rightarrow> (ba_reports b, d1)))"

fun drive :: "math \<Rightarrow> 'g prng \<Rightarrow> drive_event list \<Rightarrow> 'g devices \<Rightarrow> fleet_report list \<times> 'g devices" where
  "drive mt pr [] d = ([], d)"
| "drive mt pr (e # es) d =
     (case drive_one mt pr e d of (rs, d1) \<Rightarrow> (case drive mt pr es d1 of (rs', d2) \<Rightarrow> (rs @ rs', d2)))"

subsection \<open>One device at a time\<close>

text \<open>The part of the slice that belongs to one device, and one turn of it: the reference for the parallel lists.\<close>

type_synonym 'g slot = "device_state \<times> 'g \<times> 'g \<times> rat"

definition slot_of :: "'g devices \<Rightarrow> nat \<Rightarrow> 'g slot" where
  "slot_of d i = (dv_states d ! i, dv_rngs d ! i, dv_clocks d ! i, dv_dt d ! i)"

definition slot_turn :: "math \<Rightarrow> 'g prng \<Rightarrow> area \<Rightarrow> rat \<Rightarrow> 'g slot \<Rightarrow> 'g slot" where
  "slot_turn mt pr a interval s =
     (case s of (st, g, c, dt) \<Rightarrow>
        (case advance mt pr dt a st g of (st1, g1) \<Rightarrow> (case jittered_interval pr interval c of (delay, c1) \<Rightarrow> (st1, g1, c1, delay))))"

definition first_slot :: "'g prng \<Rightarrow> int \<Rightarrow> rat \<Rightarrow> device_state \<Rightarrow> 'g slot" where
  "first_slot pr seed interval st = (st, device_rng pr seed (st_device_id st), report_rng pr seed (st_device_id st), interval)"

definition place :: "fleet_report \<Rightarrow> rat \<times> rat" where
  "place r = (fr_latitude r, fr_longitude r)"

text \<open>Where report number \<open>k\<close> of a device places it, counting from zero.\<close>

definition place_number :: "math \<Rightarrow> 'g prng \<Rightarrow> area \<Rightarrow> int \<Rightarrow> rat \<Rightarrow> device_state \<Rightarrow> nat \<Rightarrow> rat \<times> rat" where
  "place_number mt pr a seed interval st k =
     place (report_payload (fst ((slot_turn mt pr a interval ^^ Suc k) (first_slot pr seed interval st))) 0)"

text \<open>A slice in order: the lists are parallel, and every device has exactly one deadline once the slice is armed.\<close>

definition aligned :: "'g devices \<Rightarrow> bool" where
  "aligned d \<longleftrightarrow> length (dv_rngs d) = length (dv_states d) \<and> length (dv_clocks d) = length (dv_states d) \<and>
     length (dv_dt d) = length (dv_states d)"

definition armed :: "'g devices \<Rightarrow> bool" where
  "armed d \<longleftrightarrow> mset (map snd (dv_schedule d)) = mset [0..<length (dv_states d)]"

definition in_order :: "'g devices \<Rightarrow> bool" where
  "in_order d \<longleftrightarrow> aligned d \<and> sorted (dv_schedule d) \<and> (dv_schedule d = [] \<or> armed d)"

lemma armed_members: "armed d \<longleftrightarrow> sched.members (dv_schedule d) = mset [0..<length (dv_states d)]"
  by (simp add: armed_def sched.members_def)

lemma advance_id [simp]: "advance mt pr dt a st g = (st1, g1) \<Longrightarrow> st_device_id st1 = st_device_id st"
  by (auto simp: advance_def Let_def split: prod.splits)

lemma turn_id [simp]: "st_device_id (fst (slot_turn mt pr a interval s)) = st_device_id (fst s)"
  by (auto simp: slot_turn_def split: prod.splits dest: advance_id)

lemma turns_id [simp]: "st_device_id (fst ((slot_turn mt pr a interval ^^ n) s)) = st_device_id (fst s)"
  by (induction n) auto

subsection \<open>What the operations keep\<close>

text \<open>The facts about a slice that no operation changes.\<close>

definition same_fleet :: "'g devices \<Rightarrow> 'g devices \<Rightarrow> bool" where
  "same_fleet d d' \<longleftrightarrow> map st_device_id (dv_states d') = map st_device_id (dv_states d) \<and> dv_area d' = dv_area d \<and>
     dv_interval d' = dv_interval d \<and> (aligned d \<longrightarrow> aligned d')"

lemma same_fleet_refl [simp]: "same_fleet d d"
  by (simp add: same_fleet_def)

lemma same_fleet_trans: "same_fleet d d1 \<Longrightarrow> same_fleet d1 d2 \<Longrightarrow> same_fleet d d2"
  by (auto simp: same_fleet_def)

lemma same_fleet_length: "same_fleet d d' \<Longrightarrow> length (dv_states d') = length (dv_states d)"
  by (metis same_fleet_def length_map)

lemma same_fleet_step: "devices_step mt pr i moment d = (r, d1) \<Longrightarrow> same_fleet d d1 \<and> dv_schedule d1 = dv_schedule d"
proof -
  assume step: "devices_step mt pr i moment d = (r, d1)"
  obtain st g where adv: "advance mt pr (dv_dt d ! i) (dv_area d) (dv_states d ! i) (dv_rngs d ! i) = (st, g)" by fastforce
  have "st_device_id st = st_device_id (dv_states d ! i)" using adv by (rule advance_id)
  then have "map st_device_id ((dv_states d)[i := st]) = map st_device_id (dv_states d)"
    by (cases "i < length (dv_states d)") (simp_all add: map_update list_update_same_conv list_update_beyond)
  with step adv show ?thesis by (auto simp: devices_step_def same_fleet_def aligned_def)
qed

lemma same_fleet_fold:
  assumes "\<And>x y. same_fleet y (f x y)"
  shows "same_fleet d (fold f xs d)"
  by (induction xs arbitrary: d) (auto intro: same_fleet_trans assms)

lemma same_fleet_ops [simp]:
  "same_fleet d (reschedule pr now i d)" "same_fleet d (postpone pr now i d)" "same_fleet d (arm pr now spread i d)"
  "same_fleet d (d\<lparr>dv_schedule := s\<rparr>)" "same_fleet d (d\<lparr>dv_driving := v\<rparr>)"
  by (auto simp: reschedule_def postpone_def arm_def same_fleet_def aligned_def Let_def split: prod.splits)

lemma same_fleet_step_all:
  "step_all mt pr moment is d = (rs, d1) \<Longrightarrow> same_fleet d d1 \<and> dv_schedule d1 = dv_schedule d \<and> length rs = length is"
proof (induction "is" arbitrary: d rs)
  case (Cons i "is")
  then obtain r d2 rs' where "devices_step mt pr i moment d = (r, d2)" "step_all mt pr moment is d2 = (rs', d1)" "rs = r # rs'"
    by (auto split: prod.splits)
  with Cons.IH [of d2 rs'] same_fleet_step [of mt pr i moment d r d2] show ?case by (auto intro: same_fleet_trans)
qed simp

lemma push_ops:
  "\<exists>t. dv_schedule (reschedule pr now i d) = push i t (dv_schedule d)"
  "\<exists>t. dv_schedule (postpone pr now i d) = push i t (dv_schedule d)"
  "\<exists>t. dv_schedule (arm pr now spread i d) = push i t (dv_schedule d)"
  by (auto simp: reschedule_def postpone_def arm_def Let_def split: prod.splits)

lemma members_fold:
  assumes "\<And>x y. \<exists>t. dv_schedule (f x y) = push x t (dv_schedule y)" "sorted (dv_schedule d)"
  shows "sched.members (dv_schedule (fold f is d)) = mset is + sched.members (dv_schedule d) \<and> sorted (dv_schedule (fold f is d))"
  using assms(2)
proof (induction "is" arbitrary: d)
  case (Cons i "is")
  obtain t where t: "dv_schedule (f i d) = push i t (dv_schedule d)" using assms(1) by blast
  with Cons.IH [of "f i d"] sched.ok_put [OF Cons.prems, of i t] show ?case by simp
qed simp

lemma pop_keeps_deadlines:
  assumes "in_order d" "pop_due now (dv_schedule d) = (due, rest)"
  shows "sorted rest" "distinct due" "set due \<subseteq> {..<length (dv_states d)}"
    "sched.members (dv_schedule d) = mset due + sched.members rest"
proof -
  have s: "sorted (dv_schedule d)" using assms(1) by (simp add: in_order_def)
  show "sorted rest" by (rule sched.ok_pop [OF s assms(2)])
  show "sched.members (dv_schedule d) = mset due + sched.members rest" by (rule sched.members_pop [OF s assms(2)])
  consider "dv_schedule d = []" | "sched.members (dv_schedule d) = mset [0..<length (dv_states d)]"
    using assms(1) by (auto simp: in_order_def armed_members)
  then have "distinct due \<and> set due \<subseteq> {..<length (dv_states d)}"
  proof cases
    case 1
    then show ?thesis using assms(2) by auto
  next
    case 2
    from sched.due_distinct [OF s assms(2) 2] show ?thesis by auto
  qed
  then show "distinct due" "set due \<subseteq> {..<length (dv_states d)}" by blast+
qed

lemma served_in_order:
  assumes "in_order d" "pop_due now (dv_schedule d) = (due, rest)" "\<And>x y. same_fleet y (f x y)"
    "\<And>x y. \<exists>t. dv_schedule (f x y) = push x t (dv_schedule y)" "same_fleet d d1" "dv_schedule d1 = rest"
  shows "in_order (fold f due d1)" "armed d \<Longrightarrow> armed (fold f due d1)"
proof -
  note pop = pop_keeps_deadlines [OF assms(1, 2)]
  have fleet: "same_fleet d (fold f due d1)" 
    by (rule same_fleet_trans [OF assms(5)]) (rule same_fleet_fold [OF assms(3)])
  have m: "sched.members (dv_schedule (fold f due d1)) = sched.members (dv_schedule d)" "sorted (dv_schedule (fold f due d1))"
    using members_fold [OF assms(4), of d1 due] pop assms(6) by auto
  have len: "length (dv_states (fold f due d1)) = length (dv_states d)" by (rule same_fleet_length [OF fleet])
  show "armed (fold f due d1)" if "armed d" using that m(1) len by (simp add: armed_members)
  have "dv_schedule (fold f due d1) = []" if "dv_schedule d = []"
    using that m(1) by (simp add: sched.members_def)
  with assms(1) fleet m len show "in_order (fold f due d1)"
    unfolding in_order_def armed_members same_fleet_def by metis
qed

subsection \<open>The two loops do the same to a slice\<close>

lemma step_reschedule_commute:
  "i \<noteq> j \<Longrightarrow> devices_step mt pr j moment (reschedule pr now i d) =
     (case devices_step mt pr j moment d of (r, d1) \<Rightarrow> (r, reschedule pr now i d1))"
  by (auto simp: devices_step_def reschedule_def split: prod.splits)

lemma step_all_reschedule_commute:
  "i \<notin> set is \<Longrightarrow> step_all mt pr moment is (reschedule pr now i d) =
     (case step_all mt pr moment is d of (rs, d1) \<Rightarrow> (rs, reschedule pr now i d1))"
proof (induction "is" arbitrary: d)
  case (Cons j "is")
  then show ?case by (auto simp: step_reschedule_commute split: prod.splits)
qed simp

lemma loops_agree:
  "distinct is \<Longrightarrow> produce_all mt pr now moment is b d =
     (case step_all mt pr moment is d of (rs, d1) \<Rightarrow> (fold (\<lambda>r. batcher_add r now) rs b, fold (reschedule pr now) is d1))"
proof (induction "is" arbitrary: b d)
  case (Cons i "is")
  then show ?case by (auto simp: step_all_reschedule_commute split: prod.splits)
qed simp

lemma batcher_adds: "ba_reports (fold (\<lambda>r. batcher_add r now) rs b) = ba_reports b @ rs"
  by (induction rs arbitrary: b) (auto simp: batcher_add_def)

text \<open>A turn in which the due devices report, in the form of the websocket loop.\<close>

definition report_turn :: "math \<Rightarrow> 'g prng \<Rightarrow> rat \<Rightarrow> micros \<Rightarrow> nat list \<Rightarrow> 'g devices \<Rightarrow> fleet_report list \<times> 'g devices" where
  "report_turn mt pr now moment due d =
     (case step_all mt pr moment due d of (rs, d1) \<Rightarrow> (rs, fold (reschedule pr now) due d1))"

lemma http_tick_reports:
  assumes "in_order d" "pop_due now (dv_schedule d) = (due, rest)" "report_turn mt pr now moment due (d\<lparr>dv_schedule := rest\<rparr>) = (rs, d1)"
  shows "\<exists>b'. http_tick mt pr now moment b d = (length due, b', d1) \<and> ba_reports b' = ba_reports b @ rs \<and> length rs = length due"
  using assms pop_keeps_deadlines(2) [OF assms(1, 2)] same_fleet_step_all [of mt pr moment due "d\<lparr>dv_schedule := rest\<rparr>"]
  by (auto simp: http_tick_def loops_agree report_turn_def batcher_adds split: prod.splits)

subsection \<open>What a turn does to one device\<close>

lemma slot_step:
  assumes "aligned d" "i < length (dv_states d)" "devices_step mt pr i moment d = (r, d1)"
  shows "j \<noteq> i \<Longrightarrow> slot_of d1 j = slot_of d j"
    "r = report_payload (fst (slot_turn mt pr (dv_area d) (dv_interval d) (slot_of d i))) moment"
    "slot_of (reschedule pr now i d1) i = slot_turn mt pr (dv_area d) (dv_interval d) (slot_of d i)"
  using assms by (auto simp: devices_step_def slot_of_def slot_turn_def aligned_def reschedule_def split: prod.splits)

lemma slot_reschedule: "j \<noteq> i \<Longrightarrow> slot_of (reschedule pr now i d) j = slot_of d j"
  by (auto simp: slot_of_def reschedule_def split: prod.splits)

lemma slot_of_schedule [simp]: "slot_of (d\<lparr>dv_schedule := s\<rparr>) j = slot_of d j"
  by (simp add: slot_of_def)

lemma slot_postpone [simp]: "slot_of (postpone pr now i d) j = slot_of d j"
  by (auto simp: slot_of_def postpone_def split: prod.splits)

lemma slot_arm [simp]: "slot_of (arm pr now spread i d) j = slot_of d j"
  by (auto simp: slot_of_def arm_def Let_def split: prod.splits)

lemma slot_fold: "(\<And>x y. slot_of (f x y) j = slot_of y j) \<Longrightarrow> slot_of (fold f xs d) j = slot_of d j"
  by (induction xs arbitrary: d) auto

lemma report_turn_Cons:
  "i \<notin> set is \<Longrightarrow> report_turn mt pr now moment (i # is) d =
     (case devices_step mt pr i moment d of (r, d1) \<Rightarrow>
       (case report_turn mt pr now moment is (reschedule pr now i d1) of (rs, d2) \<Rightarrow> (r # rs, d2)))"
  by (simp add: report_turn_def step_all_reschedule_commute split: prod.splits)

lemma report_turn_slots:
  assumes "distinct due" "set due \<subseteq> {..<length (dv_states d)}" "aligned d" "report_turn mt pr now moment due d = (rs, d')"
  shows "same_fleet d d' \<and> rs = map (\<lambda>i. report_payload (fst (slot_turn mt pr (dv_area d) (dv_interval d) (slot_of d i))) moment) due \<and>
    (\<forall>j. slot_of d' j = (if j \<in> set due then slot_turn mt pr (dv_area d) (dv_interval d) (slot_of d j) else slot_of d j))"
  using assms
proof (induction due arbitrary: d rs)
  case Nil
  then show ?case by (simp add: report_turn_def)
next
  case (Cons i "is")
  then have i: "i < length (dv_states d)" "i \<notin> set is" by auto
  obtain r d1 where s: "devices_step mt pr i moment d = (r, d1)" by fastforce
  obtain rs' where t: "report_turn mt pr now moment is (reschedule pr now i d1) = (rs', d')" "rs = r # rs'"
    using Cons.prems(4) s i by (auto simp: report_turn_Cons split: prod.splits)
  have fleet: "same_fleet d (reschedule pr now i d1)" using same_fleet_step [OF s] same_fleet_ops(1) same_fleet_trans by blast
  note slots = slot_step [OF Cons.prems(3) i(1) s]
  have others: "slot_of (reschedule pr now i d1) j = slot_of d j" if "j \<noteq> i" for j using that slots(1) slot_reschedule by metis
  have "same_fleet (reschedule pr now i d1) d' \<and>
      rs' = map (\<lambda>i. report_payload (fst (slot_turn mt pr (dv_area d) (dv_interval d) (slot_of d i))) moment) is \<and>
      (\<forall>j. slot_of d' j = (if j \<in> set is then slot_turn mt pr (dv_area d) (dv_interval d) (slot_of (reschedule pr now i d1) j)
         else slot_of (reschedule pr now i d1) j))"
    using Cons.IH [OF _ _ _ t(1)] Cons.prems fleet same_fleet_length [OF fleet] others i(2)
    by (simp add: same_fleet_def) (metis (no_types, lifting) map_cong)
  moreover have "slot_of (reschedule pr now i d1) j = slot_of d j" if "j \<in> set is" for j using that others i(2) by metis
  ultimately show ?case using slots(2, 3) others i(2) t(2) same_fleet_trans [OF fleet] by auto
qed

text \<open>Every event: a device reports at most once, from its own slot, and the slot takes one turn with it.\<close>

definition turn_taken :: "math \<Rightarrow> 'g prng \<Rightarrow> nat list \<Rightarrow> micros \<Rightarrow> 'g devices \<Rightarrow> fleet_report list \<Rightarrow> 'g devices \<Rightarrow> bool" where
  "turn_taken mt pr due moment d rs d' \<longleftrightarrow> distinct due \<and> set due \<subseteq> {..<length (dv_states d)} \<and> in_order d' \<and> same_fleet d d' \<and>
     (armed d \<longrightarrow> armed d') \<and>
     rs = map (\<lambda>i. report_payload (fst (slot_turn mt pr (dv_area d) (dv_interval d) (slot_of d i))) moment) due \<and>
     (\<forall>j. slot_of d' j = (if j \<in> set due then slot_turn mt pr (dv_area d) (dv_interval d) (slot_of d j) else slot_of d j))"

lemma turn_taken_report:
  assumes "in_order d" "pop_due now (dv_schedule d) = (due, rest)" "report_turn mt pr now moment due (d\<lparr>dv_schedule := rest\<rparr>) = (rs, d')"
  shows "turn_taken mt pr due moment d rs d'"
proof -
  note pop = pop_keeps_deadlines [OF assms(1, 2)]
  obtain d1 where d1: "step_all mt pr moment due (d\<lparr>dv_schedule := rest\<rparr>) = (rs, d1)" "d' = fold (reschedule pr now) due d1"
    using assms(3) by (auto simp: report_turn_def split: prod.splits)
  have f: "same_fleet d d1" "dv_schedule d1 = rest"
    using same_fleet_step_all [OF d1(1)] same_fleet_trans [OF same_fleet_ops(4)] by auto
  note order = served_in_order [OF assms(1, 2) same_fleet_ops(1) push_ops(1) f]
  have p: "aligned (d\<lparr>dv_schedule := rest\<rparr>)" "set due \<subseteq> {..<length (dv_states (d\<lparr>dv_schedule := rest\<rparr>))}"
    using assms(1) pop(3) by (simp_all add: in_order_def aligned_def)
  have "same_fleet (d\<lparr>dv_schedule := rest\<rparr>) d'" using report_turn_slots [OF pop(2) p(2, 1) assms(3)] by blast
  then have "same_fleet d d'" by (rule same_fleet_trans [OF same_fleet_ops(4)])
  with report_turn_slots [OF pop(2) p(2, 1) assms(3)] pop order show ?thesis
    by (auto simp: turn_taken_def d1(2))
qed

lemma turn_taken_quiet:
  assumes "in_order d'" "same_fleet d d'" "armed d \<Longrightarrow> armed d'" "\<And>j. slot_of d' j = slot_of d j"
  shows "turn_taken mt pr [] moment d [] d'"
  using assms by (simp add: turn_taken_def)

lemma start_in_order:
  assumes "aligned d"
  shows "in_order (devices_start pr now spread d)" "armed (devices_start pr now spread d)" "same_fleet d (devices_start pr now spread d)"
    "slot_of (devices_start pr now spread d) j = slot_of d j"
proof -
  have f: "same_fleet d (devices_start pr now spread d)"
    unfolding devices_start_def by (rule same_fleet_trans [OF same_fleet_ops(4)]) (rule same_fleet_fold, simp)
  have "sched.members (dv_schedule (devices_start pr now spread d)) = mset [0..<length (dv_states d)] \<and> sorted (dv_schedule (devices_start pr now spread d))"
    unfolding devices_start_def using members_fold [OF push_ops(3), of "d\<lparr>dv_schedule := []\<rparr>"] by (simp add: sched.members_def)
  with f assms same_fleet_length [OF f] show "in_order (devices_start pr now spread d)" "armed (devices_start pr now spread d)"
    by (simp_all add: in_order_def armed_members same_fleet_def)
  show "same_fleet d (devices_start pr now spread d)" by (rule f)
  show "slot_of (devices_start pr now spread d) j = slot_of d j" by (simp add: devices_start_def slot_fold)
qed

lemma postponed_in_order:
  assumes "in_order d" "pop_due now (dv_schedule d) = (due, rest)"
  shows "in_order (fold (postpone pr u) due (d\<lparr>dv_schedule := rest\<rparr>))" "armed d \<Longrightarrow> armed (fold (postpone pr u) due (d\<lparr>dv_schedule := rest\<rparr>))"
  by (rule served_in_order [OF assms]; simp add: push_ops)+

lemma drive_one_turn:
  assumes "in_order d" "drive_one mt pr e d = (rs, d')"
  shows "\<exists>due moment. turn_taken mt pr due moment d rs d'"
proof (cases e)
  case (Rearmed now spread)
  then show ?thesis using assms start_in_order [of d pr now spread]
    by (auto simp: drive_one_def in_order_def intro!: exI turn_taken_quiet)
next
  case (HttpTurn now moment)
  obtain due rest where pop: "pop_due now (dv_schedule d) = (due, rest)" by fastforce
  obtain rs1 d1 where turn: "report_turn mt pr now moment due (d\<lparr>dv_schedule := rest\<rparr>) = (rs1, d1)" by fastforce
  have "rs = rs1 \<and> d' = d1"
    using assms(2) http_tick_reports [OF assms(1) pop turn, of "new_batcher 1 0"] by (auto simp: drive_one_def HttpTurn new_batcher_def)
  with turn_taken_report [OF assms(1) pop turn] show ?thesis by blast
next
  case (WsTurn now moment pause_until)
  obtain due rest where pop: "pop_due now (dv_schedule d) = (due, rest)" by fastforce
  note keep = pop_keeps_deadlines [OF assms(1) pop]
  consider (idle) "due = []" | (held) "due \<noteq> []" "0 < fl (pause_until - now)" | (report) "due \<noteq> []" "\<not> 0 < fl (pause_until - now)" by blast
  then show ?thesis
  proof cases
    case idle
    note served = postponed_in_order [OF assms(1) pop]
    from idle have "rs = [] \<and> d' = d\<lparr>dv_schedule := rest\<rparr>" using assms(2) pop by (auto simp: drive_one_def WsTurn ws_tick_def)
    with served idle show ?thesis by (auto intro!: exI turn_taken_quiet)
  next
    case held
    define u where "u = fl (now + fl (pause_until - now))"
    note served = postponed_in_order [OF assms(1) pop]
    from held have "rs = [] \<and> d' = fold (postpone pr u) due (d\<lparr>dv_schedule := rest\<rparr>)"
      using assms(2) pop by (auto simp: drive_one_def WsTurn ws_tick_def Let_def u_def)
    moreover have "same_fleet d (fold (postpone pr u) due (d\<lparr>dv_schedule := rest\<rparr>))"
      by (rule same_fleet_trans [OF same_fleet_ops(4)]) (rule same_fleet_fold, simp)
    moreover have "slot_of (fold (postpone pr u) due (d\<lparr>dv_schedule := rest\<rparr>)) j = slot_of d j" for j by (simp add: slot_fold)
    ultimately show ?thesis using turn_taken_quiet [OF served(1) _ served(2)] by blast
  next
    case report
    then have "report_turn mt pr now moment due (d\<lparr>dv_schedule := rest\<rparr>) = (rs, d')"
      using assms(2) pop by (auto simp: drive_one_def WsTurn ws_tick_def Let_def report_turn_def split: prod.splits)
    with turn_taken_report [OF assms(1) pop] show ?thesis by blast
  qed
qed

subsection \<open>What a run does to one device\<close>

lemma drive_keeps:
  assumes "in_order d" "drive mt pr es d = (rs, d')"
  shows "in_order d' \<and> same_fleet d d' \<and> (armed d \<longrightarrow> armed d')"
  using assms
proof (induction es arbitrary: d rs)
  case (Cons e es)
  then obtain rs1 d1 rs2 where one: "drive_one mt pr e d = (rs1, d1)" and tail: "drive mt pr es d1 = (rs2, d')" by (auto split: prod.splits)
  from drive_one_turn [OF Cons.prems(1) one] have "in_order d1" "same_fleet d d1" "armed d \<longrightarrow> armed d1" by (auto simp: turn_taken_def)
  with Cons.IH [OF _ tail] show ?case by (auto intro: same_fleet_trans)
qed simp

lemma filter_one: "distinct xs \<Longrightarrow> filter (\<lambda>x. x = a) xs = (if a \<in> set xs then [a] else [])"
  by (induction xs) auto

text \<open>The places that a device's reports name, in their order.\<close>

definition places_of :: "device_id \<Rightarrow> fleet_report list \<Rightarrow> (rat \<times> rat) list" where
  "places_of k rs = map place (filter (\<lambda>r. fr_device_id r = k) rs)"

lemma places_of_turn:
  assumes "turn_taken mt pr due moment d rs d'" "distinct (map st_device_id (dv_states d))" "i < length (dv_states d)"
  shows "places_of (st_device_id (dv_states d ! i)) rs =
    (if i \<in> set due then [place (report_payload (fst (slot_turn mt pr (dv_area d) (dv_interval d) (slot_of d i))) 0)] else [])"
proof -
  define r where "r j = report_payload (fst (slot_turn mt pr (dv_area d) (dv_interval d) (slot_of d j))) moment" for j
  have rs: "rs = map r due" and due: "distinct due" "set due \<subseteq> {..<length (dv_states d)}"
    using assms(1) by (simp_all add: turn_taken_def r_def [abs_def])
  have name: "fr_device_id (r j) = st_device_id (dv_states d ! j)" for j by (simp add: r_def report_payload_def slot_of_def)
  have "filter (\<lambda>j. fr_device_id (r j) = st_device_id (dv_states d ! i)) due = filter (\<lambda>j. j = i) due"
    using due(2) assms(2, 3) by (intro filter_cong refl) (auto simp: name subset_iff distinct_conv_nth)
  moreover have "place (r i) = place (report_payload (fst (slot_turn mt pr (dv_area d) (dv_interval d) (slot_of d i))) 0)"
    by (simp add: r_def place_def report_payload_def)
  ultimately show ?thesis using due(1) by (simp add: places_of_def rs filter_map filter_one o_def)
qed

lemma drive_history:
  assumes "in_order d" "drive mt pr es d = (rs, d')" "distinct (map st_device_id (dv_states d))" "i < length (dv_states d)"
  shows "\<exists>n. places_of (st_device_id (dv_states d ! i)) rs =
      map (\<lambda>k. place (report_payload (fst ((slot_turn mt pr (dv_area d) (dv_interval d) ^^ Suc k) (slot_of d i))) 0)) [0..<n]"
  using assms
proof (induction es arbitrary: d rs)
  case Nil
  then show ?case by (auto simp: places_of_def intro: exI [of _ 0])
next
  case (Cons e es)
  define turn where "turn = slot_turn mt pr (dv_area d) (dv_interval d)"
  define at_turn where "at_turn s = place (report_payload (fst s) 0)" for s :: "'a slot"
  obtain rs1 d1 rs2 where one: "drive_one mt pr e d = (rs1, d1)" and tail: "drive mt pr es d1 = (rs2, d')" and rs: "rs = rs1 @ rs2"
    using Cons.prems(2) by (auto split: prod.splits)
  obtain due moment where turn: "turn_taken mt pr due moment d rs1 d1" using drive_one_turn [OF Cons.prems(1) one] by blast
  then have fleet: "same_fleet d d1" and ord: "in_order d1"
    and slot: "slot_of d1 i = (if i \<in> set due then turn (slot_of d i) else slot_of d i)" by (auto simp: turn_taken_def turn_def)
  have ids: "map st_device_id (dv_states d1) = map st_device_id (dv_states d)" using fleet by (simp add: same_fleet_def)
  have i1: "i < length (dv_states d1)" using same_fleet_length [OF fleet] Cons.prems(4) by simp
  then have name: "st_device_id (dv_states d1 ! i) = st_device_id (dv_states d ! i)" using ids Cons.prems(4) by (metis nth_map)
  have "dv_area d1 = dv_area d" "dv_interval d1 = dv_interval d" using fleet by (simp_all add: same_fleet_def)
  with Cons.IH [OF ord tail _ i1] ids Cons.prems(3) name obtain n where
      n: "places_of (st_device_id (dv_states d ! i)) rs2 = map (\<lambda>k. at_turn ((turn ^^ Suc k) (slot_of d1 i))) [0..<n]"
    unfolding turn_def at_turn_def by auto
  have shift: "at_turn (turn s) # map (\<lambda>k. at_turn ((turn ^^ Suc k) (turn s))) [0..<n] = map (\<lambda>k. at_turn ((turn ^^ Suc k) s)) [0..<Suc n]" for s
    by (simp add: upt_conv_Cons map_Suc_upt [symmetric] funpow_swap1 del: upt_Suc)
  have "places_of (st_device_id (dv_states d ! i)) rs = map (\<lambda>k. at_turn ((turn ^^ Suc k) (slot_of d i))) [0..<(if i \<in> set due then Suc n else n)]"
    using places_of_turn [OF turn Cons.prems(3, 4)] n slot shift [of "slot_of d i"]
    by (auto simp: rs places_of_def turn_def [symmetric] at_turn_def [symmetric] simp del: upt_Suc)
  then show ?case unfolding at_turn_def turn_def by blast
qed

lemma new_devices_in_order: "in_order (new_devices pr seed interval a states g)"
  by (simp add: in_order_def aligned_def new_devices_def)

lemma new_devices_slot: "i < length states \<Longrightarrow> slot_of (new_devices pr seed interval a states g) i = first_slot pr seed interval (states ! i)"
  by (simp add: slot_of_def new_devices_def first_slot_def)

text \<open>(C30) The seed fixes every trajectory. Whatever happens to a run -- late wake-ups, pauses that the server asks for,
  restarts, either transport, any slicing of the fleet over connections -- the reports of a device name the places
  number 0, 1, 2 and so on of one sequence, which depends on the seed and on the device alone.\<close>

theorem trajectory_is_fixed_by_the_seed:
  assumes "st \<in> set states" "distinct (map st_device_id states)"
    "drive mt pr es (new_devices pr seed interval a states g) = (rs, d)"
  shows "places_of (st_device_id st) rs = map (place_number mt pr a seed interval st) [0..<length (places_of (st_device_id st) rs)]"
proof -
  obtain i where i: "i < length states" "states ! i = st" using assms(1) by (metis in_set_conv_nth)
  have s: "dv_states (new_devices pr seed interval a states g) = states" "dv_area (new_devices pr seed interval a states g) = a"
    "dv_interval (new_devices pr seed interval a states g) = interval" by (simp_all add: new_devices_def)
  from drive_history [OF new_devices_in_order assms(3), of i] assms(2) i obtain n
    where "places_of (st_device_id st) rs = map (place_number mt pr a seed interval st) [0..<n]"
    unfolding s by (auto simp: place_number_def [abs_def] new_devices_slot)
  then show ?thesis by simp
qed

text \<open>A slice of the fleet never reports at a multiple of its rate: once it has been armed, and through any number of
  restarts after that, every device has exactly one deadline in the schedule, and a second task that wants to drive
  the slice is refused.\<close>

theorem one_deadline_per_device:
  assumes "drive mt pr (Rearmed now spread # es) (new_devices pr seed interval a states g) = (rs, d)"
  shows "mset (map snd (dv_schedule d)) = mset [0..<length states] \<and>
    (\<exists>d1. claim pr later width (let_go d) = Inr d1 \<and> mset (map snd (dv_schedule d1)) = mset [0..<length states] \<and>
      claim pr later width d1 = Inl (AlreadyDriven (length states)))"
proof -
  define d0 where "d0 = devices_start pr now spread (new_devices pr seed interval a states g)"
  have par: "aligned (new_devices pr seed interval a states g)" using new_devices_in_order [of pr seed interval a states g] by (simp add: in_order_def)
  note start = start_in_order [OF par, of pr now spread, folded d0_def]
  obtain rs1 where "drive mt pr es d0 = (rs1, d)" using assms by (auto simp: drive_one_def d0_def split: prod.splits)
  from drive_keeps [OF start(1) this] start(2) have d: "armed d" "aligned d" "same_fleet d0 d" by (auto simp: in_order_def)
  have len: "length (dv_states d) = length states"
    using same_fleet_length [OF d(3)] same_fleet_length [OF start(3)] by (simp add: new_devices_def)
  define free where "free = d\<lparr>dv_driving := True\<rparr>"
  have pf: "aligned free" "length (dv_states free) = length states" "dv_driving free" using d len by (simp_all add: free_def aligned_def)
  define d1 where "d1 = devices_start pr later width free"
  note again = start_in_order [OF pf(1), of pr later width, folded d1_def]
  have len1: "length (dv_states d1) = length states" using same_fleet_length [OF again(3)] pf(2) by simp
  have "dv_driving (fold (arm pr later width) xs y) = dv_driving y" for xs y
    by (induction xs arbitrary: y) (auto simp: arm_def Let_def split: prod.splits)
  then have drv: "dv_driving d1" using pf(3) by (simp add: d1_def devices_start_def)
  have "let_go d\<lparr>dv_driving := True\<rparr> = free" by (simp add: let_go_def free_def)
  then have "claim pr later width (let_go d) = Inr d1" by (simp add: claim_def d1_def) (simp add: let_go_def)
  with again(2) d(1) len len1 drv show ?thesis by (auto simp: armed_def claim_def)
qed

subsection \<open>A small run\<close>

definition flat_math :: math where
  "flat_math = \<lparr>mt_sin = (\<lambda>_. 0), mt_cos = (\<lambda>_. 1), mt_sqrt = id, mt_hypot = (\<lambda>x y. \<bar>x\<bar> + \<bar>y\<bar>), mt_atan2 = (\<lambda>_ _. 0),
     mt_radians = id, mt_degrees = id, mt_pi = 3\<rparr>"

definition counting_prng :: "nat prng" where
  "counting_prng = \<lparr>pr_seed = length, pr_random = (\<lambda>g. (0, Suc g)), pr_uniform = (\<lambda>lo hi g. (lo, Suc g)),
     pr_gauss = (\<lambda>mu sigma g. (mu, Suc g)), pr_randrange = (\<lambda>n g. (g mod n, Suc g))\<rparr>"

definition demo_area :: area where
  "demo_area = \<lparr>ar_lat = 50, ar_lon = 30, ar_radius_m = 25000\<rparr>"

definition demo_state :: device_state where
  "demo_state = \<lparr>st_device_id = ''dev-00000'', st_lat = 50, st_lon = 30, st_heading_deg = 0, st_speed_mps = 1, st_profile = hd PROFILES\<rparr>"

definition demo_devices :: "nat devices" where
  "demo_devices = new_devices counting_prng 1 3 demo_area [demo_state] 0"

lemma demo_armed: "dv_schedule (devices_start counting_prng 0 0 demo_devices) = [(0, 0)]"
  by (simp add: devices_start_def demo_devices_def new_devices_def arm_def counting_prng_def push_def Let_def fl_def)

lemma demo_run: "\<exists>r d. drive flat_math counting_prng [Rearmed 0 0, HttpTurn 10 5] demo_devices = ([r], d) \<and> fr_device_id r = ''dev-00000''"
proof -
  define d0 where "d0 = devices_start counting_prng 0 0 demo_devices"
  have ord: "in_order d0" and fleet: "same_fleet demo_devices d0"
    using start_in_order(1, 3) [of demo_devices counting_prng 0 0] by (simp_all add: d0_def demo_devices_def new_devices_def aligned_def)
  have pop: "pop_due 10 (dv_schedule d0) = ([0], [])" by (simp add: d0_def demo_armed)
  obtain rs d1 where turn: "report_turn flat_math counting_prng 10 5 [0] (d0\<lparr>dv_schedule := []\<rparr>) = (rs, d1)" by fastforce
  from turn_taken_report [OF ord pop turn] obtain r where r: "rs = [r]" "fr_device_id r = st_device_id (dv_states d0 ! 0)"
    by (auto simp: turn_taken_def report_payload_def slot_of_def)
  have "map st_device_id (dv_states d0) = [''dev-00000'']"
    using fleet by (simp add: same_fleet_def demo_devices_def new_devices_def demo_state_def)
  then have "st_device_id (dv_states d0 ! 0) = ''dev-00000''" by auto
  with r http_tick_reports [OF ord pop turn, of "new_batcher 1 0"] show ?thesis
    by (auto simp: drive_one_def d0_def [symmetric] new_batcher_def)
qed

theorem trajectory_is_fixed_by_the_seed_witness:
  "\<exists>rs d. drive flat_math counting_prng [Rearmed 0 0, HttpTurn 10 5] demo_devices = (rs, d) \<and>
     places_of ''dev-00000'' rs = [place_number flat_math counting_prng demo_area 1 3 demo_state 0]"
proof -
  obtain r d where run: "drive flat_math counting_prng [Rearmed 0 0, HttpTurn 10 5] demo_devices = ([r], d)" "fr_device_id r = ''dev-00000''"
    using demo_run by blast
  have "st_device_id demo_state = ''dev-00000''" by (simp add: demo_state_def)
  with trajectory_is_fixed_by_the_seed [of demo_state "[demo_state]" flat_math counting_prng _ 1 3 demo_area 0, folded demo_devices_def, OF _ _ run(1)] run
  show ?thesis by (auto simp: places_of_def)
qed

theorem one_deadline_per_device_witness:
  "\<exists>rs d. drive flat_math counting_prng [Rearmed 0 0, HttpTurn 10 5, Rearmed 20 0] demo_devices = (rs, d) \<and>
     mset (map snd (dv_schedule d)) = {#0#}"
proof -
  obtain rs d where run: "drive flat_math counting_prng [Rearmed 0 0, HttpTurn 10 5, Rearmed 20 0] demo_devices = (rs, d)" by fastforce
  with one_deadline_per_device [of flat_math counting_prng 0 0 "[HttpTurn 10 5, Rearmed 20 0]" 1 3 demo_area "[demo_state]" 0, folded demo_devices_def, OF run]
  show ?thesis by auto
qed

end
