(* ===== verification/LoadStats.thy ===== *)
theory LoadStats
  imports FleetDrive
begin

text \<open>
  The load generator \<^verbatim>\<open>generator.py\<close>, fourth part: the latency sample, the counters and their snapshot, the rate limited
  console and the supervisor's pauses.
\<close>

definition LATENCY_SAMPLES :: nat where "LATENCY_SAMPLES = 4096"
definition QUEUE_DEPTH_FACTOR :: nat where "QUEUE_DEPTH_FACTOR = 4"
definition ERROR_INTERVAL_S :: rat where "ERROR_INTERVAL_S = 10"
definition VERBOSE_ERROR_INTERVAL_S :: rat where "VERBOSE_ERROR_INTERVAL_S = 1/2"

subsection \<open>The latency sample\<close>

record 'g reservoir =
  rz_capacity :: nat
  rz_count :: nat
  rz_values :: "rat list"
  rz_rng :: 'g

definition new_reservoir :: "nat \<Rightarrow> 'g \<Rightarrow> 'g reservoir" where
  "new_reservoir capacity g = \<lparr>rz_capacity = capacity, rz_count = 0, rz_values = [], rz_rng = g\<rparr>"

definition reservoir_add :: "'g prng \<Rightarrow> rat \<Rightarrow> 'g reservoir \<Rightarrow> 'g reservoir" where
  "reservoir_add pr v r =
     (let r = r\<lparr>rz_count := rz_count r + 1\<rparr> in
      if length (rz_values r) < rz_capacity r then r\<lparr>rz_values := rz_values r @ [v]\<rparr>
      else (case pr_randrange pr (rz_count r) (rz_rng r) of
              (index, g) \<Rightarrow>
                (let r = r\<lparr>rz_rng := g\<rparr> in if index < rz_capacity r then r\<lparr>rz_values := (rz_values r)[index := v]\<rparr> else r)))"

text \<open>\<^verbatim>\<open>percentile\<close>; \<open>None\<close> for an empty sample.\<close>

definition rank_position :: "nat \<Rightarrow> rat \<Rightarrow> rat" where
  "rank_position n q = fl (of_nat (n - 1) * q)"

definition percentile :: "rat list \<Rightarrow> rat \<Rightarrow> rat option" where
  "percentile vs q =
     (if vs = [] then None
      else (let ordered = sort vs;
                position = rank_position (length ordered) q;
                lower = nat \<lfloor>position\<rfloor>;
                upper = nat \<lceil>position\<rceil>
            in if lower = upper then Some (ordered ! lower)
               else (let weight = fl (position - of_nat lower)
                     in Some (fl (fl (ordered ! lower * fl (1 - weight)) + fl (ordered ! upper * weight))))))"

subsection \<open>Counters\<close>

record 'g stats =
  ct_started_at :: rat
  ct_produced :: nat
  ct_sent :: nat
  ct_accepted :: int
  ct_rejected :: nat
  ct_dropped :: nat
  ct_failures :: nat
  ct_reconnects :: nat
  ct_throttles :: nat
  ct_in_flight :: int
  ct_queued :: nat
  ct_latency :: "'g reservoir"
  ct_window_at :: rat
  ct_window_sent :: nat

definition new_stats :: "'g \<Rightarrow> rat \<Rightarrow> 'g stats" where
  "new_stats g started_at =
     \<lparr>ct_started_at = started_at, ct_produced = 0, ct_sent = 0, ct_accepted = 0, ct_rejected = 0, ct_dropped = 0, ct_failures = 0,
      ct_reconnects = 0, ct_throttles = 0, ct_in_flight = 0, ct_queued = 0, ct_latency = new_reservoir LATENCY_SAMPLES g,
      ct_window_at = started_at, ct_window_sent = 0\<rparr>"

record snapshot =
  sn_elapsed_s :: rat
  sn_in_flight :: int
  sn_queued :: nat
  sn_produced :: nat
  sn_sent :: nat
  sn_accepted :: int
  sn_rejected :: nat
  sn_dropped :: nat
  sn_failures :: nat
  sn_reconnects :: nat
  sn_throttles :: nat
  sn_sent_per_s :: rat
  sn_produced_per_s :: rat
  sn_window_per_s :: rat
  sn_p50 :: "rat option"
  sn_p95 :: "rat option"
  sn_p99 :: "rat option"
  sn_samples :: nat

definition TINY :: rat where "TINY = fl (1 / 10 ^ 9)"

definition take_snapshot :: "rat \<Rightarrow> 'g stats \<Rightarrow> snapshot \<times> 'g stats" where
  "take_snapshot now s =
     (let elapsed = max (fl (now - ct_started_at s)) TINY;
          window = max (fl (now - ct_window_at s)) TINY;
          window_sent = ct_sent s - ct_window_sent s;
          vs = rz_values (ct_latency s)
      in (\<lparr>sn_elapsed_s = fl (of_int (half_even (fl (now - ct_started_at s) * 10)) / 10), sn_in_flight = ct_in_flight s, sn_queued = ct_queued s,
           sn_produced = ct_produced s, sn_sent = ct_sent s, sn_accepted = ct_accepted s, sn_rejected = ct_rejected s,
           sn_dropped = ct_dropped s, sn_failures = ct_failures s, sn_reconnects = ct_reconnects s, sn_throttles = ct_throttles s,
           sn_sent_per_s = fl (of_nat (ct_sent s) / elapsed), sn_produced_per_s = fl (of_nat (ct_produced s) / elapsed),
           sn_window_per_s = fl (of_nat window_sent / window), sn_p50 = percentile vs (1/2), sn_p95 = percentile vs (fl (95/100)),
           sn_p99 = percentile vs (fl (99/100)), sn_samples = rz_count (ct_latency s)\<rparr>,
          s\<lparr>ct_window_at := now, ct_window_sent := ct_sent s\<rparr>))"

definition live_gauge :: "snapshot \<Rightarrow> config \<Rightarrow> string" where
  "live_gauge sn c =
     (if cf_transport c = Ws then ''conn '' @ str_int (sn_in_flight sn) @ ''/'' @ str_int (cf_connections c)
      else ''busy '' @ str_int (sn_in_flight sn) @ ''/'' @ str_int (cf_connections c) @ '' q '' @ str_int (int (sn_queued sn)) @ ''/'' @
           str_int (cf_connections c * int QUEUE_DEPTH_FACTOR))"

subsection \<open>The console\<close>

record console =
  co_interval :: rat
  co_next_error_at :: rat

definition new_console :: "bool \<Rightarrow> console" where
  "new_console verbose = \<lparr>co_interval = (if verbose then VERBOSE_ERROR_INTERVAL_S else ERROR_INTERVAL_S), co_next_error_at = 0\<rparr>"

text \<open>Whether the line is written, and the console afterwards.\<close>

definition console_error :: "rat \<Rightarrow> console \<Rightarrow> bool \<times> console" where
  "console_error now c = (if now < co_next_error_at c then (False, c) else (True, c\<lparr>co_next_error_at := fl (now + co_interval c)\<rparr>))"

fun console_errors :: "rat list \<Rightarrow> console \<Rightarrow> rat list" where
  "console_errors [] c = []"
| "console_errors (now # nows) c =
     (case console_error now c of (written, c1) \<Rightarrow> (if written then now # console_errors nows c1 else console_errors nows c1))"

subsection \<open>The supervisor\<close>

definition backoff :: "rat \<Rightarrow> rat" where
  "backoff delay = min (fl (delay * 2)) RECONNECT_MAX_S"

text \<open>
  \<^verbatim>\<open>supervise\<close> over the outcomes of \<^verbatim>\<open>_run_once\<close>, \<open>True\<close> for a factory that returned: the pauses it takes, the failures it
  counts, and whether it has ended.
\<close>

fun supervise :: "rat \<Rightarrow> bool list \<Rightarrow> 'g stats \<Rightarrow> rat list \<times> bool \<times> 'g stats" where
  "supervise delay [] s = ([], False, s)"
| "supervise delay (True # rs) s = ([], True, s)"
| "supervise delay (False # rs) s =
     (case supervise (backoff delay) rs (s\<lparr>ct_failures := ct_failures s + 1\<rparr>) of (ps, e, s1) \<Rightarrow> (delay # ps, e, s1))"

subsection \<open>Properties\<close>

lemma reservoir_add_parts:
  assumes "length (rz_values r) = min (rz_count r) (rz_capacity r)"
  shows "length (rz_values (reservoir_add pr v r)) = min (rz_count (reservoir_add pr v r)) (rz_capacity r)"
    "rz_count (reservoir_add pr v r) = Suc (rz_count r)" "rz_capacity (reservoir_add pr v r) = rz_capacity r"
    "set (rz_values (reservoir_add pr v r)) \<subseteq> insert v (set (rz_values r))"
    "rz_count r < rz_capacity r \<Longrightarrow> rz_values (reservoir_add pr v r) = rz_values r @ [v]"
  using assms set_update_subset_insert [of "rz_values r" _ v] by (auto simp: reservoir_add_def Let_def split: prod.splits)

text \<open>The sample of latencies is bounded and honest: after any observations it holds as many values as were observed,
  up to its capacity, all of them observed ones, and while it is not full it holds exactly the observations; all of
  them are counted.\<close>

theorem sample_is_bounded:
  "rz_count (fold (reservoir_add pr) vs (new_reservoir capacity g)) = length vs \<and>
   length (rz_values (fold (reservoir_add pr) vs (new_reservoir capacity g))) = min (length vs) capacity \<and>
   set (rz_values (fold (reservoir_add pr) vs (new_reservoir capacity g))) \<subseteq> set vs \<and>
   (capacity < length vs \<or> rz_values (fold (reservoir_add pr) vs (new_reservoir capacity g)) = vs)"
proof -
  define r where "r vs = fold (reservoir_add pr) vs (new_reservoir capacity g)" for vs
  have "rz_count (r vs) = length vs \<and> rz_capacity (r vs) = capacity \<and> length (rz_values (r vs)) = min (rz_count (r vs)) (rz_capacity (r vs)) \<and>
      set (rz_values (r vs)) \<subseteq> set vs \<and> (length vs \<le> capacity \<longrightarrow> rz_values (r vs) = vs)" for vs
  proof (induction vs rule: rev_induct)
    case Nil
    then show ?case by (simp add: r_def new_reservoir_def)
  next
    case (snoc v vs)
    have step: "r (vs @ [v]) = reservoir_add pr v (r vs)" by (simp add: r_def)
    from snoc have len: "length (rz_values (r vs)) = min (rz_count (r vs)) (rz_capacity (r vs))" by blast
    show ?case using snoc reservoir_add_parts [OF len, of pr v] unfolding step by (auto simp: subset_iff)
  qed
  from this [of vs] show ?thesis unfolding r_def by auto
qed

text \<open>The ranks that a percentile reads exist.\<close>

lemma rank_in_range:
  assumes "0 < n" "int n \<le> 2 ^ 53" "0 \<le> q" "q \<le> 1"
  shows "0 \<le> rank_position n q" "nat \<lfloor>rank_position n q\<rfloor> < n" "nat \<lceil>rank_position n q\<rceil> < n"
proof -
  have up: "of_nat (n - 1) * q \<le> of_int (int (n - 1))" using assms by (simp add: mult_left_le)
  have hi: "rank_position n q \<le> of_int (int (n - 1))"
    unfolding rank_position_def by (rule fl_le_int [OF _ up]) (use assms in simp)
  have lo: "of_int 0 \<le> rank_position n q"
    unfolding rank_position_def by (rule fl_ge_int) (use assms in simp_all)
  then show "0 \<le> rank_position n q" by simp
  have "\<lceil>rank_position n q\<rceil> \<le> int (n - 1)" using hi by (simp only: ceiling_le_iff)
  moreover have "\<lfloor>rank_position n q\<rfloor> \<le> \<lceil>rank_position n q\<rceil>" by (rule floor_le_ceiling)
  ultimately show "nat \<lfloor>rank_position n q\<rfloor> < n" "nat \<lceil>rank_position n q\<rceil> < n" using assms(1) by linarith+
qed

lemma console_errors_subset: "set (console_errors nows c) \<subseteq> set nows"
  by (induction nows arbitrary: c) (auto split: prod.splits)

lemma console_quiet_time: "sorted nows \<Longrightarrow> t \<in> set (console_errors nows c) \<Longrightarrow> co_next_error_at c \<le> t"
proof (induction nows arbitrary: c)
  case (Cons now nows)
  then show ?case using console_errors_subset by (force simp: console_error_def split: if_splits)
qed simp

text \<open>Error lines are at least the interval apart.\<close>

lemma console_spacing: "sorted nows \<Longrightarrow> sorted_wrt (\<lambda>s t. fl (s + co_interval c) \<le> t) (console_errors nows c)"
proof (induction nows arbitrary: c)
  case (Cons now nows)
  then show ?case
    using console_quiet_time [of nows _ "c\<lparr>co_next_error_at := fl (now + co_interval c)\<rparr>"] Cons.IH [of "c\<lparr>co_next_error_at := fl (now + co_interval c)\<rparr>"]
    by (auto simp: console_error_def)
qed simp

lemma supervise_pauses: "delay \<le> RECONNECT_MAX_S \<Longrightarrow> list_all (\<lambda>p. p \<le> RECONNECT_MAX_S) (fst (supervise delay rs s))"
  by (induction delay rs s rule: supervise.induct) (auto simp: backoff_def split: prod.splits)

end
