(* ===== verification/LoadRun.thy ===== *)
theory LoadRun
  imports LoadStats "HOL-Library.AList"
begin

text \<open>
  The load generator \<^verbatim>\<open>generator.py\<close>, last part: the websocket workers and the HTTP runner as state machines. A task is cut
  at its \<^verbatim>\<open>await\<close> points; what the network, the clock and the scheduler do to it is an event, and a run is a list of
  events, each with the number of the task it happens to. An event that a task is not waiting for has no successor
  state. The theory shows what the counters of a run mean.
\<close>

definition PENDING_ACKS_MAX :: nat where "PENDING_ACKS_MAX = 1024"
definition HTTP_ATTEMPTS :: nat where "HTTP_ATTEMPTS = 3"

text \<open>\<^verbatim>\<open>isinstance(v, int)\<close>, which a boolean passes.\<close>

definition int_value :: "json option \<Rightarrow> int option" where
  "int_value v = (case v of Some (JInt n) \<Rightarrow> Some n | Some (JBool b) \<Rightarrow> Some (if b then 1 else 0) | _ \<Rightarrow> None)"

text \<open>\<^verbatim>\<open>isinstance(v, int | float)\<close>; a decoded float is finite.\<close>

definition number_value :: "json option \<Rightarrow> rat option" where
  "number_value v = (case v of Some (JFloat (Fin x)) \<Rightarrow> Some x | _ \<Rightarrow> map_option of_int (int_value v))"

subsection \<open>A websocket worker\<close>

text \<open>
  Where the worker waits: before its start, between sessions with the next backoff and the pause it takes, in an open
  session with nothing to send, for the transport to take a frame (the frame, the reports in it, the chunks after it and
  the number of undelivered reports), or no more.
\<close>

datatype ws_phase =
    Fresh
  | Apart rat rat
  | Open
  | OnWire bytes "fleet_report list" "fleet_report list list" nat
  | Stopped

record 'g ws_worker =
  wk_devices :: "'g devices"
  wk_start_delay :: rat
  wk_pending :: "(int \<times> rat \<times> nat) list"
  wk_pause_until :: rat
  wk_seq :: int
  wk_connected_once :: bool
  wk_phase :: ws_phase

definition new_worker :: "'g prng \<Rightarrow> int \<Rightarrow> rat \<Rightarrow> area \<Rightarrow> rat \<Rightarrow> nat \<Rightarrow> nat \<Rightarrow> device_state list \<Rightarrow> 'g ws_worker" where
  "new_worker pr seed interval a ramp_up connections index states =
     \<lparr>wk_devices = new_devices pr seed interval a states (pr_seed pr (str_int seed @ '':ws:'' @ str_int (int index))),
      wk_start_delay = fl (fl (ramp_up * of_nat index) / of_nat (max connections 1)),
      wk_pending = [], wk_pause_until = 0, wk_seq = 0, wk_connected_once = False, wk_phase = Fresh\<rparr>"

text \<open>\<^verbatim>\<open>fleet[index :: connections]\<close>\<close>

definition stripe :: "nat \<Rightarrow> nat \<Rightarrow> 'a list \<Rightarrow> 'a list" where
  "stripe i k xs = map (\<lambda>j. xs ! j) (filter (\<lambda>j. i \<le> j \<and> (j - i) mod k = 0) [0..<length xs])"

definition remember :: "int \<Rightarrow> rat \<Rightarrow> nat \<Rightarrow> 'g ws_worker \<Rightarrow> 'g ws_worker" where
  "remember seq at_time n w =
     (let pending = AList.update seq (at_time, n) (wk_pending w);
          stale = (if PENDING_ACKS_MAX < length pending then take (length pending - PENDING_ACKS_MAX) (sort (map fst pending)) else [])
      in w\<lparr>wk_pending := fold AList.delete stale pending\<rparr>)"

definition forget_frame :: "int \<Rightarrow> 'g ws_worker \<Rightarrow> nat \<times> 'g ws_worker" where
  "forget_frame seq w =
     ((case map_of (wk_pending w) seq of None \<Rightarrow> 0 | Some (sent_at, n) \<Rightarrow> n), w\<lparr>wk_pending := AList.delete seq (wk_pending w)\<rparr>)"

text \<open>\<^verbatim>\<open>_handle\<close>, one branch per type of frame.\<close>

definition heard_ack :: "'g prng \<Rightarrow> rat \<Rightarrow> (string \<times> json) list \<Rightarrow> 'g ws_worker \<Rightarrow> 'g stats \<Rightarrow> 'g ws_worker \<times> 'g stats" where
  "heard_ack pr now frame w s =
     (let (w1, s1) =
            (case int_value (map_of frame ''seq'') of
               None \<Rightarrow> (w, s)
             | Some seq \<Rightarrow>
                 (w\<lparr>wk_pending := AList.delete seq (wk_pending w)\<rparr>,
                  case map_of (wk_pending w) seq of
                    None \<Rightarrow> s
                  | Some (sent_at, n) \<Rightarrow> s\<lparr>ct_latency := reservoir_add pr (fl (fl (now - sent_at) * 1000)) (ct_latency s)\<rparr>))
      in (w1, s1\<lparr>ct_accepted := ct_accepted s1 + (case int_value (map_of frame ''accepted'') of None \<Rightarrow> 0 | Some n \<Rightarrow> n)\<rparr>))"

definition heard_throttle :: "rat \<Rightarrow> (string \<times> json) list \<Rightarrow> 'g ws_worker \<Rightarrow> 'g stats \<Rightarrow> 'g ws_worker \<times> 'g stats" where
  "heard_throttle now frame w s =
     (let retry_s = fl ((case number_value (map_of frame ''retry_after_ms'') of None \<Rightarrow> 1000 | Some ms \<Rightarrow> ms) / 1000);
          pause = retry_pause (Some retry_s) RECONNECT_BASE_S
      in (w\<lparr>wk_pause_until := max (wk_pause_until w) (fl (now + pause))\<rparr>, s\<lparr>ct_throttles := ct_throttles s + 1\<rparr>))"

definition heard_error :: "(string \<times> json) list \<Rightarrow> 'g ws_worker \<Rightarrow> 'g stats \<Rightarrow> 'g ws_worker \<times> 'g stats" where
  "heard_error frame w s =
     (case forget_frame (case int_value (map_of frame ''seq'') of None \<Rightarrow> wk_seq w | Some seq \<Rightarrow> seq) w of
        (n, w1) \<Rightarrow> (w1, s\<lparr>ct_rejected := ct_rejected s + n\<rparr>))"

definition handle_message :: "loads \<Rightarrow> 'g prng \<Rightarrow> rat \<Rightarrow> bytes \<Rightarrow> 'g ws_worker \<Rightarrow> 'g stats \<Rightarrow> 'g ws_worker \<times> 'g stats" where
  "handle_message loads pr now message w s =
     (case loads message of
        Inl e \<Rightarrow> (w, s\<lparr>ct_failures := ct_failures s + 1\<rparr>)
      | Inr (JObj frame) \<Rightarrow>
          (if map_of frame ''type'' = Some (JStr ''ack'') then heard_ack pr now frame w s
           else if map_of frame ''type'' = Some (JStr ''throttle'') then heard_throttle now frame w s
           else if map_of frame ''type'' = Some (JStr ''error'') then heard_error frame w s
           else (w, s))
      | Inr v \<Rightarrow> (w, s))"

text \<open>\<^verbatim>\<open>_send\<close> up to the next \<^verbatim>\<open>await\<close>: the next chunk goes to the transport, or all are out.\<close>

definition send_next :: "dumps \<Rightarrow> (micros \<Rightarrow> string) \<Rightarrow> rat \<Rightarrow> fleet_report list list \<Rightarrow> nat \<Rightarrow> 'g ws_worker \<Rightarrow> 'g ws_worker" where
  "send_next dumps isofmt now chunks undelivered w =
     (case chunks of
        [] \<Rightarrow> w\<lparr>wk_phase := Open\<rparr>
      | c # cs \<Rightarrow>
          (let seq = wk_seq w + 1
           in (remember seq now (length c) (w\<lparr>wk_seq := seq\<rparr>))
                \<lparr>wk_phase := OnWire (ingest_envelope dumps isofmt c (Some seq)) c cs undelivered\<rparr>))"

text \<open>The handler of \<^verbatim>\<open>_session\<close> for an exception: a pause drawn around the backoff, and the next backoff.\<close>

definition session_failed :: "'g prng \<Rightarrow> rat \<Rightarrow> 'g ws_worker \<Rightarrow> 'g stats \<Rightarrow> 'g ws_worker \<times> 'g stats" where
  "session_failed pr delay w s =
     (case pr_random pr (dv_rng (wk_devices w)) of
        (u, g) \<Rightarrow> (w\<lparr>wk_devices := (wk_devices w)\<lparr>dv_rng := g\<rparr>, wk_phase := Apart (backoff delay) (fl (delay * fl (1/2 + u)))\<rparr>,
                   s\<lparr>ct_failures := ct_failures s + 1\<rparr>))"

definition session_opened :: "'g ws_worker \<Rightarrow> 'g stats \<Rightarrow> 'g ws_worker \<times> 'g stats" where
  "session_opened w s =
     (w\<lparr>wk_connected_once := True, wk_phase := Open\<rparr>,
      s\<lparr>ct_reconnects := ct_reconnects s + (if wk_connected_once w then 1 else 0), ct_in_flight := ct_in_flight s + 1\<rparr>)"

record 'g load_env =
  le_math :: math
  le_prng :: "'g prng"
  le_dumps :: dumps
  le_loads :: loads
  le_isofmt :: "micros \<Rightarrow> string"
  le_int_of :: "string \<Rightarrow> int option"
  le_date_of :: "string \<Rightarrow> micros option"
  le_max_batch :: nat
  le_batch_size :: nat
  le_batch_window_s :: rat
  le_connections :: nat
  le_ramp_up :: rat

text \<open>A turn of \<^verbatim>\<open>_send_forever\<close>, with the call of \<^verbatim>\<open>_send\<close>.\<close>

definition worker_wakes :: "'g load_env \<Rightarrow> rat \<Rightarrow> micros \<Rightarrow> rat \<Rightarrow> 'g ws_worker \<Rightarrow> 'g stats \<Rightarrow> 'g ws_worker \<times> 'g stats" where
  "worker_wakes env now moment later w s =
     (case ws_tick (le_math env) (le_prng env) now moment (wk_pause_until w) (wk_devices w) of
        (Reports rs, d) \<Rightarrow>
          (send_next (le_dumps env) (le_isofmt env) later (chunked rs (le_max_batch env)) (length rs) (w\<lparr>wk_devices := d\<rparr>),
           s\<lparr>ct_produced := ct_produced s + length rs\<rparr>)
      | (_, d) \<Rightarrow> (w\<lparr>wk_devices := d\<rparr>, s))"

datatype worker_event =
    Begins rat
  | Connects
  | ConnectFails
  | Wakes rat micros rat
  | FrameTaken rat
  | FrameFails
  | Hears rat bytes
  | WorkerCancelled

definition worker_turn :: "'g load_env \<Rightarrow> worker_event \<Rightarrow> 'g ws_worker \<Rightarrow> 'g stats \<Rightarrow> ('g ws_worker \<times> 'g stats) option" where
  "worker_turn env e w s =
     (case (e, wk_phase w) of
        (Begins now, Fresh) \<Rightarrow>
          (case claim (le_prng env) now 0 (wk_devices w) of
             Inl err \<Rightarrow> None
           | Inr d \<Rightarrow> Some (w\<lparr>wk_devices := d, wk_phase := Apart RECONNECT_BASE_S 0\<rparr>, s))
      | (Connects, Apart delay pause) \<Rightarrow> Some (session_opened w s)
      | (ConnectFails, Apart delay pause) \<Rightarrow> Some (session_failed (le_prng env) delay w s)
      | (Wakes now moment later, Open) \<Rightarrow> Some (worker_wakes env now moment later w s)
      | (FrameTaken later, OnWire f c cs u) \<Rightarrow>
          Some (send_next (le_dumps env) (le_isofmt env) later cs (u - length c) w, s\<lparr>ct_sent := ct_sent s + length c\<rparr>)
      | (FrameFails, OnWire f c cs u) \<Rightarrow>
          Some (session_failed (le_prng env) RECONNECT_BASE_S w (s\<lparr>ct_dropped := ct_dropped s + u, ct_in_flight := ct_in_flight s - 1\<rparr>))
      | (Hears now m, Open) \<Rightarrow> Some (handle_message (le_loads env) (le_prng env) now m w s)
      | (Hears now m, OnWire f c cs u) \<Rightarrow> Some (handle_message (le_loads env) (le_prng env) now m w s)
      | (WorkerCancelled, OnWire f c cs u) \<Rightarrow>
          Some (w\<lparr>wk_devices := let_go (wk_devices w), wk_phase := Stopped\<rparr>,
                s\<lparr>ct_dropped := ct_dropped s + u, ct_in_flight := ct_in_flight s - 1\<rparr>)
      | (WorkerCancelled, Open) \<Rightarrow> Some (w\<lparr>wk_devices := let_go (wk_devices w), wk_phase := Stopped\<rparr>, s\<lparr>ct_in_flight := ct_in_flight s - 1\<rparr>)
      | (WorkerCancelled, Apart delay pause) \<Rightarrow> Some (w\<lparr>wk_devices := let_go (wk_devices w), wk_phase := Stopped\<rparr>, s)
      | (WorkerCancelled, Fresh) \<Rightarrow> Some (w\<lparr>wk_phase := Stopped\<rparr>, s)
      | _ \<Rightarrow> None)"

text \<open>All workers share the counters.\<close>

fun ws_run :: "'g load_env \<Rightarrow> (nat \<times> worker_event) list \<Rightarrow> 'g ws_worker list \<Rightarrow> 'g stats \<Rightarrow> ('g ws_worker list \<times> 'g stats) option" where
  "ws_run env [] ws s = Some (ws, s)"
| "ws_run env ((i, e) # es) ws s =
     (if i < length ws then
        (case worker_turn env e (ws ! i) s of
           None \<Rightarrow> None
         | Some (w, s1) \<Rightarrow> ws_run env es (ws[i := w]) s1)
      else None)"

definition ws_start :: "'g prng \<Rightarrow> int \<Rightarrow> rat \<Rightarrow> area \<Rightarrow> rat \<Rightarrow> nat \<Rightarrow> device_state list \<Rightarrow> 'g ws_worker list" where
  "ws_start pr seed interval a ramp_up connections fleet =
     map (\<lambda>i. new_worker pr seed interval a ramp_up connections i (stripe i connections fleet)) [0..<connections]"

subsection \<open>The ledger of a websocket run\<close>

lemma sum_list_swap:
  fixes f :: "'a \<Rightarrow> 'b :: comm_monoid_add"
  shows "k < length xs \<Longrightarrow> sum_list (map f (xs[k := x])) + f (xs ! k) = sum_list (map f xs) + f x"
proof (induction xs arbitrary: k)
  case (Cons y ys)
  show ?case
  proof (cases k)
    case 0
    then show ?thesis by (simp add: ac_simps)
  next
    case (Suc n)
    with Cons.IH [of n] Cons.prems show ?thesis by (simp add: add.assoc)
  qed
qed simp

definition undelivered :: "'g ws_worker \<Rightarrow> nat" where
  "undelivered w = (case wk_phase w of OnWire f c cs u \<Rightarrow> u | _ \<Rightarrow> 0)"

definition connected :: "'g ws_worker \<Rightarrow> int" where
  "connected w = (case wk_phase w of OnWire f c cs u \<Rightarrow> 1 | Open \<Rightarrow> 1 | _ \<Rightarrow> 0)"

text \<open>The reports that a frame on its way stands for are its own and those of the frames after it.\<close>

definition consistent :: "'g ws_worker \<Rightarrow> bool" where
  "consistent w \<longleftrightarrow> (case wk_phase w of OnWire f c cs u \<Rightarrow> u = length c + length (concat cs) | _ \<Rightarrow> True) \<and>
     length (wk_pending w) \<le> PENDING_ACKS_MAX \<and> distinct (map fst (wk_pending w))"

lemma delete_all:
  "distinct (map fst xs) \<Longrightarrow> distinct ks \<Longrightarrow> set ks \<subseteq> fst ` set xs \<Longrightarrow>
     length (fold AList.delete ks xs) = length xs - length ks \<and> distinct (map fst (fold AList.delete ks xs))"
proof (induction ks arbitrary: xs)
  case (Cons k ks)
  have "distinct (map fst (AList.delete k xs))" using Cons.prems(1) by (rule distinct_delete)
  moreover have "set ks \<subseteq> fst ` set (AList.delete k xs)" using Cons.prems(2, 3) by (auto simp: delete_keys simp flip: set_map)
  moreover have "length (map fst (AList.delete k xs)) = length xs - 1"
    using Cons.prems(1, 3) by (simp add: delete_keys distinct_remove1_removeAll [symmetric] length_remove1)
  ultimately show ?case using Cons.IH [of "AList.delete k xs"] Cons.prems(2) by simp
qed simp

lemma remember_bounded:
  assumes "distinct (map fst (wk_pending w))"
  shows "length (wk_pending (remember seq t n w)) \<le> PENDING_ACKS_MAX \<and> distinct (map fst (wk_pending (remember seq t n w)))"
proof -
  define pending where "pending = AList.update seq (t, n) (wk_pending w)"
  have d: "distinct (map fst pending)" unfolding pending_def by (rule distinct_update [OF assms])
  define ks where "ks = take (length pending - PENDING_ACKS_MAX) (sort (map fst pending))"
  have ks: "distinct ks" "set ks \<subseteq> fst ` set pending" "length ks = length pending - PENDING_ACKS_MAX"
    using d set_take_subset [of _ "sort (map fst pending)"] by (auto simp: ks_def distinct_take)
  from delete_all [OF d ks(1, 2)] ks(3) d show ?thesis
    by (auto simp: remember_def Let_def pending_def [symmetric] ks_def [symmetric])
qed

lemma remember_phase [simp]: "wk_phase (remember seq t n w) = wk_phase w"
  by (simp add: remember_def Let_def)

lemma send_next_parts:
  assumes "u = length (concat cs)" "length (wk_pending w) \<le> PENDING_ACKS_MAX" "distinct (map fst (wk_pending w))"
  shows "consistent (send_next dumps isofmt t cs u w)" "undelivered (send_next dumps isofmt t cs u w) = u" "connected (send_next dumps isofmt t cs u w) = 1"
  using assms remember_bounded [of "w\<lparr>wk_seq := wk_seq w + 1\<rparr>"]
  by (auto simp: send_next_def consistent_def undelivered_def connected_def Let_def split: list.splits)

text \<open>What a message from the server leaves alone.\<close>

definition unmoved :: "'g ws_worker \<times> 'g stats \<Rightarrow> 'g ws_worker \<times> 'g stats \<Rightarrow> bool" where
  "unmoved x y \<longleftrightarrow> wk_phase (fst y) = wk_phase (fst x) \<and> (consistent (fst x) \<longrightarrow> consistent (fst y)) \<and>
     ct_produced (snd y) = ct_produced (snd x) \<and> ct_sent (snd y) = ct_sent (snd x) \<and> ct_dropped (snd y) = ct_dropped (snd x) \<and>
     ct_in_flight (snd y) = ct_in_flight (snd x)"

lemma consistent_delete: "consistent w \<Longrightarrow> consistent (w\<lparr>wk_pending := AList.delete k (wk_pending w)\<rparr>)"
  using length_delete_le [of k "wk_pending w"] by (simp add: consistent_def distinct_delete)

lemma unmoved_by_messages:
  "unmoved (w, s) (heard_ack pr now frame w s)" "unmoved (w, s) (heard_throttle now frame w s)" "unmoved (w, s) (heard_error frame w s)"
  "unmoved (w, s) (handle_message loads pr now m w s)"
proof -
  show ack: "unmoved (w, s) (heard_ack pr now frame w s)" for frame
    by (auto simp: unmoved_def heard_ack_def Let_def consistent_delete split: option.splits)
  show throttle: "unmoved (w, s) (heard_throttle now frame w s)" for frame
    by (simp add: unmoved_def heard_throttle_def Let_def consistent_def)
  show error: "unmoved (w, s) (heard_error frame w s)" for frame
    by (simp add: unmoved_def heard_error_def forget_frame_def consistent_delete)
  show "unmoved (w, s) (handle_message loads pr now m w s)"
    by (simp add: handle_message_def ack throttle error split: sum.splits json.splits) (simp add: unmoved_def)
qed

lemma ws_tick_chunks: "0 < n \<Longrightarrow> length (concat (chunked rs n)) = length rs"
  by (simp add: chunked_concat)

text \<open>What an event may do to a worker and the counters: no report leaves the ledger, no socket leaves the gauge.\<close>

definition booked :: "'g ws_worker \<Rightarrow> 'g stats \<Rightarrow> 'g ws_worker \<Rightarrow> 'g stats \<Rightarrow> bool" where
  "booked w s w1 s1 \<longleftrightarrow> consistent w1 \<and>
     ct_produced s1 + ct_sent s + ct_dropped s + undelivered w = ct_produced s + ct_sent s1 + ct_dropped s1 + undelivered w1 \<and>
     ct_in_flight s1 + connected w = ct_in_flight s + connected w1"

lemma worker_turn_ledger:
  assumes "0 < le_max_batch env" "consistent w" "worker_turn env e w s = Some (w1, s1)"
  shows "booked w s w1 s1"
proof -
  have wakes: "booked w s w1 s1"
    if "wk_phase w = Open" "worker_wakes env now moment later w s = (w1, s1)" for now moment later
  proof -
    obtain tk d where tk: "ws_tick (le_math env) (le_prng env) now moment (wk_pause_until w) (wk_devices w) = (tk, d)" by fastforce
    show ?thesis
      using that assms(1, 2) tk send_next_parts [OF ws_tick_chunks [OF assms(1), symmetric], of "w\<lparr>wk_devices := d\<rparr>"]
      by (cases tk) (auto simp: booked_def worker_wakes_def consistent_def undelivered_def connected_def)
  qed
  have heard: "booked w s w1 s1"
    if "handle_message (le_loads env) (le_prng env) now m w s = (w1, s1)" for now m
    using that assms(2) unmoved_by_messages(4) [of w s "le_loads env" "le_prng env" now m]
    by (simp add: booked_def unmoved_def undelivered_def connected_def)
  have taken: "booked w s w1 s1"
    if "wk_phase w = OnWire f c cs u" "send_next (le_dumps env) (le_isofmt env) later cs (u - length c) w = w1" "s\<lparr>ct_sent := ct_sent s + length c\<rparr> = s1"
    for f c cs u later
    using that assms(2) send_next_parts [of "u - length c" cs w "le_dumps env" "le_isofmt env" later]
    by (auto simp: booked_def consistent_def undelivered_def connected_def)
  show "booked w s w1 s1"
    using assms(2, 3) wakes heard taken
    by (cases e; cases "wk_phase w")
      (auto simp: booked_def worker_turn_def session_opened_def session_failed_def consistent_def undelivered_def connected_def split: sum.splits prod.splits)
qed

lemma ws_run_ledger:
  assumes "0 < le_max_batch env" "list_all consistent ws" "ws_run env es ws s = Some (ws1, s1)"
    "ct_produced s = ct_sent s + ct_dropped s + sum_list (map undelivered ws)" "ct_in_flight s = sum_list (map connected ws)"
  shows "ct_produced s1 = ct_sent s1 + ct_dropped s1 + sum_list (map undelivered ws1) \<and> ct_in_flight s1 = sum_list (map connected ws1) \<and>
    list_all consistent ws1 \<and> length ws1 = length ws"
  using assms(2-)
proof (induction es arbitrary: ws s)
  case (Cons ie es)
  obtain i e where ie: "ie = (i, e)" by fastforce
  obtain w s2 where i: "i < length ws" and ev: "worker_turn env e (ws ! i) s = Some (w, s2)" and run: "ws_run env es (ws[i := w]) s2 = Some (ws1, s1)"
    using Cons.prems(2) by (auto simp: ie split: if_splits option.splits)
  have "consistent (ws ! i)" using Cons.prems(1) i by (simp add: list_all_length)
  from worker_turn_ledger [OF assms(1) this ev] have b: "booked (ws ! i) s w s2" .
  have "list_all consistent (ws[i := w])" using Cons.prems(1) b i by (auto simp: list_all_length nth_list_update booked_def)
  moreover have "ct_produced s2 = ct_sent s2 + ct_dropped s2 + sum_list (map undelivered (ws[i := w]))"
    using b Cons.prems(3) sum_list_swap [OF i, of undelivered w] by (simp add: booked_def)
  moreover have "ct_in_flight s2 = sum_list (map connected (ws[i := w]))"
    using b Cons.prems(4) sum_list_swap [OF i, of connected w] by (simp add: booked_def)
  ultimately show ?case using Cons.IH [OF _ run] by simp
qed simp

lemma new_workers:
  "sum_list (map undelivered (ws_start pr seed interval a ramp_up connections fleet)) = 0"
  "sum_list (map connected (ws_start pr seed interval a ramp_up connections fleet)) = 0"
  "list_all consistent (ws_start pr seed interval a ramp_up connections fleet)"
  by (simp_all add: ws_start_def o_def new_worker_def undelivered_def connected_def consistent_def list_all_iff)

text \<open>The summary of a websocket run adds up at every moment: a produced report has been sent, or dropped, or is in a
  frame that a worker is still sending; the gauge is the number of open sockets; and no worker remembers more
  outstanding frames than its bound. Once every worker has been cancelled, every produced report is either sent or
  dropped.\<close>

theorem websocket_run_balances:
  assumes "0 < le_max_batch env"
    "ws_run env es (ws_start (le_prng env) seed interval a ramp_up connections fleet) (new_stats g started_at) = Some (ws, s)"
  shows "ct_produced s = ct_sent s + ct_dropped s + sum_list (map undelivered ws) \<and>
    ct_in_flight s = sum_list (map connected ws) \<and> list_all (\<lambda>w. length (wk_pending w) \<le> PENDING_ACKS_MAX) ws \<and>
    (list_all (\<lambda>w. wk_phase w = Stopped) ws \<longrightarrow> ct_produced s = ct_sent s + ct_dropped s)"
proof -
  note ledger = ws_run_ledger [OF assms(1) new_workers(3) assms(2)]
  have "map undelivered ws = map (\<lambda>_. 0) ws" if "list_all (\<lambda>w. wk_phase w = Stopped) ws"
    using that by (auto simp: list_all_iff undelivered_def)
  then have "list_all (\<lambda>w. wk_phase w = Stopped) ws \<Longrightarrow> sum_list (map undelivered ws) = 0" by simp
  with ledger new_workers [of "le_prng env" seed interval a ramp_up connections fleet] show ?thesis
    by (auto simp: new_stats_def consistent_def list_all_iff)
qed

text \<open>The slices of the workers: every device of the fleet is in exactly one.\<close>

lemma stripes_cover:
  assumes "0 < k"
  shows "mset (concat (map (\<lambda>i. stripe i k xs) [0..<k])) = mset xs"
proof -
  have own: "(i \<le> j \<and> (j - i) mod k = 0) = (i = j mod k)" if "i < k" for i j
  proof
    assume "i \<le> j \<and> (j - i) mod k = 0"
    then show "i = j mod k" using that by (metis le_add_diff_inverse mod_add_right_eq add.right_neutral mod_less)
  next
    assume "i = j mod k"
    then show "i \<le> j \<and> (j - i) mod k = 0" by (simp add: mod_less_eq_dividend minus_mod_eq_mult_div)
  qed
  have split: "(\<Sum>i\<leftarrow>[0..<k]. filter_mset (\<lambda>j. i = j mod k) M) = M" for M :: "nat multiset"
  proof (induction M)
    case (add j M)
    have "(\<Sum>i\<leftarrow>is. if i = j mod k then {#j#} else {#}) = (if j mod k \<in> set is then {#j#} else {#})" if "distinct is" for "is"
      using that by (induction "is") auto
    from this [of "[0..<k]"] have one: "(\<Sum>i\<leftarrow>[0..<k]. if i = j mod k then {#j#} else {#}) = {#j#}" using assms by simp
    have "(\<Sum>i\<leftarrow>[0..<k]. filter_mset (\<lambda>j. i = j mod k) (add_mset j M)) =
        (\<Sum>i\<leftarrow>[0..<k]. (if i = j mod k then {#j#} else {#}) + filter_mset (\<lambda>j. i = j mod k) M)"
      by (intro arg_cong [of _ _ sum_list] map_cong refl) auto
    then show ?case using one add by (simp add: sum_list_addf)
  qed simp
  have parts: "mset (concat (map (\<lambda>i. stripe i k xs) is)) = image_mset (\<lambda>j. xs ! j) (\<Sum>i\<leftarrow>is. filter_mset (\<lambda>j. i = j mod k) (mset [0..<length xs]))"
    if "set is \<subseteq> {..<k}" for "is"
    using that
  proof (induction "is")
    case (Cons i "is")
    have "mset (stripe i k xs) = image_mset (\<lambda>j. xs ! j) (filter_mset (\<lambda>j. i = j mod k) (mset [0..<length xs]))"
      using Cons.prems own [of i] by (simp add: stripe_def)
    with Cons show ?case by simp
  qed simp
  have "set [0..<k] \<subseteq> {..<k}" by auto
  from parts [OF this] have "mset (concat (map (\<lambda>i. stripe i k xs) [0..<k])) = image_mset (\<lambda>j. xs ! j) (mset [0..<length xs])"
    unfolding split .
  then show ?thesis by (metis map_nth mset_map)
qed

definition demo_env :: "nat load_env" where
  "demo_env = \<lparr>le_math = flat_math, le_prng = counting_prng, le_dumps = (\<lambda>_. ''{}''), le_loads = (\<lambda>_. Inl ''not JSON''), le_isofmt = str_int,
     le_int_of = (\<lambda>_. None), le_date_of = (\<lambda>_. None), le_max_batch = 10, le_batch_size = 2, le_batch_window_s = 0, le_connections = 1,
     le_ramp_up = 0\<rparr>"

definition demo_claimed :: "nat \<Rightarrow> nat devices" where
  "demo_claimed g = devices_start counting_prng 0 0 ((new_devices counting_prng 1 3 demo_area [demo_state] g)\<lparr>dv_driving := True\<rparr>)"

lemma demo_claimed_schedule: "dv_schedule (demo_claimed g) = [(0, 0)]"
  by (simp add: demo_claimed_def devices_start_def new_devices_def arm_def counting_prng_def push_def Let_def fl_def)

lemma demo_claim: "claim counting_prng 0 0 (new_devices counting_prng 1 3 demo_area [demo_state] g) = Inr (demo_claimed g)"
  by (simp add: claim_def demo_claimed_def) (simp add: new_devices_def)

lemma demo_tick: "\<exists>r d. ws_tick flat_math counting_prng 10 5 0 (demo_claimed g) = (Reports [r], d)"
proof -
  obtain rs d where s: "step_all flat_math counting_prng 5 [0] (demo_claimed g\<lparr>dv_schedule := []\<rparr>) = (rs, d)" by fastforce
  then obtain r where "rs = [r]" using same_fleet_step_all [OF s] by (auto simp: length_Suc_conv)
  moreover have "fl (- 10) = - 10" using fl_of_int [of "- 10"] by simp
  ultimately show ?thesis using s by (simp add: ws_tick_def demo_claimed_schedule Let_def)
qed

theorem websocket_run_balances_witness:
  "\<exists>ws s. ws_run demo_env [(0, Begins 0), (0, Connects), (0, Wakes 10 5 10), (0, WorkerCancelled)]
      (ws_start counting_prng 1 3 demo_area 0 1 [demo_state]) (new_stats 0 0) = Some (ws, s) \<and>
     ct_produced s = 1 \<and> ct_produced s = ct_sent s + ct_dropped s"
proof -
  obtain ws s where run: "ws_run demo_env [(0, Begins 0), (0, Connects), (0, Wakes 10 5 10), (0, WorkerCancelled)]
      (ws_start counting_prng 1 3 demo_area 0 1 [demo_state]) (new_stats 0 0) = Some (ws, s)"
      and facts: "ct_produced s = 1" "list_all (\<lambda>w. wk_phase w = Stopped) ws"
    using demo_tick [of "pr_seed counting_prng (str_int 1 @ '':ws:'' @ str_int 0)"] demo_claim [of "pr_seed counting_prng (str_int 1 @ '':ws:'' @ str_int 0)"]
    by (auto simp: ws_start_def stripe_def new_worker_def worker_turn_def demo_env_def session_opened_def worker_wakes_def chunked.simps
        send_next_def Let_def new_stats_def)
  have env: "le_prng demo_env = counting_prng" "0 < le_max_batch demo_env" by (simp_all add: demo_env_def)
  with websocket_run_balances [of demo_env, unfolded env(1), OF env(2) run] run facts show ?thesis by blast
qed

end
