(* ===== verification/LoadHttp.thy ===== *)
theory LoadHttp
  imports LoadRun
begin

text \<open>
  The HTTP transport of the load generator: the producer with its batcher, the bounded queue that sheds its oldest batch,
  and the senders with their retries. As in the websocket transport, tasks are cut at their \<^verbatim>\<open>await\<close> points.
\<close>

subsection \<open>Senders\<close>

datatype answer = Unreachable | Answer int "string option" bytes

definition accepted_count :: "loads \<Rightarrow> bytes \<Rightarrow> int \<Rightarrow> int" where
  "accepted_count loads body fallback =
     (case loads body of
        Inr (JObj kvs) \<Rightarrow> (case int_value (map_of kvs ''accepted'') of Some n \<Rightarrow> n | None \<Rightarrow> fallback)
      | _ \<Rightarrow> fallback)"

text \<open>
  Where a sender waits: for a batch, for the answer to an attempt (the batch, the attempts that are left, the next delay,
  when the attempt began), in the pause after an attempt, or for the supervisor to restart it.
\<close>

datatype sender_phase =
    Waiting
  | Requesting "fleet_report list" nat rat rat
  | Pausing "fleet_report list" nat rat rat
  | Down rat

record sender =
  sd_phase :: sender_phase
  sd_restart :: rat

definition new_sender :: sender where
  "new_sender = \<lparr>sd_phase = Waiting, sd_restart = RECONNECT_BASE_S\<rparr>"

text \<open>The start of an attempt, and \<^verbatim>\<open>_post\<close> from the answer of an attempt to its next \<^verbatim>\<open>await\<close> or its return.\<close>

definition attempt :: "rat \<Rightarrow> fleet_report list \<Rightarrow> nat \<Rightarrow> rat \<Rightarrow> sender \<Rightarrow> 'g stats \<Rightarrow> sender \<times> 'g stats" where
  "attempt now batch left delay d s =
     (case left of
        0 \<Rightarrow> (d\<lparr>sd_phase := Waiting\<rparr>, s\<lparr>ct_dropped := ct_dropped s + length batch\<rparr>)
      | Suc others \<Rightarrow> (d\<lparr>sd_phase := Requesting batch others delay now\<rparr>, s\<lparr>ct_in_flight := ct_in_flight s + 1\<rparr>))"

definition answered :: "'g load_env \<Rightarrow> rat \<Rightarrow> micros \<Rightarrow> answer \<Rightarrow> fleet_report list \<Rightarrow> nat \<Rightarrow> rat \<Rightarrow> rat \<Rightarrow> sender \<Rightarrow> 'g stats \<Rightarrow> sender \<times> 'g stats" where
  "answered env now utc ans batch left delay started d s =
     (let s = s\<lparr>ct_in_flight := ct_in_flight s - 1\<rparr> in
      case ans of
        Unreachable \<Rightarrow> (d\<lparr>sd_phase := Pausing batch left (backoff delay) delay\<rparr>, s\<lparr>ct_failures := ct_failures s + 1\<rparr>)
      | Answer status retry body \<Rightarrow>
          if status < 300 then
            (d\<lparr>sd_phase := Waiting\<rparr>,
             s\<lparr>ct_latency := reservoir_add (le_prng env) (fl (fl (now - started) * 1000)) (ct_latency s), ct_sent := ct_sent s + length batch,
               ct_accepted := ct_accepted s + accepted_count (le_loads env) body (int (length batch))\<rparr>)
          else if status = 429 \<or> status = 503 then
            (case parse_retry_after (le_int_of env) (le_date_of env) utc retry of
               Inl err \<Rightarrow> (d\<lparr>sd_phase := Down (sd_restart d), sd_restart := backoff (sd_restart d)\<rparr>,
                           s\<lparr>ct_throttles := ct_throttles s + 1, ct_failures := ct_failures s + 1\<rparr>)
             | Inr after \<Rightarrow> (d\<lparr>sd_phase := Pausing batch left (backoff delay) (retry_pause after delay)\<rparr>, s\<lparr>ct_throttles := ct_throttles s + 1\<rparr>))
          else (d\<lparr>sd_phase := Waiting\<rparr>, s\<lparr>ct_sent := ct_sent s + length batch, ct_rejected := ct_rejected s + length batch\<rparr>))"

subsection \<open>The queue\<close>

definition offer :: "nat \<Rightarrow> fleet_report list \<Rightarrow> fleet_report list list \<times> 'g stats \<Rightarrow> fleet_report list list \<times> 'g stats" where
  "offer maxsize batch qs =
     (case qs of (q, s) \<Rightarrow>
        (let (q1, s1) =
               (if 0 < maxsize \<and> maxsize \<le> length q then
                  (tl q @ [batch], s\<lparr>ct_dropped := ct_dropped s + length (hd q)\<rparr>)
                else (q @ [batch], s))
         in (q1, s1\<lparr>ct_queued := length q1\<rparr>)))"

subsection \<open>The runner\<close>

record 'g http_runner =
  hr_devices :: "'g devices"
  hr_batcher :: "batcher option"
  hr_queue :: "fleet_report list list"
  hr_senders :: "sender list"

definition new_runner :: "'g load_env \<Rightarrow> int \<Rightarrow> rat \<Rightarrow> area \<Rightarrow> device_state list \<Rightarrow> 'g http_runner" where
  "new_runner env seed interval a fleet =
     \<lparr>hr_devices = new_devices (le_prng env) seed interval a fleet (pr_seed (le_prng env) (str_int seed @ '':http'')),
      hr_batcher = None, hr_queue = [], hr_senders = replicate (le_connections env) new_sender\<rparr>"

definition queue_size :: "'g load_env \<Rightarrow> nat" where
  "queue_size env = le_connections env * QUEUE_DEPTH_FACTOR"

definition producer_begins :: "'g load_env \<Rightarrow> rat \<Rightarrow> 'g http_runner \<Rightarrow> 'g http_runner option" where
  "producer_begins env now r =
     (case claim (le_prng env) now (le_ramp_up env) (hr_devices r) of
        Inl err \<Rightarrow> None
      | Inr d \<Rightarrow> Some (r\<lparr>hr_devices := d, hr_batcher := Some (new_batcher (le_batch_size env) (le_batch_window_s env))\<rparr>))"

text \<open>A turn of \<^verbatim>\<open>_produce\<close>. The inner loop has one turn of fuel per waiting report.\<close>

definition producer_wakes :: "'g load_env \<Rightarrow> rat \<Rightarrow> micros \<Rightarrow> 'g http_runner \<Rightarrow> 'g stats \<Rightarrow> ('g http_runner \<times> 'g stats) option" where
  "producer_wakes env now moment r s =
     (case hr_batcher r of
        None \<Rightarrow> None
      | Some b \<Rightarrow>
          (case http_tick (le_math env) (le_prng env) now moment b (hr_devices r) of
             (n, b1, d) \<Rightarrow>
               (case take_ready (length (ba_reports b1)) now b1 of
                  None \<Rightarrow> None
                | Some (batches, b2) \<Rightarrow>
                    (case fold (offer (queue_size env)) batches (hr_queue r, s\<lparr>ct_produced := ct_produced s + n\<rparr>) of
                       (q, s1) \<Rightarrow> Some (r\<lparr>hr_devices := d, hr_batcher := Some b2, hr_queue := q\<rparr>, s1)))))"

text \<open>\<^verbatim>\<open>_sleep_for\<close>\<close>

definition sleep_for :: "rat \<Rightarrow> batcher \<Rightarrow> 'g devices \<Rightarrow> rat" where
  "sleep_for now b d =
     (let delay = next_delay now (dv_schedule d)
      in case remaining now b of None \<Rightarrow> delay | Some p \<Rightarrow> min delay p)"

datatype http_event =
    ProducerBegins rat
  | ProducerWakes rat micros
  | Takes nat rat
  | Answered nat rat micros answer
  | Resumes nat rat
  | Restarts nat

definition http_turn :: "'g load_env \<Rightarrow> http_event \<Rightarrow> 'g http_runner \<Rightarrow> 'g stats \<Rightarrow> ('g http_runner \<times> 'g stats) option" where
  "http_turn env e r s =
     (case e of
        ProducerBegins now \<Rightarrow> (if hr_batcher r = None then map_option (\<lambda>r1. (r1, s)) (producer_begins env now r) else None)
      | ProducerWakes now moment \<Rightarrow> producer_wakes env now moment r s
      | Takes i now \<Rightarrow>
          (if i < length (hr_senders r) \<and> sd_phase (hr_senders r ! i) = Waiting then
             (case hr_queue r of
                [] \<Rightarrow> None
              | batch # q \<Rightarrow>
                  (case attempt now batch HTTP_ATTEMPTS RECONNECT_BASE_S (hr_senders r ! i) (s\<lparr>ct_queued := length q\<rparr>) of
                     (d, s1) \<Rightarrow> Some (r\<lparr>hr_queue := q, hr_senders := (hr_senders r)[i := d]\<rparr>, s1)))
           else None)
      | Answered i now utc ans \<Rightarrow>
          (if i < length (hr_senders r) then
             (case sd_phase (hr_senders r ! i) of
                Requesting batch left delay started \<Rightarrow>
                  (case answered env now utc ans batch left delay started (hr_senders r ! i) s of
                     (d, s1) \<Rightarrow> Some (r\<lparr>hr_senders := (hr_senders r)[i := d]\<rparr>, s1))
              | _ \<Rightarrow> None)
           else None)
      | Resumes i now \<Rightarrow>
          (if i < length (hr_senders r) then
             (case sd_phase (hr_senders r ! i) of
                Pausing batch left delay pause \<Rightarrow>
                  (case attempt now batch left delay (hr_senders r ! i) s of
                     (d, s1) \<Rightarrow> Some (r\<lparr>hr_senders := (hr_senders r)[i := d]\<rparr>, s1))
              | _ \<Rightarrow> None)
           else None)
      | Restarts i \<Rightarrow>
          (if i < length (hr_senders r) then
             (case sd_phase (hr_senders r ! i) of
                Down pause \<Rightarrow> Some (r\<lparr>hr_senders := (hr_senders r)[i := (hr_senders r ! i)\<lparr>sd_phase := Waiting\<rparr>]\<rparr>, s)
              | _ \<Rightarrow> None)
           else None))"

fun http_run :: "'g load_env \<Rightarrow> http_event list \<Rightarrow> 'g http_runner \<Rightarrow> 'g stats \<Rightarrow> ('g http_runner \<times> 'g stats) option" where
  "http_run env [] r s = Some (r, s)"
| "http_run env (e # es) r s =
     (case http_turn env e r s of None \<Rightarrow> None | Some (r1, s1) \<Rightarrow> http_run env es r1 s1)"

subsection \<open>The ledger of an HTTP run\<close>

text \<open>The reports a part of the runner holds.\<close>

definition in_hand :: "sender \<Rightarrow> nat" where
  "in_hand d = (case sd_phase d of Requesting b n x y \<Rightarrow> length b | Pausing b n x y \<Rightarrow> length b | _ \<Rightarrow> 0)"

definition asking :: "sender \<Rightarrow> int" where
  "asking d = (case sd_phase d of Requesting b n x y \<Rightarrow> 1 | _ \<Rightarrow> 0)"

definition waiting_reports :: "'g http_runner \<Rightarrow> nat" where
  "waiting_reports r = (case hr_batcher r of None \<Rightarrow> 0 | Some b \<Rightarrow> length (ba_reports b))"

definition custody :: "'g http_runner \<Rightarrow> nat" where
  "custody r = waiting_reports r + length (concat (hr_queue r)) + sum_list (map in_hand (hr_senders r))"

text \<open>An answer that the sender can read: its \<^verbatim>\<open>Retry-After\<close> is not beyond the range of a float.\<close>

definition readable :: "'g load_env \<Rightarrow> http_event \<Rightarrow> bool" where
  "readable env e \<longleftrightarrow>
     (case e of Answered i now utc (Answer status retry body) \<Rightarrow> \<not> isl (parse_retry_after (le_int_of env) (le_date_of env) utc retry) | _ \<Rightarrow> True)"

text \<open>The runner between two events.\<close>

definition runner_ok :: "'g load_env \<Rightarrow> 'g http_runner \<Rightarrow> bool" where
  "runner_ok env r \<longleftrightarrow> in_order (hr_devices r) \<and> length (hr_senders r) = le_connections env \<and>
     length (hr_queue r) \<le> queue_size env \<and> list_all (\<lambda>b. b \<noteq> [] \<and> length b \<le> le_batch_size env) (hr_queue r) \<and>
     (case hr_batcher r of None \<Rightarrow> \<not> dv_driving (hr_devices r) | Some b \<Rightarrow> ba_size b = le_batch_size env \<and> length (ba_reports b) < le_batch_size env)"

lemma offer_fold:
  assumes "fold (offer m) batches (q, s) = (q1, s1)" "0 < m" "length q \<le> m" "list_all P q" "list_all P batches"
  shows "length q1 \<le> m \<and> list_all P q1 \<and> ct_dropped s1 + length (concat q1) = ct_dropped s + length (concat q) + length (concat batches) \<and>
    ct_produced s1 = ct_produced s \<and> ct_sent s1 = ct_sent s \<and> ct_in_flight s1 = ct_in_flight s"
  using assms
proof (induction batches arbitrary: q s)
  case (Cons b bs)
  obtain q2 s2 where o: "offer m b (q, s) = (q2, s2)" by fastforce
  have "length q2 \<le> m \<and> list_all P q2 \<and> ct_dropped s2 + length (concat q2) = ct_dropped s + length (concat q) + length b \<and>
      ct_produced s2 = ct_produced s \<and> ct_sent s2 = ct_sent s \<and> ct_in_flight s2 = ct_in_flight s"
    using o Cons.prems(2-) by (cases q) (auto simp: offer_def Let_def split: if_splits)
  with Cons.IH [of q2 s2] Cons.prems o show ?case by auto
qed simp

text \<open>The events, as the ledger sees them.\<close>

definition http_booked :: "'g http_runner \<Rightarrow> 'g stats \<Rightarrow> 'g http_runner \<Rightarrow> 'g stats \<Rightarrow> bool" where
  "http_booked r s r1 s1 \<longleftrightarrow>
     ct_produced s1 + ct_sent s + ct_dropped s + custody r = ct_produced s + ct_sent s1 + ct_dropped s1 + custody r1 \<and>
     ct_in_flight s1 + sum_list (map asking (hr_senders r)) = ct_in_flight s + sum_list (map asking (hr_senders r1))"

text \<open>An event of one sender that hands over some of what it holds.\<close>

lemma sender_booked:
  assumes "i < length (hr_senders r)" "hr_batcher r1 = hr_batcher r" "hr_senders r1 = (hr_senders r)[i := d]"
    "ct_produced s1 + ct_sent s + ct_dropped s + (length (concat (hr_queue r)) + in_hand (hr_senders r ! i)) =
       ct_produced s + ct_sent s1 + ct_dropped s1 + (length (concat (hr_queue r1)) + in_hand d)"
    "ct_in_flight s1 + asking (hr_senders r ! i) = ct_in_flight s + asking d"
  shows "http_booked r s r1 s1"
  using assms sum_list_swap [OF assms(1), of in_hand d] sum_list_swap [OF assms(1), of asking d]
  by (simp add: http_booked_def custody_def waiting_reports_def)

lemma attempt_booked:
  "attempt now batch left delay d s = (d1, s1) \<Longrightarrow>
     ct_produced s1 = ct_produced s \<and> ct_sent s1 = ct_sent s \<and> ct_dropped s1 + in_hand d1 = ct_dropped s + length batch \<and>
     ct_in_flight s1 = ct_in_flight s + asking d1"
  by (auto simp: attempt_def in_hand_def asking_def split: nat.splits)

lemma answered_booked:
  "answered env now utc ans batch left delay started d s = (d1, s1) \<Longrightarrow> readable env (Answered i now utc ans) \<Longrightarrow>
     ct_produced s1 = ct_produced s \<and> ct_dropped s1 = ct_dropped s \<and> ct_sent s1 + in_hand d1 = ct_sent s + length batch \<and>
     ct_in_flight s1 + 1 = ct_in_flight s \<and> asking d1 = 0"
  by (cases ans) (auto simp: answered_def readable_def in_hand_def asking_def Let_def split: if_splits sum.splits)

text \<open>A turn of the producer always completes.\<close>

lemma producer_wakes_total:
  assumes "runner_ok env r" "hr_batcher r = Some b" "0 < le_batch_size env" "0 < le_connections env"
  shows "\<exists>r1 s1. producer_wakes env now moment r s = Some (r1, s1) \<and> runner_ok env r1 \<and> http_booked r s r1 s1"
proof -
  have ord: "in_order (hr_devices r)" and b: "ba_size b = le_batch_size env" using assms(1, 2) by (simp_all add: runner_ok_def)
  obtain due rest where pop: "pop_due now (dv_schedule (hr_devices r)) = (due, rest)" by fastforce
  obtain rs d where turn: "report_turn (le_math env) (le_prng env) now moment due ((hr_devices r)\<lparr>dv_schedule := rest\<rparr>) = (rs, d)" by fastforce
  obtain b1 where tick: "http_tick (le_math env) (le_prng env) now moment b (hr_devices r) = (length due, b1, d)"
      and b1: "ba_reports b1 = ba_reports b @ rs" "length rs = length due"
    using http_tick_reports [OF ord pop turn] by blast
  have "ba_size (fst (produce_all mt pr now moment is b0 d0)) = ba_size b0" for mt and pr :: "'a prng" and "is" b0 d0
    by (induction "is" arbitrary: b0 d0) (auto simp: batcher_add_def split: prod.splits)
  then have size1: "ba_size b1 = le_batch_size env" using tick b by (auto simp: http_tick_def split: prod.splits) (metis fst_conv)
  obtain batches b2 where ready: "take_ready (length (ba_reports b1)) now b1 = Some (batches, b2)"
      and parts: "concat batches @ ba_reports b2 = ba_reports b1" "list_all (\<lambda>x. x \<noteq> [] \<and> length x \<le> le_batch_size env) batches" "\<not> batch_ready now b2"
    using take_ready_total [of b1 "length (ba_reports b1)" now] assms(3) size1 by auto
  have size2: "ba_size b2 = le_batch_size env" using take_ready_size [OF ready] size1 by simp
  have small: "length (ba_reports b2) < le_batch_size env"
    using parts(3) assms(3) by (auto simp: batch_ready_def remaining_def size2 split: if_splits)
  obtain q s1 where off: "fold (offer (queue_size env)) batches (hr_queue r, s\<lparr>ct_produced := ct_produced s + length due\<rparr>) = (q, s1)" by fastforce
  have room: "0 < queue_size env" using assms(4) by (simp add: queue_size_def QUEUE_DEPTH_FACTOR_def)
  note q = offer_fold [OF off room _ _ parts(2)]
  have len: "length (concat batches) + length (ba_reports b2) = length (ba_reports b) + length due"
    using arg_cong [OF parts(1), of length] b1 by simp
  have "in_order d" using turn_taken_report [OF ord pop turn] by (simp add: turn_taken_def)
  then have "runner_ok env (r\<lparr>hr_devices := d, hr_batcher := Some b2, hr_queue := q\<rparr>)"
    using q assms(1) size2 small by (simp add: runner_ok_def)
  moreover have "http_booked r s (r\<lparr>hr_devices := d, hr_batcher := Some b2, hr_queue := q\<rparr>) s1"
    using q assms(1, 2) len by (simp add: http_booked_def custody_def waiting_reports_def runner_ok_def)
  ultimately show ?thesis using tick ready off assms(2) by (simp add: producer_wakes_def)
qed

lemma runner_ok_senders: "runner_ok env r \<Longrightarrow> runner_ok env (r\<lparr>hr_senders := (hr_senders r)[i := d]\<rparr>)"
  by (simp add: runner_ok_def split: option.splits)

lemma runner_ok_pops: "runner_ok env r \<Longrightarrow> hr_queue r = b # q \<Longrightarrow> runner_ok env (r\<lparr>hr_queue := q, hr_senders := (hr_senders r)[i := d]\<rparr>)"
  by (simp add: runner_ok_def split: option.splits)

lemma producer_begins_ok:
  assumes "runner_ok env r" "hr_batcher r = None" "0 < le_batch_size env" "producer_begins env now r = Some r1"
  shows "runner_ok env r1 \<and> http_booked r s r1 s"
proof -
  obtain d where d: "claim (le_prng env) now (le_ramp_up env) (hr_devices r) = Inr d"
      and r1: "r1 = r\<lparr>hr_devices := d, hr_batcher := Some (new_batcher (le_batch_size env) (le_batch_window_s env))\<rparr>"
    using assms(4) by (auto simp: producer_begins_def split: sum.splits)
  have "aligned ((hr_devices r)\<lparr>dv_driving := True\<rparr>)" using assms(1) by (simp add: runner_ok_def in_order_def aligned_def)
  with d have "in_order d" by (auto simp: claim_def start_in_order split: if_splits)
  with assms show ?thesis by (simp add: runner_ok_def r1 new_batcher_def http_booked_def custody_def waiting_reports_def)
qed

lemma http_turn_ok:
  assumes "runner_ok env r" "0 < le_batch_size env" "0 < le_connections env" "readable env e" "http_turn env e r s = Some (r1, s1)"
  shows "runner_ok env r1 \<and> http_booked r s r1 s1"
proof (cases e)
  case (ProducerBegins now)
  then show ?thesis using assms producer_begins_ok by (fastforce simp: http_turn_def split: if_splits)
next
  case (ProducerWakes now moment)
  then obtain b where "hr_batcher r = Some b" using assms(5) by (auto simp: http_turn_def producer_wakes_def split: option.splits)
  from producer_wakes_total [OF assms(1) this assms(2, 3), of now moment s] ProducerWakes assms(5) show ?thesis by (auto simp: http_turn_def)
next
  case (Takes i now)
  then obtain batch q d where i: "i < length (hr_senders r)" "sd_phase (hr_senders r ! i) = Waiting" "hr_queue r = batch # q"
      and d: "attempt now batch HTTP_ATTEMPTS RECONNECT_BASE_S (hr_senders r ! i) (s\<lparr>ct_queued := length q\<rparr>) = (d, s1)"
      and r1: "r1 = r\<lparr>hr_queue := q, hr_senders := (hr_senders r)[i := d]\<rparr>"
    using assms(5) by (auto simp: http_turn_def split: if_splits list.splits prod.splits)
  have "http_booked r s r1 s1"
    by (rule sender_booked [of i _ _ d]) (use i attempt_booked [OF d] in \<open>simp_all add: r1, simp_all add: in_hand_def asking_def\<close>)
  with runner_ok_pops [OF assms(1) i(3)] r1 show ?thesis by simp
next
  case (Answered i now utc ans)
  then obtain batch left delay started d where i: "i < length (hr_senders r)" "sd_phase (hr_senders r ! i) = Requesting batch left delay started"
      and d: "answered env now utc ans batch left delay started (hr_senders r ! i) s = (d, s1)" and r1: "r1 = r\<lparr>hr_senders := (hr_senders r)[i := d]\<rparr>"
    using assms(5) by (auto simp: http_turn_def split: if_splits sender_phase.splits prod.splits)
  have "http_booked r s r1 s1"
    by (rule sender_booked [of i _ _ d]) (use i answered_booked [OF d] assms(4) Answered in \<open>simp_all add: r1, simp_all add: in_hand_def asking_def\<close>)
  with runner_ok_senders [OF assms(1)] r1 show ?thesis by simp
next
  case (Resumes i now)
  then obtain batch left delay pause d where i: "i < length (hr_senders r)" "sd_phase (hr_senders r ! i) = Pausing batch left delay pause"
      and d: "attempt now batch left delay (hr_senders r ! i) s = (d, s1)" and r1: "r1 = r\<lparr>hr_senders := (hr_senders r)[i := d]\<rparr>"
    using assms(5) by (auto simp: http_turn_def split: if_splits sender_phase.splits prod.splits)
  have "http_booked r s r1 s1"
    by (rule sender_booked [of i _ _ d]) (use i attempt_booked [OF d] in \<open>simp_all add: r1, simp_all add: in_hand_def asking_def\<close>)
  with runner_ok_senders [OF assms(1)] r1 show ?thesis by simp
next
  case (Restarts i)
  then obtain pause d where i: "i < length (hr_senders r)" "sd_phase (hr_senders r ! i) = Down pause"
      and d: "d = (hr_senders r ! i)\<lparr>sd_phase := Waiting\<rparr>" and r1: "r1 = r\<lparr>hr_senders := (hr_senders r)[i := d]\<rparr>" "s1 = s"
    using assms(5) by (auto simp: http_turn_def split: if_splits sender_phase.splits prod.splits)
  have "http_booked r s r1 s1"
    by (rule sender_booked [of i _ _ d]) (use i d r1 in \<open>simp_all add: in_hand_def asking_def\<close>)
  with runner_ok_senders [OF assms(1)] r1 show ?thesis by simp
qed

lemma http_run_ok:
  assumes "0 < le_batch_size env" "0 < le_connections env" "runner_ok env r" "list_all (readable env) es" "http_run env es r s = Some (r1, s1)"
    "ct_produced s = ct_sent s + ct_dropped s + custody r" "ct_in_flight s = sum_list (map asking (hr_senders r))"
  shows "runner_ok env r1 \<and> ct_produced s1 = ct_sent s1 + ct_dropped s1 + custody r1 \<and> ct_in_flight s1 = sum_list (map asking (hr_senders r1))"
  using assms(3-)
proof (induction es arbitrary: r s)
  case (Cons e es)
  then obtain r2 s2 where ev: "http_turn env e r s = Some (r2, s2)" and run: "http_run env es r2 s2 = Some (r1, s1)" by (auto split: option.splits)
  have "runner_ok env r2" "http_booked r s r2 s2"
    using http_turn_ok [OF Cons.prems(1) assms(1, 2) _ ev] Cons.prems(2) by simp_all
  with Cons.IH [OF _ _ run] Cons.prems show ?case by (simp add: http_booked_def)
qed simp

lemma new_runner_ok:
  "runner_ok env (new_runner env seed interval a fleet)" "custody (new_runner env seed interval a fleet) = 0"
  "sum_list (map asking (hr_senders (new_runner env seed interval a fleet))) = 0"
  using new_devices_in_order [of "le_prng env" seed interval a fleet]
  by (simp_all add: runner_ok_def new_runner_def custody_def waiting_reports_def new_sender_def in_hand_def asking_def sum_list_replicate)
    (simp add: new_devices_def)

text \<open>The counters of an HTTP run account for every report at every moment: a produced report has been sent, or
  dropped, or is held by the batcher, the queue or a sender, whatever the server answered and however often an
  attempt was repeated. The memory that a slow server can cost is bounded: the queue never exceeds its depth, no batch
  exceeds the size of a request, and the batcher holds less than one request. The gauge is the number of requests under way.\<close>

theorem http_run_balances:
  assumes "0 < le_batch_size env" "0 < le_connections env" "list_all (readable env) es"
    "http_run env es (new_runner env seed interval a fleet) (new_stats g started_at) = Some (r, s)"
  shows "ct_produced s = ct_sent s + ct_dropped s + custody r \<and> ct_in_flight s = sum_list (map asking (hr_senders r)) \<and>
    length (hr_queue r) \<le> le_connections env * QUEUE_DEPTH_FACTOR \<and> list_all (\<lambda>b. length b \<le> le_batch_size env) (hr_queue r) \<and>
    waiting_reports r < le_batch_size env"
proof -
  have "runner_ok env r \<and> ct_produced s = ct_sent s + ct_dropped s + custody r \<and> ct_in_flight s = sum_list (map asking (hr_senders r))"
    by (rule http_run_ok [OF assms(1, 2) new_runner_ok(1) assms(3, 4)]) (simp_all add: new_runner_ok new_stats_def)
  with assms(1) show ?thesis by (auto simp: runner_ok_def queue_size_def waiting_reports_def list_all_iff split: option.splits)
qed

lemma demo_http_tick:
  "\<exists>r d. http_tick flat_math counting_prng 10 5 (new_batcher 2 0) (demo_claimed g) = (1, (new_batcher 2 0)\<lparr>ba_oldest_at := 10, ba_reports := [r]\<rparr>, d)"
  by (auto simp: http_tick_def demo_claimed_schedule batcher_add_def new_batcher_def split: prod.splits)

lemma demo_http_run:
  "\<exists>r s d. http_run demo_env [ProducerBegins 0, ProducerWakes 10 5] (new_runner demo_env 1 3 demo_area [demo_state]) (new_stats 0 0) =
     Some (\<lparr>hr_devices = d, hr_batcher = Some ((new_batcher 2 0)\<lparr>ba_oldest_at := 10\<rparr>), hr_queue = [[r]], hr_senders = [new_sender]\<rparr>, s) \<and>
     ct_produced s = 1 \<and> ct_sent s = 0 \<and> ct_dropped s = 0 \<and> ct_in_flight s = 0"
proof -
  define g where "g = pr_seed counting_prng (str_int 1 @ '':http'')"
  obtain r d where tick: "http_tick flat_math counting_prng 10 5 (new_batcher 2 0) (demo_claimed g) =
      (1, (new_batcher 2 0)\<lparr>ba_oldest_at := 10, ba_reports := [r]\<rparr>, d)" using demo_http_tick by blast
  have ten: "fl 10 = 10" "fl 0 = 0" using fl_of_int [of 10] by (simp_all add: fl_def)
  have claims: "http_turn demo_env (ProducerBegins 0) (new_runner demo_env 1 3 demo_area [demo_state]) (new_stats 0 0) =
      Some (\<lparr>hr_devices = demo_claimed g, hr_batcher = Some (new_batcher 2 0), hr_queue = [], hr_senders = [new_sender]\<rparr>, new_stats 0 0)"
    using demo_claim [of g] by (simp add: http_turn_def producer_begins_def new_runner_def demo_env_def g_def)
  have "http_turn demo_env (ProducerWakes 10 5) \<lparr>hr_devices = demo_claimed g, hr_batcher = Some (new_batcher 2 0), hr_queue = [], hr_senders = [new_sender]\<rparr> (new_stats 0 0) =
      Some (\<lparr>hr_devices = d, hr_batcher = Some ((new_batcher 2 0)\<lparr>ba_oldest_at := 10\<rparr>), hr_queue = [[r]], hr_senders = [new_sender]\<rparr>,
        (new_stats 0 0)\<lparr>ct_produced := 1, ct_queued := 1\<rparr>)"
    using tick by (simp add: http_turn_def producer_wakes_def demo_env_def new_batcher_def batch_ready_def remaining_def ten batcher_take_def
        offer_def queue_size_def QUEUE_DEPTH_FACTOR_def Let_def new_stats_def)
  with claims show ?thesis by (auto simp: new_stats_def)
qed

theorem http_run_balances_witness:
  "\<exists>r s. http_run demo_env [ProducerBegins 0, ProducerWakes 10 5] (new_runner demo_env 1 3 demo_area [demo_state]) (new_stats 0 0) = Some (r, s) \<and>
     ct_produced s = 1 \<and> ct_produced s = ct_sent s + ct_dropped s + custody r"
proof -
  obtain r s where run: "http_run demo_env [ProducerBegins 0, ProducerWakes 10 5] (new_runner demo_env 1 3 demo_area [demo_state]) (new_stats 0 0) = Some (r, s)"
      "ct_produced s = 1" using demo_http_run by blast
  have "0 < le_batch_size demo_env" "0 < le_connections demo_env" "list_all (readable demo_env) [ProducerBegins 0, ProducerWakes 10 5]"
    by (simp_all add: demo_env_def readable_def)
  from http_run_balances [OF this run(1)] run show ?thesis by blast
qed

text \<open>
  An HTTP run that is stopped leaves what it holds in no counter: the sentence under the summary, that every produced
  report is either sent or dropped, is not true of it.
\<close>

lemma stopped_http_run_leaves_reports:
  "\<exists>es r s. http_run demo_env es (new_runner demo_env 1 3 demo_area [demo_state]) (new_stats 0 0) = Some (r, s) \<and>
     ct_produced s \<noteq> ct_sent s + ct_dropped s"
proof -
  obtain r s where "http_run demo_env [ProducerBegins 0, ProducerWakes 10 5] (new_runner demo_env 1 3 demo_area [demo_state]) (new_stats 0 0) = Some (r, s)"
      "ct_produced s \<noteq> ct_sent s + ct_dropped s" using demo_http_run by fastforce
  then show ?thesis by blast
qed

end
