(* ===== verification/LoadMain.thy ===== *)
theory LoadMain
  imports LoadHttp
begin

text \<open>
  The top of \<^verbatim>\<open>generator.py\<close>: the progress line and the summary (\<^verbatim>\<open>format_stats\<close>, \<^verbatim>\<open>format_summary\<close>), \<^verbatim>\<open>run\<close> and \<^verbatim>\<open>main\<close> with its exit
  codes. A run is the sequence of its events, as in the theories of the two transports. A configuration whose interval, ramp-up
  or radius is not finite is outside the model of \<^verbatim>\<open>run\<close>. The line that announces a run is left out: it is output.
\<close>

subsection \<open>Number formats\<close>

text \<open>\<^verbatim>\<open>f"{x:.<d>f}"\<close>: the exact value is rounded, ties to even, and the sign is that of the value.\<close>

definition fixed :: "nat \<Rightarrow> rat \<Rightarrow> string" where
  "fixed d x =
     (let q = nat (half_even (\<bar>x\<bar> * 10 ^ d)); frac = digits (q mod 10 ^ d)
      in (if x < 0 then ''-'' else []) @ digits (q div 10 ^ d) @
         (if d = 0 then [] else ''.'' @ replicate (d - length frac) (CHR ''0'') @ frac))"

definition right :: "nat \<Rightarrow> string \<Rightarrow> string" where
  "right width s = replicate (width - length s) (CHR '' '') @ s"

definition left :: "nat \<Rightarrow> string \<Rightarrow> string" where
  "left width s = s @ replicate (width - length s) (CHR '' '')"

definition format_ms :: "rat option \<Rightarrow> string" where
  "format_ms value = (case value of None \<Rightarrow> ''-'' | Some v \<Rightarrow> fixed 1 v)"

definition natural :: "nat \<Rightarrow> string" where
  "natural n = str_int (int n)"

definition format_stats :: "snapshot \<Rightarrow> config \<Rightarrow> string" where
  "format_stats sn c =
     ''['' @ right 7 (fixed 1 (sn_elapsed_s sn)) @ ''s] '' @ left 22 (live_gauge sn c) @ '' '' @
     ''sent '' @ left 9 (natural (sn_sent sn)) @ '' '' @
     ''('' @ fixed 0 (sn_window_per_s sn) @ ''/s now, '' @ fixed 0 (sn_sent_per_s sn) @ ''/s avg)  '' @
     ''ok '' @ left 9 (str_int (sn_accepted sn)) @ '' '' @ ''made '' @ left 9 (natural (sn_produced sn)) @ '' '' @
     ''rej '' @ left 7 (natural (sn_rejected sn)) @ '' '' @ ''drop '' @ left 7 (natural (sn_dropped sn)) @ '' '' @
     ''fail '' @ left 5 (natural (sn_failures sn)) @ '' '' @ ''reconn '' @ left 5 (natural (sn_reconnects sn)) @ '' '' @
     ''thr '' @ left 5 (natural (sn_throttles sn)) @ '' '' @ ''ack p50 '' @ format_ms (sn_p50 sn) @ '' p95 '' @ format_ms (sn_p95 sn) @
     '' p99 '' @ format_ms (sn_p99 sn) @ '' ms''"

definition transport_name :: "transport \<Rightarrow> string" where
  "transport_name t = (case t of Ws \<Rightarrow> ''ws'' | Http \<Rightarrow> ''http'')"

definition summary_rows :: "snapshot \<Rightarrow> config \<Rightarrow> (string \<times> string) list" where
  "summary_rows sn c =
     [(''transport'', transport_name (cf_transport c)), (''devices'', str_int (cf_devices c)),
      (''connections'', str_int (cf_connections c) @ '' '' @ (if cf_transport c = Ws then ''sockets'' else ''pooled connections'')),
      (''elapsed'', fixed 1 (sn_elapsed_s sn) @ '' s''),
      (''produced'', natural (sn_produced sn) @ '' reports ('' @ fixed 0 (sn_produced_per_s sn) @ ''/s offered)''),
      (''sent'', natural (sn_sent sn) @ '' reports ('' @ fixed 0 (sn_sent_per_s sn) @ ''/s on the wire)''),
      (''accepted'', str_int (sn_accepted sn) @ '' reports''), (''rejected'', natural (sn_rejected sn) @ '' reports''),
      (''dropped'', natural (sn_dropped sn) @ '' reports''), (''failures'', natural (sn_failures sn) @ '' transport failures''),
      (''reconnects'', natural (sn_reconnects sn)), (''throttles'', natural (sn_throttles sn)),
      (''ack latency'', ''p50 '' @ format_ms (sn_p50 sn) @ '' ms  p95 '' @ format_ms (sn_p95 sn) @ '' ms  p99 '' @ format_ms (sn_p99 sn) @
         '' ms  ('' @ natural (sn_samples sn) @ '' accepted responses)'')]"

definition format_summary :: "snapshot \<Rightarrow> config \<Rightarrow> string" where
  "format_summary sn c =
     [CHR 0x0A] @ ''--- load summary ---'' @ concat (map (\<lambda>(name, value). [CHR 0x0A] @ ''  '' @ left 12 name @ '' '' @ value) (summary_rows sn c)) @
     [CHR 0x0A] @ ''  every produced report is either sent or dropped''"

subsection \<open>A run\<close>

text \<open>\<^verbatim>\<open>_run_once\<close>: a task that raises is counted, and the answer tells the supervisor to restart it.\<close>

definition run_task_once :: "bool \<Rightarrow> 'g stats \<Rightarrow> bool \<times> 'g stats" where
  "run_task_once raises s = (if raises then (False, s\<lparr>ct_failures := ct_failures s + 1\<rparr>) else (True, s))"

datatype run_events = WsEvents "(nat \<times> worker_event) list" | HttpEvents "http_event list"

definition configured :: "config \<Rightarrow> rat \<Rightarrow> 'g load_env \<Rightarrow> 'g load_env" where
  "configured c ramp_up env =
     env\<lparr>le_max_batch := nat (cf_max_batch c), le_batch_size := nat (cf_batch_size c), le_batch_window_s := cf_batch_window_s c,
         le_connections := nat (cf_connections c), le_ramp_up := ramp_up\<rparr>"

text \<open>
  The snapshot that the run ends with, and the number of reports that the cancelled tasks were still holding. \<open>g\<close> is the state of
  the generator of the sample.
\<close>

definition run_load :: "'g load_env \<Rightarrow> config \<Rightarrow> 'g \<Rightarrow> rat \<Rightarrow> run_events \<Rightarrow> rat \<Rightarrow> (snapshot \<times> nat) option" where
  "run_load env0 c g started_at events ended_at =
     (case (cf_interval c, cf_ramp_up c, cf_radius_m c) of
        (Fin interval, Fin ramp_up, Fin radius) \<Rightarrow>
          (let env = configured c ramp_up env0;
               a = \<lparr>ar_lat = fst (cf_center c), ar_lon = snd (cf_center c), ar_radius_m = radius\<rparr>;
               fleet = build_fleet (le_math env) (le_prng env) (nat (cf_devices c)) (cf_device_prefix c) a (cf_seed c);
               s = new_stats g started_at
           in case (cf_transport c, events) of
                (Ws, WsEvents es) \<Rightarrow>
                  (case ws_run env es (ws_start (le_prng env) (cf_seed c) interval a ramp_up (le_connections env) fleet) s of
                     None \<Rightarrow> None
                   | Some (ws, s1) \<Rightarrow> Some (fst (take_snapshot ended_at s1), sum_list (map undelivered ws)))
              | (Http, HttpEvents es) \<Rightarrow>
                  (case http_run env es (new_runner env (cf_seed c) interval a fleet) s of
                     None \<Rightarrow> None
                   | Some (r, s1) \<Rightarrow> Some (fst (take_snapshot ended_at s1), custody r))
              | _ \<Rightarrow> None)
      | _ \<Rightarrow> None)"

subsection \<open>The program\<close>

definition number_json :: "rat option \<Rightarrow> json" where
  "number_json v = (case v of None \<Rightarrow> JNull | Some x \<Rightarrow> JFloat (Fin x))"

definition snapshot_json :: "snapshot \<Rightarrow> (string \<times> json) list" where
  "snapshot_json sn =
     [(''elapsed_s'', JFloat (Fin (sn_elapsed_s sn))), (''in_flight'', JInt (sn_in_flight sn)), (''queued'', JInt (int (sn_queued sn))),
      (''produced'', JInt (int (sn_produced sn))), (''sent'', JInt (int (sn_sent sn))), (''accepted'', JInt (sn_accepted sn)),
      (''rejected'', JInt (int (sn_rejected sn))), (''dropped'', JInt (int (sn_dropped sn))), (''failures'', JInt (int (sn_failures sn))),
      (''reconnects'', JInt (int (sn_reconnects sn))), (''throttles'', JInt (int (sn_throttles sn))),
      (''sent_per_s'', JFloat (Fin (sn_sent_per_s sn))), (''produced_per_s'', JFloat (Fin (sn_produced_per_s sn))),
      (''window_per_s'', JFloat (Fin (sn_window_per_s sn))),
      (''latency_ms'', JObj [(''p50'', number_json (sn_p50 sn)), (''p95'', number_json (sn_p95 sn)), (''p99'', number_json (sn_p99 sn)),
         (''samples'', JInt (int (sn_samples sn)))])]"

definition run_report :: "snapshot \<Rightarrow> config \<Rightarrow> json" where
  "run_report sn c =
     JObj (snapshot_json sn @
       [(''config'', JObj [(''url'', JStr (cf_url c)), (''transport'', JStr (transport_name (cf_transport c))), (''devices'', JInt (cf_devices c)),
          (''connections'', JInt (cf_connections c)), (''interval_s'', JFloat (cf_interval c)), (''seed'', JInt (cf_seed c))])])"

text \<open>
  The exit code, the summary on the console and the file that was written. \<open>limits\<close> is what the operating system says about
  descriptors, \<open>summary\<close> how the run ends, \<open>writable\<close> whether the file can be written. A rejected command line ends in the parser,
  with its code 2.
\<close>

definition main :: "config_error + config \<Rightarrow> (int \<Rightarrow> limit_error + int) \<Rightarrow> (config \<Rightarrow> snapshot) \<Rightarrow> bool \<Rightarrow> int \<times> string option \<times> (string \<times> json) option" where
  "main parsed limits summary writable =
     (case parsed of
        Inl e \<Rightarrow> (2, None, None)
      | Inr c \<Rightarrow>
          (case limits (cf_connections c) of
             Inl e \<Rightarrow> (2, None, None)
           | Inr _ \<Rightarrow>
               (let sn = summary c; printed = Some (format_summary sn c) in
                case cf_json_summary c of
                  None \<Rightarrow> (0, printed, None)
                | Some path \<Rightarrow> if writable then (0, printed, Some (path, run_report sn c)) else (1, printed, None))))"

subsection \<open>Properties\<close>

lemma snapshot_counts:
  "sn_produced (fst (take_snapshot now s)) = ct_produced s" "sn_sent (fst (take_snapshot now s)) = ct_sent s"
  "sn_dropped (fst (take_snapshot now s)) = ct_dropped s"
  by (simp_all add: take_snapshot_def Let_def)

text \<open>The summary of a run accounts for every report: with any accepted command line and either transport, whatever
  happened on the network, what the summary calls produced is what it calls sent and dropped, and what the cancelled
  tasks were still holding.\<close>

theorem summary_accounts_for_every_report:
  assumes "parse_config int_of float_of fg environ = Inr c" "run_load env c g started_at events ended_at = Some (sn, held)"
    "case events of WsEvents es \<Rightarrow> True | HttpEvents es \<Rightarrow> list_all (readable env) es"
  shows "sn_produced sn = sn_sent sn + sn_dropped sn + held"
proof -
  have c: "1 \<le> cf_batch_size c" "1 \<le> cf_max_batch c" "1 \<le> cf_connections c"
    using accepted_config_fits_the_server [OF assms(1)] by auto
  obtain interval ramp_up radius where fin: "cf_interval c = Fin interval" "cf_ramp_up c = Fin ramp_up" "cf_radius_m c = Fin radius"
    using assms(2) by (auto simp: run_load_def split: pyfloat.splits)
  define conf where "conf = configured c ramp_up env"
  have pos: "0 < le_max_batch conf" "0 < le_batch_size conf" "0 < le_connections conf" using c by (simp_all add: conf_def configured_def)
  show ?thesis
  proof (cases events)
    case (WsEvents es)
    then obtain ws s a fleet where run: "ws_run conf es (ws_start (le_prng conf) (cf_seed c) interval a ramp_up (le_connections conf) fleet) (new_stats g started_at) = Some (ws, s)"
        and sn: "sn = fst (take_snapshot ended_at s)" "held = sum_list (map undelivered ws)"
      using assms(2) by (auto simp: run_load_def fin conf_def [symmetric] Let_def split: transport.splits option.splits)
    show ?thesis
      using ws_run_ledger [OF pos(1) new_workers(3) run] by (simp add: new_workers new_stats_def sn snapshot_counts)
  next
    case (HttpEvents es)
    have "readable conf = readable env" by (auto simp: fun_eq_iff readable_def conf_def configured_def split: http_event.splits)
    with assms(3) HttpEvents have rd: "list_all (readable conf) es" by simp
    obtain r s a fleet where run: "http_run conf es (new_runner conf (cf_seed c) interval a fleet) (new_stats g started_at) = Some (r, s)"
        and sn: "sn = fst (take_snapshot ended_at s)" "held = custody r"
      using assms(2) HttpEvents by (auto simp: run_load_def fin conf_def [symmetric] Let_def split: transport.splits option.splits)
    show ?thesis
      using http_run_ok [OF pos(2, 3) new_runner_ok(1) rd run] by (simp add: new_runner_ok new_stats_def sn snapshot_counts)
  qed
qed

text \<open>The exit code says whether there is a summary and whether the file asked for is there.\<close>

lemma main_exit_codes:
  assumes "main parsed limits summary writable = (code, printed, file)"
  shows "code \<in> {0, 1, 2}" "printed = None \<longleftrightarrow> code = 2"
    "code = 0 \<Longrightarrow> \<exists>c. parsed = Inr c \<and> map_option fst file = cf_json_summary c"
  using assms by (auto simp: main_def Let_def split: sum.splits option.splits if_splits)

end
