(* ===== verification/Schema.thy ===== *)
theory Schema
  imports Maintenance Accounts
begin

text \<open>
  Migration 0001 (\<^verbatim>\<open>migrations/versions/0001_initial.py\<close>): the column constraints of \<^verbatim>\<open>users\<close> and \<^verbatim>\<open>geozones\<close>, the two partition
  functions in the form of their PL/pgSQL loops, and the validation of a partial update (\<^verbatim>\<open>GeozonePatch\<close>). The theory
  shows that what the API validates is what the schema takes, with the one exception it has: PostgreSQL's \<^verbatim>\<open>text\<close> cannot
  hold the character zero, and the API lets it through in the name of a zone.
\<close>

subsection \<open>Column constraints\<close>

definition text_ok :: "string \<Rightarrow> bool" where
  "text_ok s \<longleftrightarrow> CHR 0x00 \<notin> set s"

definition ck_users_username_format :: "string \<Rightarrow> bool" where
  "ck_users_username_format s \<longleftrightarrow> s = map lower_char s \<and> 3 \<le> length s \<and> length s \<le> 32 \<and>
     list_all (\<lambda>c. let n = of_char c :: nat in 97 \<le> n \<and> n \<le> 122 \<or> 48 \<le> n \<and> n \<le> 57 \<or> c \<in> set ''_.-'') s"

definition ck_geozones_name_length :: "string \<Rightarrow> bool" where
  "ck_geozones_name_length s \<longleftrightarrow> 1 \<le> length s \<and> length s \<le> 80"

definition ck_geozones_color_format :: "string \<Rightarrow> bool" where
  "ck_geozones_color_format s =
     (case s of
        [] \<Rightarrow> False
      | c # cs \<Rightarrow> c = CHR ''#'' \<and> length cs = 6 \<and> list_all (\<lambda>x. let n = of_char x :: nat in 48 \<le> n \<and> n \<le> 57 \<or> 97 \<le> n \<and> n \<le> 102) cs)"

definition ck_geozones_radius_range :: "rat \<Rightarrow> bool" where
  "ck_geozones_radius_range r \<longleftrightarrow> 10 \<le> r \<and> r \<le> 50000"

definition ck_geozones_dwell_range :: "int option \<Rightarrow> bool" where
  "ck_geozones_dwell_range d = (case d of None \<Rightarrow> True | Some n \<Rightarrow> 10 \<le> n \<and> n \<le> 86400)"

definition ck_device_positions_device_id_length :: "string \<Rightarrow> bool" where
  "ck_device_positions_device_id_length s \<longleftrightarrow> 1 \<le> length s \<and> length s \<le> 64"

definition user_row_ok :: "user_row \<Rightarrow> bool" where
  "user_row_ok u \<longleftrightarrow> text_ok (u_username u) \<and> ck_users_username_format (u_username u)"

definition zone_row_ok :: "geozone \<Rightarrow> bool" where
  "zone_row_ok z \<longleftrightarrow> text_ok (z_name z) \<and> text_ok (z_color z) \<and> ck_geozones_name_length (z_name z) \<and> ck_geozones_color_format (z_color z) \<and>
     ck_geozones_radius_range (z_radius_m z) \<and> ck_geozones_dwell_range (z_dwell_alert_interval_s z)"

definition schema_ok :: "db \<Rightarrow> bool" where
  "schema_ok db \<longleftrightarrow> list_all (\<lambda>(u, r). user_row_ok r) (users db) \<and> list_all (\<lambda>(zid, z). zone_row_ok z) (geozones db)"

subsection \<open>The partition functions\<close>

datatype raised_error = RaiseException int int

text \<open>\<^verbatim>\<open>geotrack_ensure_history_partitions\<close>, with its loop over the days.\<close>

function ensure_loop :: "int \<Rightarrow> int \<Rightarrow> int \<Rightarrow> int list \<Rightarrow> int \<times> int list" where
  "ensure_loop partition_day p_to created partitions =
     (if partition_day \<le> p_to then
        (if partition_day \<in> set partitions then ensure_loop (partition_day + 1) p_to created partitions
         else ensure_loop (partition_day + 1) p_to (created + 1) (partitions @ [partition_day]))
      else (created, partitions))"
  by pat_completeness auto
termination by (relation "measure (\<lambda>(day, p_to, created, partitions). nat (p_to + 1 - day))") auto

declare ensure_loop.simps [simp del]

definition geotrack_ensure_history_partitions :: "int \<Rightarrow> int \<Rightarrow> db \<Rightarrow> raised_error + int \<times> db" where
  "geotrack_ensure_history_partitions p_from p_to db =
     (if p_to < p_from then Inl (RaiseException p_from p_to)
      else (case ensure_loop p_from p_to 0 (history_partitions db) of
              (created, partitions) \<Rightarrow> Inr (created, db\<lparr>history_partitions := partitions\<rparr>)))"

text \<open>\<^verbatim>\<open>geotrack_drop_history_partitions\<close>: the query is evaluated first, then one table after the other goes, with its rows.\<close>

definition drop_partition :: "int \<Rightarrow> db \<Rightarrow> db" where
  "drop_partition day db =
     db\<lparr>history_partitions := removeAll day (history_partitions db),
        location_history := filter (\<lambda>e. day_of (snd (fst e)) \<noteq> day) (location_history db)\<rparr>"

definition geotrack_drop_history_partitions :: "int \<Rightarrow> db \<Rightarrow> int \<times> db" where
  "geotrack_drop_history_partitions p_before db =
     (let children = filter (\<lambda>day. day < p_before) (history_partitions db)
      in (int (length children), fold drop_partition children db))"

text \<open>
  \<^verbatim>\<open>upgrade\<close>: the tables are created empty, then the partitions from a week ago to the day after tomorrow.
\<close>

definition created_tables :: db where
  "created_tables =
     \<lparr>users = [], geozones = [], device_positions = [], zone_presence = [], alerts = [], alert_seq = 0, location_history = [],
      history_partitions = []\<rparr>"

definition upgrade :: "micros \<Rightarrow> raised_error + int \<times> db" where
  "upgrade now = geotrack_ensure_history_partitions (day_of now - 7) (day_of now + 2) created_tables"

text \<open>The loops do what the maintenance round takes them to do.\<close>

lemma ensure_loop_adds:
  "ensure_loop a b n ps = (n + int (length (filter (\<lambda>day. day \<notin> set ps) [a..b])), ps @ filter (\<lambda>day. day \<notin> set ps) [a..b])"
proof (induction a b n ps rule: ensure_loop.induct)
  case (1 a b n ps)
  show ?case
  proof (cases "a \<le> b")
    case True
    then have split: "[a..b] = a # [a + 1..b]" by (simp add: upto_rec1)
    have later: "filter (\<lambda>day. day \<notin> set (ps @ [a])) [a + 1..b] = filter (\<lambda>day. day \<notin> set ps) [a + 1..b]"
      by (rule filter_cong) auto
    show ?thesis
      using 1 True later by (subst ensure_loop.simps) (simp add: split)
  qed (subst ensure_loop.simps, simp)
qed

lemma ensure_is_the_loop:
  "p_from \<le> p_to \<Longrightarrow> geotrack_ensure_history_partitions p_from p_to db = Inr (ensure_history_partitions p_from p_to db)"
  by (simp add: geotrack_ensure_history_partitions_def ensure_loop_adds ensure_history_partitions_def Let_def)

text \<open>The migration establishes the invariant of the tables, and the partitions of the default retention window.\<close>

lemma upgrade_ok:
  obtains db where "upgrade now = Inr (10, db)" "wf_db db" "schema_ok db" "set (history_partitions db) = {day_of now - 7..day_of now + 2}"
proof
  show "upgrade now = Inr (10, created_tables\<lparr>history_partitions := [day_of now - 7..day_of now + 2]\<rparr>)"
    by (simp add: upgrade_def geotrack_ensure_history_partitions_def ensure_loop_adds created_tables_def)
qed (simp_all add: created_tables_def wf_db_def keyed_def presence_ok_def alerts_ok_def references_ok_def history_ok_def schema_ok_def)

lemma device_ids_fit: "DEVICE_ID_RE d \<Longrightarrow> ck_device_positions_device_id_length d"
  by (simp add: DEVICE_ID_RE_def ck_device_positions_device_id_length_def MIN_DEVICE_ID_LENGTH_def MAX_DEVICE_ID_LENGTH_def)

lemma drop_partitions_all:
  "fold drop_partition ds db = db\<lparr>history_partitions := filter (\<lambda>day. day \<notin> set ds) (history_partitions db),
     location_history := filter (\<lambda>e. day_of (snd (fst e)) \<notin> set ds) (location_history db)\<rparr>"
proof -
  have "fold drop_partition ds db = db\<lparr>history_partitions := fold removeAll ds (history_partitions db),
      location_history := fold (\<lambda>day. filter (\<lambda>e. day_of (snd (fst e)) \<noteq> day)) ds (location_history db)\<rparr>"
    by (induction ds arbitrary: db) (simp_all add: drop_partition_def)
  moreover have "fold removeAll ds xs = filter (\<lambda>day. day \<notin> set ds) xs" for xs
    by (induction ds arbitrary: xs) (auto simp: removeAll_filter_not_eq intro!: filter_cong)
  moreover have "fold (\<lambda>day. filter (\<lambda>e. day_of (snd (fst e)) \<noteq> day)) ds xs = filter (\<lambda>e. day_of (snd (fst e)) \<notin> set ds) xs"
    for xs :: "((device_id \<times> micros) \<times> history_row) list"
    by (induction ds arbitrary: xs) (auto intro!: filter_cong)
  ultimately show ?thesis by simp
qed

lemma drop_is_the_loop:
  assumes "history_ok db"
  shows "geotrack_drop_history_partitions p_before db = drop_history_partitions p_before db"
proof -
  define children where "children = filter (\<lambda>day. day < p_before) (history_partitions db)"
  have "filter (\<lambda>day. day \<notin> set children) (history_partitions db) = filter (\<lambda>day. \<not> day < p_before) (history_partitions db)"
    by (rule filter_cong) (auto simp: children_def)
  moreover have "filter (\<lambda>e. day_of (snd (fst e)) \<notin> set children) (location_history db) =
      filter (\<lambda>((d, ts), h). \<not> day_of ts < p_before) (location_history db)"
    using assms by (intro filter_cong) (auto simp: history_ok_def list_all_iff children_def)
  ultimately show ?thesis
    by (simp add: geotrack_drop_history_partitions_def drop_history_partitions_def Let_def drop_partitions_all children_def [symmetric])
qed

subsection \<open>A partial update\<close>

text \<open>The body of a \<^verbatim>\<open>PATCH\<close>: per field absent, null, or a value that is still to be checked.\<close>

record raw_patch =
  rt_name :: "string option option"
  rt_latitude :: "pyfloat option option"
  rt_longitude :: "pyfloat option option"
  rt_radius_m :: "pyfloat option option"
  rt_color :: "string option option"
  rt_alert_on_enter :: "bool option option"
  rt_alert_on_exit :: "bool option option"
  rt_dwell_alert_interval_s :: "int option option"

text \<open>Checks of a field that may be absent or null; \<open>None\<close> is a validation error.\<close>

definition checked_field :: "('a \<Rightarrow> 'b option) \<Rightarrow> 'a option option \<Rightarrow> 'b option option option" where
  "checked_field f v =
     (case v of
        None \<Rightarrow> Some None
      | Some None \<Rightarrow> Some (Some None)
      | Some (Some x) \<Rightarrow> (case f x of None \<Rightarrow> None | Some y \<Rightarrow> Some (Some (Some y))))"

definition lowered_color :: "string \<Rightarrow> string option" where
  "lowered_color s = (if ZoneColor_ok s then Some (map lower_char s) else None)"

definition dwell_interval :: "int \<Rightarrow> int option" where
  "dwell_interval n = (if valid_dwell (Some n) then Some n else None)"

definition GeozonePatch :: "raw_patch \<Rightarrow> geozone_patch option" where
  "GeozonePatch r =
     (case (checked_field valid_name (rt_name r), checked_field (in_range 90) (rt_latitude r), checked_field (in_range 180) (rt_longitude r),
            checked_field radius_of (rt_radius_m r), checked_field lowered_color (rt_color r), checked_field dwell_interval (rt_dwell_alert_interval_s r)) of
        (Some name, Some la, Some lo, Some radius, Some color, Some dwell) \<Rightarrow>
          Some \<lparr>gp_name = name, gp_latitude = la, gp_longitude = lo, gp_radius_m = radius, gp_color = color,
                gp_alert_on_enter = rt_alert_on_enter r, gp_alert_on_exit = rt_alert_on_exit r, gp_dwell_alert_interval_s = dwell\<rparr>
      | _ \<Rightarrow> None)"

subsection \<open>What the API validates, the schema takes\<close>

text \<open>A request as it comes out of validation; the flag says that its name has no character zero.\<close>

definition payload_ok :: "geozone_create \<Rightarrow> bool" where
  "payload_ok p \<longleftrightarrow> (\<exists>raw. GeozoneCreate raw = Some p) \<and> text_ok (gc_name p)"

definition patch_ok :: "geozone_patch \<Rightarrow> bool" where
  "patch_ok p \<longleftrightarrow> (\<exists>raw. GeozonePatch raw = Some p) \<and> (case gp_name p of Some (Some s) \<Rightarrow> text_ok s | _ \<Rightarrow> True)"

definition request_ok :: "zone_request \<Rightarrow> bool" where
  "request_ok rq = (case rq of CreateZone p \<Rightarrow> payload_ok p | ReplaceZone zid p im \<Rightarrow> payload_ok p | PatchZone zid p im \<Rightarrow> patch_ok p | DeleteZone zid im \<Rightarrow> True)"

lemma strip_length: "length (strip s) \<le> length s"
proof -
  have "length (dropWhile P xs) \<le> length xs" for P and xs :: string by (rule length_dropWhile_le)
  then show ?thesis unfolding strip_def length_rev by (metis length_rev le_trans)
qed

lemma valid_name_fits: "valid_name s = Some n \<Longrightarrow> ck_geozones_name_length n"
  using strip_length [of s] by (auto simp: valid_name_def ck_geozones_name_length_def Suc_le_eq split: if_splits)

lemma lower_hex: "hex_digit c \<Longrightarrow> (let n = of_char (lower_char c) :: nat in 48 \<le> n \<and> n \<le> 57 \<or> 97 \<le> n \<and> n \<le> 102)"
  by (auto simp: hex_digit_def lower_char_def Let_def)

lemma lowered_color_fits:
  assumes "ZoneColor_ok s"
  shows "ck_geozones_color_format (map lower_char s)" "text_ok (map lower_char s)"
proof -
  obtain cs where s: "s = CHR ''#'' # cs" "length cs = 6" "list_all hex_digit cs" using assms by (auto simp: ZoneColor_ok_def split: list.splits)
  have hash: "lower_char CHR ''#'' = CHR ''#''" by (simp add: lower_char_def)
  show "ck_geozones_color_format (map lower_char s)"
    using s lower_hex by (auto simp: ck_geozones_color_format_def hash list_all_iff)
  have "lower_char c \<noteq> CHR 0x00" if "hex_digit c" for c using lower_hex [OF that] by auto
  then show "text_ok (map lower_char s)" using s by (auto simp: text_ok_def hash list_all_iff) metis
qed

lemma palette_fits: "ck_geozones_color_format (default_zone_color i)" "text_ok (default_zone_color i)"
proof -
  have all: "list_all (\<lambda>s. ck_geozones_color_format s \<and> text_ok s) ZONE_PALETTE" by code_simp
  have "nat (i mod int (length ZONE_PALETTE)) < length ZONE_PALETTE" by (simp add: ZONE_PALETTE_def nat_less_iff)
  with all show "ck_geozones_color_format (default_zone_color i)" "text_ok (default_zone_color i)"
    by (auto simp: default_zone_color_def list_all_length)
qed

lemma GeozoneCreate_Some:
  assumes "GeozoneCreate raw = Some p"
  shows "valid_name (rz_name raw) = Some (gc_name p)" "radius_of (rz_radius_m raw) = Some (gc_radius_m p)" "valid_color (rz_color raw)"
    "gc_color p = map_option (map lower_char) (rz_color raw)" "valid_dwell (gc_dwell_alert_interval_s p)"
  using assms by (auto simp: GeozoneCreate_def split: option.splits if_splits)

lemma radius_fits: "radius_of f = Some r \<Longrightarrow> ck_geozones_radius_range r"
  by (auto simp: radius_of_def MIN_RADIUS_M_def MAX_RADIUS_M_def ck_geozones_radius_range_def split: pyfloat.splits if_splits)

lemma dwell_fits: "valid_dwell d \<Longrightarrow> ck_geozones_dwell_range d"
  by (simp add: valid_dwell_def ck_geozones_dwell_range_def)

lemma payload_fits:
  assumes "payload_ok p"
  shows "text_ok (gc_name p)" "ck_geozones_name_length (gc_name p)" "ck_geozones_radius_range (gc_radius_m p)"
    "ck_geozones_dwell_range (gc_dwell_alert_interval_s p)" "gc_color p = Some c \<Longrightarrow> ck_geozones_color_format c \<and> text_ok c"
proof -
  obtain raw where "GeozoneCreate raw = Some p" and t: "text_ok (gc_name p)" using assms by (auto simp: payload_ok_def)
  note c = GeozoneCreate_Some [OF this(1)]
  show "text_ok (gc_name p)" by (rule t)
  show "ck_geozones_name_length (gc_name p)" by (rule valid_name_fits [OF c(1)])
  show "ck_geozones_radius_range (gc_radius_m p)" by (rule radius_fits [OF c(2)])
  show "ck_geozones_dwell_range (gc_dwell_alert_interval_s p)" by (rule dwell_fits [OF c(5)])
  show "ck_geozones_color_format c \<and> text_ok c" if "gc_color p = Some c"
    using that c(3, 4) lowered_color_fits by (auto simp: valid_color_def)
qed

lemma GeozonePatch_Some:
  assumes "GeozonePatch raw = Some p"
  shows "checked_field valid_name (rt_name raw) = Some (gp_name p)" "checked_field radius_of (rt_radius_m raw) = Some (gp_radius_m p)"
    "checked_field lowered_color (rt_color raw) = Some (gp_color p)"
    "checked_field dwell_interval (rt_dwell_alert_interval_s raw) = Some (gp_dwell_alert_interval_s p)"
  using assms by (auto simp: GeozonePatch_def split: option.splits prod.splits)

text \<open>A field of a patch satisfies what its check guarantees, or keeps the value of the row.\<close>

lemma checked_present:
  assumes "checked_field f v = Some field" "\<And>x y. f x = Some y \<Longrightarrow> P y" "P current"
  shows "P (present field current)"
  using assms by (auto simp: checked_field_def present_def split: option.splits)

lemma patched_fits:
  assumes "patch_ok p" "zone_row_ok z"
  shows "zone_row_ok (patched p z)"
proof -
  obtain raw where "GeozonePatch raw = Some p" using assms(1) by (auto simp: patch_ok_def)
  note c = GeozonePatch_Some [OF this]
  have "text_ok (present (gp_name p) (z_name z))"
    using assms by (auto simp: patch_ok_def zone_row_ok_def present_def split: option.splits)
  moreover have "ck_geozones_name_length (present (gp_name p) (z_name z))"
    by (rule checked_present [OF c(1) valid_name_fits]) (use assms(2) in \<open>simp_all add: zone_row_ok_def\<close>)
  moreover have "ck_geozones_color_format (present (gp_color p) (z_color z)) \<and> text_ok (present (gp_color p) (z_color z))"
    by (rule checked_present [OF c(3), where P = "\<lambda>s. ck_geozones_color_format s \<and> text_ok s"])
      (use assms(2) lowered_color_fits in \<open>auto simp: zone_row_ok_def lowered_color_def split: if_splits\<close>)
  moreover have "ck_geozones_radius_range (present (gp_radius_m p) (z_radius_m z))"
    by (rule checked_present [OF c(2) radius_fits]) (use assms(2) in \<open>simp_all add: zone_row_ok_def\<close>)
  moreover have "ck_geozones_dwell_range (case gp_dwell_alert_interval_s p of None \<Rightarrow> z_dwell_alert_interval_s z | Some d \<Rightarrow> d)"
    using assms(2) c(4) dwell_fits
    by (auto simp: zone_row_ok_def checked_field_def dwell_interval_def split: option.splits if_splits) (simp_all add: ck_geozones_dwell_range_def)
  ultimately show ?thesis by (simp add: zone_row_ok_def patched_def)
qed

lemma schema_ok_zone: "schema_ok db \<Longrightarrow> map_of (geozones db) zid = Some z \<Longrightarrow> zone_row_ok z"
  by (auto simp: schema_ok_def list_all_iff dest!: map_of_SomeD)

lemma schema_ok_update:
  assumes "schema_ok db" "zone_row_ok z"
  shows "schema_ok (db\<lparr>geozones := AList.update zid z (geozones db)\<rparr>)"
proof -
  have "list_all (\<lambda>(k, v). P v) xs \<Longrightarrow> P z \<Longrightarrow> list_all (\<lambda>(k, v). P v) (AList.update zid z xs)" for P xs
    by (induction xs) auto
  with assms show ?thesis by (simp add: schema_ok_def)
qed

lemma schema_ok_updated_reply:
  assumes "schema_ok db" "\<And>z. zone_row_ok z \<Longrightarrow> zone_row_ok (f z)"
  shows "schema_ok (fst (snd (updated_reply env zid u (guarded_update f now zid u expected db) db)))"
proof (cases "guarded_update f now zid u expected db")
  case (Inr x)
  show ?thesis
  proof (cases x)
    case (Some y)
    obtain z' db' where y: "y = (z', db')" by fastforce
    then obtain z where z: "guarded_row db zid u expected = Some z" "z' = (f z)\<lparr>z_version := z_version z + 1, z_updated_at := now\<rparr>"
        "db' = db\<lparr>geozones := AList.update zid z' (geozones db)\<rparr>"
      using Inr Some by (auto simp: guarded_update_Some)
    have "zone_row_ok z" using z(1) schema_ok_zone [OF assms(1), of zid z] by (simp add: guarded_row_Some)
    then have "zone_row_ok z'" using assms(2) [of z] z(2) by (simp add: zone_row_ok_def)
    with schema_ok_update [OF assms(1)] z(3) show ?thesis by (simp add: updated_reply_def Inr Some y)
  qed (simp add: updated_reply_def Inr assms)
qed (simp add: updated_reply_def assms)

lemma replaced_fits: "payload_ok p \<Longrightarrow> zone_row_ok z \<Longrightarrow> zone_row_ok (replaced p z)"
  using payload_fits [of p] by (auto simp: zone_row_ok_def replaced_def split: option.splits)

lemma schema_ok_create:
  assumes "schema_ok db" "payload_ok p"
  shows "schema_ok (fst (snd (create_zone env s u p db)))"
  using assms payload_fits [OF assms(2)] palette_fits
  by (auto simp: create_zone_def create_def Let_def schema_ok_def zone_row_ok_def split: sum.splits if_splits option.splits)

lemma schema_ok_delete:
  assumes "schema_ok db"
  shows "schema_ok (fst (snd (delete_zone env zid u im db)))"
proof -
  have "list_all P xs \<Longrightarrow> list_all P (AList.delete zid xs)" for P and xs :: "(uuid \<times> geozone) list"
    by (induction xs) auto
  with assms show ?thesis by (auto simp: delete_zone_def delete_row_def schema_ok_def split: sum.splits option.splits)
qed

lemma schema_ok_handler: "schema_ok db \<Longrightarrow> request_ok rq \<Longrightarrow> schema_ok (fst (snd (zone_handler env s u rq db)))"
proof (cases rq)
  case (ReplaceZone zid p im)
  assume "schema_ok db" "request_ok rq"
  with ReplaceZone schema_ok_updated_reply [of db "replaced p"] replaced_fits show ?thesis
    by (auto simp: request_ok_def replace_zone_def replace_row_def split: sum.splits)
next
  case (PatchZone zid p im)
  assume "schema_ok db" "request_ok rq"
  with PatchZone schema_ok_updated_reply [of db "patched p"] patched_fits show ?thesis
    by (auto simp: request_ok_def patch_zone_def patch_row_def split: sum.splits option.splits)
qed (auto simp: request_ok_def intro: schema_ok_create schema_ok_delete)

text \<open>(C33) No validated request on zones is refused by a constraint of the schema: whatever requests come, by any accounts,
  in any order, every row of the zone table satisfies the checks of the migration, as long as no name
  contains the character zero.\<close>

theorem validated_zones_fit_the_schema:
  assumes "schema_ok db" "list_all (\<lambda>(env, s, u, rq). request_ok rq) requests"
  shows "schema_ok (fold (\<lambda>(env, s, u, rq) db. fst (snd (zone_handler env s u rq db))) requests db)"
  using assms by (induction requests arbitrary: db) (auto intro: schema_ok_handler)

lemma lower_char_idem: "lower_char (lower_char c) = lower_char c"
  by (auto simp: lower_char_def Let_def)

lemma valid_username_fits:
  assumes "LoginRequest name = Some n"
  shows "text_ok n" "ck_users_username_format n"
proof -
  have n: "n = map lower_char name" and ok: "Username_ok name" using assms by (auto simp: LoginRequest_def split: if_splits)
  have char: "let k = of_char (lower_char c) :: nat in 97 \<le> k \<and> k \<le> 122 \<or> 48 \<le> k \<and> k \<le> 57 \<or> lower_char c \<in> set ''_.-''"
    if "username_char c" for c
    using that by (auto simp: username_char_def lower_char_def Let_def)
  show "ck_users_username_format n"
    using ok char by (auto simp: n ck_users_username_format_def Username_ok_def lower_char_idem list_all_iff)
  have "lower_char c \<noteq> CHR 0x00" if "username_char c" for c using char [OF that] by (auto simp: Let_def)
  then show "text_ok n" using ok by (auto simp: n text_ok_def Username_ok_def list_all_iff) metis
qed

text \<open>
  The exception: a name with the character zero in it passes validation, and PostgreSQL cannot store it, so the request
  ends in an internal error instead of a validation error.
\<close>

lemma name_with_zero_is_valid: "valid_name [CHR ''a'', CHR 0x00, CHR ''b''] = Some [CHR ''a'', CHR 0x00, CHR ''b''] \<and> \<not> text_ok [CHR ''a'', CHR 0x00, CHR ''b'']"
  by code_simp

definition plain_raw :: raw_zone where
  "plain_raw = \<lparr>rz_name = ''depot'', rz_latitude = Fin 50, rz_longitude = Fin 30, rz_radius_m = Fin 100, rz_color = Some ''#A0B1C2'',
     rz_alert_on_enter = True, rz_alert_on_exit = True, rz_dwell_alert_interval_s = None\<rparr>"

definition schema_db :: db where
  "schema_db = zone_db\<lparr>geozones := []\<rparr>"

theorem validated_zones_fit_the_schema_witness:
  "schema_ok (fst (snd (zone_handler sample_zone_env default_settings 7 (CreateZone (the (GeozoneCreate plain_raw))) schema_db)))"
proof -
  have some: "GeozoneCreate plain_raw \<noteq> None" by code_simp
  have "text_ok (gc_name (the (GeozoneCreate plain_raw)))" by code_simp
  with some have "request_ok (CreateZone (the (GeozoneCreate plain_raw)))" by (auto simp: request_ok_def payload_ok_def)
  moreover have "schema_ok schema_db" by code_simp
  ultimately show ?thesis
    using validated_zones_fit_the_schema [of schema_db "[(sample_zone_env, default_settings, 7, CreateZone (the (GeozoneCreate plain_raw)))]"] by simp
qed

end
