(* ===== verification/Lifecycle.thy ===== *)
theory Lifecycle
  imports Maintenance Service Gateway
begin

text \<open>
  Start and stop of the two kinds of process: \<^verbatim>\<open>ProcessorService.start\<close> and \<^verbatim>\<open>stop\<close> (\<^verbatim>\<open>processor/service.py\<close>), and
  \<^verbatim>\<open>Gateway.start\<close>, \<^verbatim>\<open>_warm_start\<close>, \<^verbatim>\<open>stop\<close>, \<^verbatim>\<open>serve\<close>, \<^verbatim>\<open>_greet\<close> and \<^verbatim>\<open>_pump\<close> (\<^verbatim>\<open>realtime/gateway.py\<close>). What Redis, the database and the socket answer is an input.
\<close>

subsection \<open>The processor\<close>

text \<open>\<^verbatim>\<open>_Resources\<close>: the pool with its number of connections, the two Redis clients, and what is built on them.\<close>

record resources =
  rs_pool_size :: int
  rs_streams_connections :: int
  rs_lease :: lease_manager
  rs_maintenance :: partition_maintenance

definition open_resources :: "settings \<Rightarrow> string \<Rightarrow> resources" where
  "open_resources cfg instance_id =
     \<lparr>rs_pool_size = ingest_shards cfg + 2, rs_streams_connections = ingest_shards cfg + 4,
      rs_lease = lease_manager_init (ingest_shards cfg) (processor_lease_ttl_ms cfg) instance_id
        (Some (max (processor_lease_ttl_ms cfg) (CONTROL_INTERVAL_S * 4000))),
      rs_maintenance = partition_maintenance_init (history_retention_days cfg) instance_id\<rparr>"

record processor =
  po_settings :: settings
  po_instance_id :: string
  po_service :: service
  po_resources :: "resources option"
  po_tasks :: "string list"
  po_loop_lag :: bool

definition new_processor :: "settings \<Rightarrow> string \<Rightarrow> processor" where
  "new_processor cfg instance_id =
     \<lparr>po_settings = cfg, po_instance_id = instance_id, po_service = service_init cfg instance_id, po_resources = None, po_tasks = [],
      po_loop_lag = False\<rparr>"

text \<open>
  \<^verbatim>\<open>stop\<close>: \<open>finished\<close> are the drains that end within the budget. Without resources there is nothing to close. A Redis
  error while deregistering is only logged.
\<close>

definition processor_stop :: "int list \<Rightarrow> processor \<Rightarrow> processor" where
  "processor_stop finished p =
     p\<lparr>po_tasks := [], po_service := stop finished (po_service p), po_loop_lag := False, po_resources := None\<rparr>"

text \<open>
  What the calls of \<^verbatim>\<open>start\<close> meet: the conditional write and the read of the shard count, and the times and faults of the first
  maintenance round; \<open>sr_recorded = None\<close> is a Redis error at either call, and \<open>sr_leads = False\<close> one at the election.
\<close>

record start_env =
  sr_recorded :: "int option option"
  sr_leads :: bool
  sr_lead_at :: millis
  sr_back_at :: millis
  sr_now :: micros
  sr_fails :: bool
  sr_reachable :: bool

datatype start_failure = ShardCountUnread | WrongShardCount start_error | MaintenanceRaised

definition processor_start :: "'s redis \<Rightarrow> start_env \<Rightarrow> processor \<Rightarrow> 's \<Rightarrow> db \<Rightarrow> (start_failure + maintenance_outcome) \<times> processor \<times> 's \<times> db" where
  "processor_start r env p s db =
     (let opened = open_resources (po_settings p) (po_instance_id p);
          p1 = p\<lparr>po_resources := Some opened\<rparr>
      in case sr_recorded env of
           None \<Rightarrow> (Inl ShardCountUnread, processor_stop [] p1, s, db)
         | Some found \<Rightarrow>
             (case verify_shard_count (po_settings p) found of
                Inl e \<Rightarrow> (Inl (WrongShardCount e), processor_stop [] p1, s, db)
              | Inr _ \<Rightarrow>
                  if \<not> sr_leads env then (Inl MaintenanceRaised, processor_stop [] p1, s, db)
                  else (case run_once r (rs_maintenance opened) (sr_lead_at env) (sr_back_at env) (sr_now env) (sr_fails env) (sr_reachable env) s db of
                          (None, s1, db1) \<Rightarrow> (Inl MaintenanceRaised, processor_stop [] p1, s1, db1)
                        | (Some outcome, s1, db1) \<Rightarrow>
                            (Inr outcome,
                             p1\<lparr>po_loop_lag := True, po_tasks := [''processor-control'', ''processor-renew'', ''processor-maintenance'']\<rparr>,
                             s1, db1))))"

text \<open>The readiness of a replica, with the resources it needs.\<close>

definition processor_ready :: "millis \<Rightarrow> bool \<Rightarrow> processor \<Rightarrow> bool" where
  "processor_ready now dependencies_answer p = is_ready (po_settings p) now (po_resources p \<noteq> None) dependencies_answer (po_service p)"

text \<open>
  The probe of the replica's own HTTP surface: the status, and the body as the shards it owns in order; \<open>None\<close> is the
  body of a replica that is not ready, which comes with \<^verbatim>\<open>Retry-After: 1\<close>.
\<close>

definition processor_probe :: "millis \<Rightarrow> bool \<Rightarrow> processor \<Rightarrow> int \<times> int list option" where
  "processor_probe now dependencies_answer p =
     (if processor_ready now dependencies_answer p then (200, Some (sort (owned_shards (po_service p)))) else (503, None))"

lemma stop_without_consumers: "sv_consumers s = [] \<Longrightarrow> sv_draining s = [] \<Longrightarrow> sv_consumers (stop finished s) = [] \<and> sv_draining (stop finished s) = []"
proof -
  assume none: "sv_consumers s = []" "sv_draining s = []"
  have "fold drain_ends (filter (\<lambda>shard. False) finished) s = s" by simp
  with none show ?thesis by (simp add: stop_def Let_def)
qed

text \<open>A replica starts entirely or not at all. When any step of the start fails, no pool, client, task or consumer is left
  behind; when it succeeds, the shard count agrees with the cluster, the loops run on open resources, and if this replica
  led the first maintenance round, every day of the retention window and the next two have their partition before
  anything is read.\<close>

theorem processor_starts_entirely_or_not_at_all:
  assumes "processor_start r env (new_processor cfg instance_id) s db = (res, p, s', db')"
  shows "case res of
      Inl e \<Rightarrow> po_resources p = None \<and> po_tasks p = [] \<and> \<not> po_loop_lag p \<and> sv_consumers (po_service p) = [] \<and>
        \<not> processor_ready now answers p
    | Inr outcome \<Rightarrow> po_resources p = Some (open_resources cfg instance_id) \<and> length (po_tasks p) = 3 \<and>
        (sr_recorded env = Some None \<or> sr_recorded env = Some (Some (ingest_shards cfg))) \<and>
        (mo_led outcome \<longrightarrow> {day_of (sr_now env) - history_retention_days cfg..day_of (sr_now env) + DAYS_AHEAD} \<subseteq> set (history_partitions db'))"
proof -
  define pm where "pm = partition_maintenance_init (history_retention_days cfg) instance_id"
  have init: "sv_consumers (service_init cfg instance_id) = []" "sv_draining (service_init cfg instance_id) = []" by (simp_all add: service_init_def)
  have stopped: "po_resources q = None \<and> po_tasks q = [] \<and> \<not> po_loop_lag q \<and> sv_consumers (po_service q) = [] \<and> \<not> processor_ready now answers q"
    if "q = processor_stop [] ((new_processor cfg instance_id)\<lparr>po_resources := x\<rparr>)" for q x
    using stop_without_consumers [OF init] by (simp add: that processor_stop_def new_processor_def processor_ready_def is_ready_def)
  have led: "{day_of (sr_now env) - history_retention_days cfg..day_of (sr_now env) + DAYS_AHEAD} \<subseteq> set (history_partitions d)"
    if run: "run_once r pm (sr_lead_at env) (sr_back_at env) (sr_now env) (sr_fails env) (sr_reachable env) s db = (Some out, s1, d)" and l: "mo_led out" for out s1 d
  proof -
    obtain s2 where lead: "take_lead r pm (sr_lead_at env) s = (True, s2)" and "\<not> sr_fails env"
      using run l by (cases "take_lead r pm (sr_lead_at env) s") (auto simp: run_once_def split: bool.splits if_splits)
    with run led_round [OF lead, of "sr_back_at env" "sr_now env" "sr_reachable env" db] partitions_after_round
    show ?thesis by (auto simp: pm_def partition_maintenance_init_def)
  qed
  show ?thesis
    using assms stopped led
    by (auto simp: processor_start_def Let_def verify_shard_count_def new_processor_def open_resources_def pm_def [symmetric] split: option.splits sum.splits if_splits prod.splits)
qed

text \<open>
  When another replica holds the lead of maintenance, the start goes on without looking at the partitions: a leader that
  died between its election and its round leaves the others to consume without them until its lease runs out.
\<close>

lemma start_without_partitions:
  assumes "sr_recorded env = Some None" "sr_leads env"
    "take_lead r (partition_maintenance_init (history_retention_days cfg) instance_id) (sr_lead_at env) s = (False, s1)"
  shows "\<exists>outcome p. processor_start r env (new_processor cfg instance_id) s db = (Inr outcome, p, s1, db) \<and> po_tasks p \<noteq> []"
  using assms by (simp add: processor_start_def run_once_def verify_shard_count_def new_processor_def open_resources_def)

definition good_start :: start_env where
  "good_start = \<lparr>sr_recorded = Some None, sr_leads = True, sr_lead_at = 0, sr_back_at = 1, sr_now = 1700000000000000, sr_fails = False, sr_reachable = True\<rparr>"

theorem processor_starts_entirely_or_not_at_all_witness:
  "po_resources (fst (snd (processor_start kv_redis (good_start\<lparr>sr_recorded := Some (Some 9)\<rparr>) (new_processor default_settings ''proc-a'') [] sample_db))) = None"
proof -
  obtain res p s' db' where run: "processor_start kv_redis (good_start\<lparr>sr_recorded := Some (Some 9)\<rparr>) (new_processor default_settings ''proc-a'') [] sample_db = (res, p, s', db')"
    by (metis prod_cases4)
  have "ingest_shards default_settings \<noteq> 9" by code_simp
  then obtain e where "res = Inl e" using run by (auto simp: processor_start_def good_start_def verify_shard_count_def new_processor_def Let_def)
  with processor_starts_entirely_or_not_at_all [OF run] run show ?thesis by simp
qed

subsection \<open>The gateway\<close>

text \<open>\<^verbatim>\<open>_warm_start\<close>: \<open>None\<close> is any failure, after which the hub is cold.\<close>

definition gateway_warm_start :: "millis \<Rightarrow> (device_id \<times> device_position) list option \<Rightarrow> gateway \<Rightarrow> gateway" where
  "gateway_warm_start now rows g =
     (case rows of None \<Rightarrow> g | Some positions \<Rightarrow> g\<lparr>gw_hub := snd (warm_start now positions (gw_hub g))\<rparr>)"

definition gateway_start :: "millis \<Rightarrow> rat \<Rightarrow> (device_id \<times> device_position) list option \<Rightarrow> apply_env \<Rightarrow> gateway \<times> bridge \<Rightarrow> gateway \<times> bridge \<times> string list" where
  "gateway_start now moment rows env gb =
     (case gb of (g, b) \<Rightarrow>
        (let g1 = gateway_warm_start now rows g
         in (g1\<lparr>gw_updates_mark := (hb_updates (gw_hub g1), moment)\<rparr>, bridge_start env b, [''ws-positions'', ''ws-stats'', ''ws-sessions''])))"

definition gateway_stop :: "gateway \<times> bridge \<times> string list \<Rightarrow> gateway \<times> bridge \<times> string list" where
  "gateway_stop gbt = (case gbt of (g, b, tasks) \<Rightarrow> (gw_stop g, bridge_stop b, []))"

text \<open>
  \<^verbatim>\<open>_greet\<close>: the frame the socket gets, or nothing when the client is gone or does not take it in time.
\<close>

definition gateway_greet :: "dumps \<Rightarrow> settings \<Rightarrow> uuid \<Rightarrow> json \<Rightarrow> millis \<Rightarrow> bool \<Rightarrow> bytes option" where
  "gateway_greet dumps cfg session_id user server_t takes_it =
     (if takes_it then Some (hello_frame dumps session_id user (ws_tick_ms cfg) server_t) else None)"

text \<open>
  \<^verbatim>\<open>serve\<close> with \<^verbatim>\<open>_pump\<close>: \<open>joined\<close> is the verdict of the shared directory, \<open>takes_it\<close> whether the hello could be written,
  \<open>meanwhile\<close> what happens on the replica until the reader or the writer of this client is done. The result is the greeting
  and the close that the socket gets, if any.
\<close>

definition gateway_serve ::
  "receive_env \<Rightarrow> (bytes \<Rightarrow> bool) \<Rightarrow> (rat \<Rightarrow> rat) \<Rightarrow> int \<Rightarrow> uuid \<Rightarrow> json \<Rightarrow> session_info \<Rightarrow> bool \<Rightarrow> millis \<Rightarrow> bool \<Rightarrow> gw_event list \<Rightarrow> gateway \<Rightarrow>
   bytes option \<times> (int \<times> string) option \<times> gateway" where
  "gateway_serve env utf8 round1 k u user session joined server_t takes_it meanwhile g =
     (case admit k u session g of
        (False, g1) \<Rightarrow> (None, Some (CLOSE_TOO_MANY_SESSIONS, ''too many sessions''), g1)
      | (True, g1) \<Rightarrow>
          if \<not> joined then (None, cleanup k u (on_conns [k] (request_close CLOSE_TOO_MANY_SESSIONS ''too many sessions'') g1))
          else (case gateway_greet (re_dumps env) (gw_settings g1) (si_id session) user server_t takes_it of
                  None \<Rightarrow> (None, cleanup k u g1)
                | Some hello \<Rightarrow> (Some hello, cleanup k u (fold (gw_step env utf8 round1) meanwhile g1))))"

lemma gw_inv_mark: "gw_inv dumps (g\<lparr>gw_updates_mark := m\<rparr>) = gw_inv dumps g"
  by (simp add: gw_inv_def)

lemma gateway_start_ok:
  assumes "gw_inv dumps g" "gateway_start now moment rows env (g, b) = (g1, b1, tasks)"
  shows "gw_inv dumps g1 \<and> delivering b1 \<and> length tasks = 3"
proof -
  have "gw_inv dumps (gateway_warm_start now rows g)"
    using assms(1) hub_inv_clear hub_inv_apply
    by (auto simp: gateway_warm_start_def gw_inv_def warm_start_def Let_def split: option.splits)
  with assms(2) show ?thesis by (auto simp: gateway_start_def Let_def bridge_start_def delivering_def gw_inv_mark apply_wanted_def split: prod.splits)
qed

lemma on_conns_keys [simp]: "map fst (gw_conns (on_conns ids f g)) = map fst (gw_conns g)"
  by (simp add: on_conns_def case_prod_unfold o_def)

lemma fst_on_conns: "fst ` set (gw_conns (on_conns ids f g)) = fst ` set (gw_conns g)"
  using on_conns_keys [of ids f g] by (metis set_map)

text \<open>Only its own cleanup takes a client away.\<close>

lemma served_client_stays:
  assumes "k \<in> fst ` set (gw_conns g)" "\<forall>v. e \<noteq> Cleanup k v"
  shows "k \<in> fst ` set (gw_conns (gw_step env utf8 round1 e g))"
proof (cases e)
  case (PositionTick moment)
  have "fst ` set (gw_conns (gw_fan_out (re_dumps env) moment h)) = fst ` set (gw_conns h)" for h
    by (auto simp: gw_fan_out_def Let_def fst_on_conns split: prod.splits)
  with PositionTick assms(1) show ?thesis by (simp add: position_tick_def Let_def)
next
  case (StatsTick wall now backlog)
  with assms(1) show ?thesis by (auto simp: stats_tick_def Let_def fst_on_conns split: prod.splits)
next
  case (Admit j v session)
  with assms(1) show ?thesis by (auto simp: admit_def dom_update split: prod.splits bool.splits)
next
  case (Cleanup j v)
  with assms have "j \<noteq> k" by auto
  with Cleanup assms(1) show ?thesis by (auto simp: cleanup_def delete_keys simp flip: set_map split: option.splits prod.splits)
next
  case (ClientSender j now)
  with assms(1) show ?thesis by (auto simp: dom_update split: option.splits prod.splits)
qed (use assms(1) in \<open>simp_all add: gw_deliver_def gw_stop_def fst_on_conns\<close>)

lemma served_client_stays_run:
  assumes "k \<in> fst ` set (gw_conns g)" "list_all (\<lambda>e. \<forall>v. e \<noteq> Cleanup k v) es"
  shows "k \<in> fst ` set (gw_conns (fold (gw_step env utf8 round1) es g))"
  using assms by (induction es arbitrary: g) (auto intro: served_client_stays)

lemma cleanup_removes:
  assumes "gw_inv dumps g" "k \<in> fst ` set (gw_conns g)" "cleanup k u g = (sent, g')"
  shows "k \<notin> fst ` set (gw_conns g') \<and> k \<notin> set (for_user (gw_registry g') u)"
proof -
  obtain c where c: "map_of (gw_conns g) k = Some c" using assms(2) by (metis map_of_eq_None_iff option.exhaust)
  have g': "gw_conns g' = AList.delete k (gw_conns g)" "gw_registry g' = remove_connection u k (gw_registry g)"
    using assms(3) c by (auto simp: cleanup_def split: prod.splits)
  have "distinct cs" if "map_of (rg_by_user (gw_registry g)) u = Some cs" for cs
    using assms(1) map_of_SomeD [OF that] by (auto simp: gw_inv_def registry_inv_def members_ok_def)
  then have "k \<notin> set (for_user (remove_connection u k (gw_registry g)) u)"
    by (cases "map_of (rg_by_user (gw_registry g)) u")
      (simp_all add: remove_connection_def for_user_def enter_sync_def Let_def update_conv' delete_conv')
  then show ?thesis by (simp add: g' delete_notin_dom)
qed

text \<open>A client leaves nothing behind. However its session ends -- refused by the replica, refused by the directory of all
  replicas, gone during the handshake, or served to its end while everything else goes on -- afterwards the replica holds
  neither its connection nor an entry in the registry, and the invariant of the replica holds.\<close>

theorem serving_leaves_nothing_behind:
  assumes "gw_inv (re_dumps env) g" "k \<notin> fst ` set (gw_conns g)" "k \<notin> set (for_user (gw_registry g) u)"
    "list_all (\<lambda>e. \<forall>v. e \<noteq> Cleanup k v) meanwhile"
    "gateway_serve env utf8 round1 k u user session joined server_t takes_it meanwhile g = (hello, sent, g')"
  shows "k \<notin> fst ` set (gw_conns g') \<and> k \<notin> set (for_user (gw_registry g') u) \<and> gw_inv (re_dumps env) g'"
proof (cases "admit k u session g")
  case (Pair ok g1)
  have inv1: "gw_inv (re_dumps env) g1" using gw_inv_admit [OF assms(1), of k u session] Pair by simp
  show ?thesis
  proof (cases ok)
    case False
    with Pair assms(2, 3, 5) inv1 show ?thesis
      by (auto simp: gateway_serve_def admit_def add_connection_def Let_def split: prod.splits bool.splits if_splits)
  next
    case True
    define g2 where "g2 = (if \<not> joined then on_conns [k] (request_close CLOSE_TOO_MANY_SESSIONS ''too many sessions'') g1
      else if \<not> takes_it then g1 else fold (gw_step env utf8 round1) meanwhile g1)"
    have here: "k \<in> fst ` set (gw_conns g1)" using Pair True by (auto simp: admit_def dom_update split: prod.splits bool.splits)
    have inv2: "gw_inv (re_dumps env) g2"
      using inv1 gw.run_keeps [OF inv1] gw_inv_on_conns [OF inv1 client_ok_ops(2)] by (simp add: g2_def)
    have "k \<in> fst ` set (gw_conns g2)" using here served_client_stays_run [OF here assms(4)] by (simp add: g2_def fst_on_conns)
    moreover have cl: "cleanup k u g2 = (sent, g')"
      using assms(5) Pair True by (simp add: gateway_serve_def gateway_greet_def g2_def split: if_splits)
    ultimately show ?thesis using cleanup_removes [OF inv2] gw_inv_cleanup [OF inv2, of k u] by simp
  qed
qed

theorem serving_leaves_nothing_behind_witness:
  "1 \<notin> fst ` set (gw_conns (snd (snd (gateway_serve sample_receive_env (\<lambda>_. True) id 1 7 (JStr ''ann'') sample_dashboard True 0 True
     [Admit 2 7 sample_dashboard, UserFrame 7 ''frame''] (new_gateway default_settings)))))"
proof -
  obtain hello sent g' where served: "gateway_serve sample_receive_env (\<lambda>_. True) id 1 7 (JStr ''ann'') sample_dashboard True 0 True
      [Admit 2 7 sample_dashboard, UserFrame 7 ''frame''] (new_gateway default_settings) = (hello, sent, g')"
    by (metis prod_cases3)
  have "gw_inv (re_dumps sample_receive_env) (new_gateway default_settings)" by (rule gw_inv_new [OF default_settings_valid])
  from serving_leaves_nothing_behind [OF this _ _ _ served] show ?thesis
    unfolding served by (simp add: new_gateway_def for_user_def empty_registry_def)
qed

end
