(* ===== verification/Application.thy ===== *)
theory Application
  imports Lifecycle Ingest Accounts
begin

text \<open>
  The API process as a whole: \<^verbatim>\<open>api/app.py\<close> with \<^verbatim>\<open>api/resources.py\<close> (the lifespan and the metrics middleware), the exception
  handlers of \<^verbatim>\<open>api/problems.py\<close>, \<^verbatim>\<open>observability/loop_lag.py\<close>, and the agreement on the number of shards between this
  process (\<^verbatim>\<open>ingest/shards.py\<close>) and the processors.
\<close>

subsection \<open>The loop lag monitor\<close>

record lag_monitor =
  lg_interval_s :: rat
  lg_warn_after_s :: rat
  lg_running :: bool
  lg_last_lag_s :: rat

definition new_lag_monitor :: lag_monitor where
  "new_lag_monitor = \<lparr>lg_interval_s = 1/4, lg_warn_after_s = fl (1/10), lg_running = False, lg_last_lag_s = 0\<rparr>"

definition lag_start :: "lag_monitor \<Rightarrow> lag_monitor" where
  "lag_start m = (if lg_running m then m else m\<lparr>lg_running := True\<rparr>)"

definition lag_stop :: "lag_monitor \<Rightarrow> lag_monitor" where
  "lag_stop m = (if lg_running m then m\<lparr>lg_running := False\<rparr> else m)"

text \<open>One turn of \<^verbatim>\<open>_run\<close> between two readings of the clock, and whether it warns.\<close>

definition lag_turn :: "rat \<Rightarrow> rat \<Rightarrow> lag_monitor \<Rightarrow> bool \<times> lag_monitor" where
  "lag_turn started ended m =
     (let lag = fl (fl (ended - started) - lg_interval_s m); m1 = m\<lparr>lg_last_lag_s := max lag 0\<rparr>
      in (lg_warn_after_s m \<le> lg_last_lag_s m1, m1))"

subsection \<open>The metrics middleware\<close>

datatype asgi_message = ResponseStart int | OtherMessage

record scope =
  sc_type :: string
  sc_method :: "string option"
  sc_route :: "string option"

definition wrapped_send :: "asgi_message \<Rightarrow> int \<Rightarrow> int" where
  "wrapped_send m status_code = (case m of ResponseStart status \<Rightarrow> status | OtherMessage \<Rightarrow> status_code)"

text \<open>
  The labels under which a call is counted, from the messages the application sends before it returns or raises; a scope
  that is not a request passes uncounted.
\<close>

definition MetricsMiddleware :: "scope \<Rightarrow> asgi_message list \<Rightarrow> (string \<times> string \<times> int) option" where
  "MetricsMiddleware sc messages =
     (if sc_type sc \<noteq> ''http'' then None
      else Some (case sc_method sc of None \<Rightarrow> ''GET'' | Some verb \<Rightarrow> verb,
                 case sc_route sc of None \<Rightarrow> ''unmatched'' | Some path \<Rightarrow> path,
                 fold wrapped_send messages 500))"

subsection \<open>Exception handlers\<close>

datatype raised =
    ProblemRaised int string string "string option" "(string \<times> string) list" "(string \<times> json) list"
  | ValidationRaised json
  | HttpRaised int string "(string \<times> string) list"
  | PoolTimedOut
  | AnythingElse

text \<open>\<^verbatim>\<open>install_problem_handlers\<close>: \<open>None\<close> is an exception without a handler, which the server answers with a plain 500.\<close>

definition handled :: "dumps \<Rightarrow> raised \<Rightarrow> response option" where
  "handled dumps e =
     (case e of
        ProblemRaised status title code detail headers extra \<Rightarrow> Some (problem_response dumps status title code detail headers extra)
      | ValidationRaised errors \<Rightarrow>
          Some (problem_response dumps 422 ''Request validation failed'' ''validation_error''
            (Some ''The request body or parameters did not pass validation.'') [] [(''errors'', errors)])
      | HttpRaised status detail headers \<Rightarrow> Some (http_problem dumps status detail headers)
      | PoolTimedOut \<Rightarrow> Some (pool_timeout_problem dumps)
      | AnythingElse \<Rightarrow> None)"

text \<open>What the application sends for a call that ends with an exception before it has answered.\<close>

definition exception_messages :: "dumps \<Rightarrow> raised \<Rightarrow> asgi_message list" where
  "exception_messages dumps e = (case handled dumps e of None \<Rightarrow> [] | Some r \<Rightarrow> [ResponseStart (rs_status r), OtherMessage])"

subsection \<open>The lifespan\<close>

datatype connection_pool = EnginePool int | CommandsClient | PubsubClient

record application =
  ap_settings :: settings
  ap_open :: "connection_pool list"
  ap_gateway :: gateway
  ap_bridge :: bridge
  ap_tasks :: "string list"
  ap_loop_lag :: lag_monitor
  ap_backlog :: backlog

text \<open>
  What the start meets: the shard count that \<^verbatim>\<open>SET NX GET\<close> found (the outer \<open>None\<close> is a Redis error), the first sample of the
  backlog, the clocks, the rows of the warm start and the answers to the first subscription; each \<open>None\<close> is a failure.
\<close>

record api_env =
  ae_recorded :: "string option option"
  ae_sample :: "int list option"
  ae_now :: millis
  ae_moment :: rat
  ae_rows :: "(device_id \<times> device_position) list option"
  ae_apply :: apply_env

datatype api_failure = QueueUnknown | OtherPartitioning int string | BadWatermarks string

definition api_start :: "settings \<Rightarrow> api_env \<Rightarrow> api_failure + application" where
  "api_start s env =
     (case ae_recorded env of
        None \<Rightarrow> Inl QueueUnknown
      | Some found \<Rightarrow>
          (case edge_verify_shard_count (ingest_shards s) found of
             Inl (configured, previous) \<Rightarrow> Inl (OtherPartitioning configured previous)
           | Inr _ \<Rightarrow>
               (case new_backlog (ingest_shards s) (ingest_backlog_high s) (ingest_backlog_low s) (ingest_backlog_poll_ms s) of
                  Inl msg \<Rightarrow> Inl (BadWatermarks msg)
                | Inr backlog \<Rightarrow>
                    (case gateway_start (ae_now env) (ae_moment env) (ae_rows env) (ae_apply env) (new_gateway s, new_bridge) of
                       (g, b, tasks) \<Rightarrow>
                         Inr \<lparr>ap_settings = s, ap_open = [EnginePool (db_pool_size s), CommandsClient, PubsubClient], ap_gateway = g,
                              ap_bridge = b, ap_tasks = tasks, ap_loop_lag = lag_start new_lag_monitor,
                              ap_backlog = start_backlog (ae_sample env) backlog\<rparr>))))"

definition api_stop :: "application \<Rightarrow> application" where
  "api_stop a =
     (case gateway_stop (ap_gateway a, ap_bridge a, ap_tasks a) of
        (g, b, tasks) \<Rightarrow>
          a\<lparr>ap_gateway := g, ap_bridge := b, ap_tasks := tasks, ap_backlog := stop_backlog (ap_backlog a),
            ap_loop_lag := lag_stop (ap_loop_lag a), ap_open := []\<rparr>)"

subsection \<open>Properties\<close>

text \<open>
  Every request is counted once, under the status its client sees: that of the handler of its exception, or 500 where
  there is none.
\<close>

lemma exceptions_are_counted_as_answered:
  assumes "sc_type sc = ''http''"
  shows "\<exists>verb path. MetricsMiddleware sc (exception_messages dumps e) =
    Some (verb, path, case handled dumps e of None \<Rightarrow> 500 | Some r \<Rightarrow> rs_status r)"
  using assms by (simp add: MetricsMiddleware_def exception_messages_def wrapped_send_def split: option.splits)

lemma lag_is_never_negative: "0 \<le> lg_last_lag_s (snd (lag_turn started ended m))"
  by (simp add: lag_turn_def Let_def)

lemma fresh_gate:
  assumes "valid_settings s"
  obtains b where "new_backlog (ingest_shards s) (ingest_backlog_high s) (ingest_backlog_low s) (ingest_backlog_poll_ms s) = Inr b"
    "gate_inv b" "\<not> bl_running b" "\<not> bl_throttled b"
proof -
  have "ingest_backlog_low s < ingest_backlog_high s" "1 \<le> ingest_backlog_high s"
    using assms by (auto simp: valid_settings_checks field_checks_def check_backlog_watermarks_def)
  then show ?thesis using that by (simp add: new_backlog_def gate_inv_def)
qed

lemma started_gate: "gate_inv b \<Longrightarrow> \<not> bl_running b \<Longrightarrow> gate_inv (start_backlog sample b) \<and> bl_running (start_backlog sample b)"
  using gate.step_keeps [of b sample] by (simp add: start_backlog_def gate_inv_def)

text \<open>An API replica comes up whatever its dependencies do, once the queue has answered with its own shard count or with
  none: without the database it serves from a cold picture, without a backlog sample with an open gate, without its first
  subscription with a reader that repairs it. Its loops run, and the invariants of gateway and gate hold. A replica that
  disagrees with the queue opens nothing.\<close>

theorem api_starts_whatever_its_dependencies_do:
  assumes "valid_settings s" "ae_recorded env = Some found"
  shows "if found = None \<or> found = Some (str_int (ingest_shards s))
    then (case api_start s env of Inl e \<Rightarrow> False
          | Inr a \<Rightarrow> gw_inv dumps (ap_gateway a) \<and> delivering (ap_bridge a) \<and> gate_inv (ap_backlog a) \<and> bl_running (ap_backlog a) \<and>
              lg_running (ap_loop_lag a) \<and> length (ap_tasks a) = 3 \<and> (ae_sample env = None \<longrightarrow> \<not> bl_throttled (ap_backlog a)))
    else (\<exists>previous. found = Some previous \<and> api_start s env = Inl (OtherPartitioning (ingest_shards s) previous))"
proof (cases "found = None \<or> found = Some (str_int (ingest_shards s))")
  case True
  obtain backlog where fresh: "new_backlog (ingest_shards s) (ingest_backlog_high s) (ingest_backlog_low s) (ingest_backlog_poll_ms s) = Inr backlog"
      "gate_inv backlog" "\<not> bl_running backlog" "\<not> bl_throttled backlog"
    by (rule fresh_gate [OF assms(1)])
  obtain g b tasks where gw: "gateway_start (ae_now env) (ae_moment env) (ae_rows env) (ae_apply env) (new_gateway s, new_bridge) = (g, b, tasks)"
    by (metis prod_cases3)
  have ok: "gw_inv dumps g" "delivering b" "length tasks = 3" using gateway_start_ok [OF gw_inv_new [OF assms(1)] gw] by auto
  obtain held where "edge_verify_shard_count (ingest_shards s) found = Inr held" using True by (auto simp: edge_verify_shard_count_def)
  then have "api_start s env = Inr \<lparr>ap_settings = s, ap_open = [EnginePool (db_pool_size s), CommandsClient, PubsubClient], ap_gateway = g,
      ap_bridge = b, ap_tasks = tasks, ap_loop_lag = lag_start new_lag_monitor, ap_backlog = start_backlog (ae_sample env) backlog\<rparr>"
    by (simp add: api_start_def assms(2) fresh(1) gw)
  with True ok started_gate [OF fresh(2, 3), of "ae_sample env"] fresh(3, 4) show ?thesis
    by (simp add: lag_start_def new_lag_monitor_def start_backlog_def poll_def)
next
  case False
  then show ?thesis by (auto simp: api_start_def assms(2) edge_verify_shard_count_def)
qed

text \<open>Nothing answers at a start: no rows, no sample, no subscription.\<close>

definition hard_start :: api_env where
  "hard_start = \<lparr>ae_recorded = Some None, ae_sample = None, ae_now = 0, ae_moment = 0, ae_rows = None,
     ae_apply = \<lparr>ae_unsubscribed = False, ae_subscribed = False\<rparr>\<rparr>"

theorem api_starts_whatever_its_dependencies_do_witness:
  "case api_start default_settings hard_start of Inl e \<Rightarrow> False | Inr a \<Rightarrow> delivering (ap_bridge a) \<and> length (ap_tasks a) = 3"
  using api_starts_whatever_its_dependencies_do [OF default_settings_valid, of hard_start None]
  by (auto simp: hard_start_def split: sum.splits)

text \<open>
  The shutdown: no task, reader, monitor or pool is left, every client in the registry was asked to leave, and the
  invariant of the gateway still holds.
\<close>

lemma api_stop_leaves_nothing:
  assumes "gw_inv dumps (ap_gateway a)"
  defines "z \<equiv> api_stop a"
  shows "ap_tasks z = []" "ap_open z = []" "\<not> delivering (ap_bridge z)" "\<not> bl_running (ap_backlog z)" "\<not> lg_running (ap_loop_lag z)"
    "gw_inv dumps (ap_gateway z)"
    "(k, c) \<in> set (gw_conns (ap_gateway z)) \<Longrightarrow> k \<in> set (all_connections (gw_registry (ap_gateway z))) \<Longrightarrow> cn_closing c"
proof -
  have z: "ap_gateway z = gw_stop (ap_gateway a)" by (simp add: z_def api_stop_def gateway_stop_def)
  show "gw_inv dumps (ap_gateway z)" unfolding z gw_stop_def by (intro gw_inv_on_conns client_ok_ops assms(1))
  show "cn_closing c" if "(k, c) \<in> set (gw_conns (ap_gateway z))" "k \<in> set (all_connections (gw_registry (ap_gateway z)))"
    using that by (auto simp: z gw_stop_def on_conns_def request_close_def split: if_splits)
qed (simp_all add: z_def api_stop_def gateway_stop_def bridge_stop_def delivering_def stop_backlog_def lag_stop_def)

text \<open>(C31) No accepted report lands where nobody reads: when an API replica and a processor have both agreed with the queue on
  the number of shards, whichever of the two recorded it, every entry that the edge appends goes to the stream of
  a shard that the processors distribute among themselves.\<close>

theorem every_queued_report_has_a_reader:
  assumes "valid_settings s" "int_of (str_int (ingest_shards s)) = Some (ingest_shards s)"
    "edge_verify_shard_count (ingest_shards s) found = Inr held" "int_of held = Some n" "verify_shard_count cfg (Some n) = Inr ()"
    "xadds dumps (ingest_shards s) ms reports = Inr entries"
  shows "length entries = length reports \<and> fst ` set entries \<subseteq> ingest_stream ` {0..<lm_shards (rs_lease (open_resources cfg instance_id))}"
proof -
  have "held = str_int (ingest_shards s)" using assms(3) by (auto simp: edge_verify_shard_count_def split: option.splits if_splits)
  then have same: "ingest_shards cfg = ingest_shards s" using assms(2, 4, 5) by (auto simp: verify_shard_count_def split: if_splits)
  have pos: "1 \<le> ingest_shards s" using valid_ingest_settings [OF assms(1)] by simp
  have "entries = map (queued_entry dumps s ms) reports" using assms(6) xadds_all [OF pos] by simp
  moreover have "fst (queued_entry dumps s ms r) \<in> ingest_stream ` {0..<ingest_shards s}" for r
    using pos by (auto simp: queued_entry_def shard_index_def)
  ultimately show ?thesis by (auto simp: open_resources_def lease_manager_init_def same)
qed

definition parked_report :: location_report where
  "parked_report = \<lparr>re_device_id = ''dev-00001'', re_latitude = 50, re_longitude = 30, re_timestamp = 1700000000000000\<rparr>"

theorem every_queued_report_has_a_reader_witness:
  "fst (queued_entry plain_dumps default_settings 5 parked_report) \<in> ingest_stream ` {0..<lm_shards (rs_lease (open_resources default_settings ''proc-a''))}"
proof -
  have shards: "ingest_shards default_settings = 8" by (simp add: default_settings_def)
  have "xadds plain_dumps (ingest_shards default_settings) 5 [parked_report] = Inr [queued_entry plain_dumps default_settings 5 parked_report]"
    using xadds_all [of default_settings plain_dumps 5 "[parked_report]"] by (simp add: shards)
  from every_queued_report_has_a_reader [OF default_settings_valid, of "\<lambda>t. if t = str_int 8 then Some 8 else None" None "str_int 8" 8 default_settings,
      OF _ _ _ _ this, of "''proc-a''"]
  show ?thesis by (simp add: shards edge_verify_shard_count_def verify_shard_count_def)
qed

end
