(* ===== verification/Delivery.thy ===== *)
theory Delivery
  imports Publisher Gateway
begin

text \<open>
  From a committed batch to the dashboards: the messages of \<^verbatim>\<open>processor/publisher.py\<close> as the bridge of a replica hears them,
  with the handlers that \<^verbatim>\<open>Gateway.__init__\<close> gives it (\<^verbatim>\<open>realtime/gateway.py\<close>). Redis hands the messages of a channel to its
  subscribers in the order of publication; what else is published in between is arbitrary.
\<close>

subsection \<open>Hearing a message\<close>

text \<open>The dispatch of the bridge, with the hub and the clients of the gateway behind its two handlers.\<close>

definition hear :: "decoders \<Rightarrow> message \<Rightarrow> gateway \<Rightarrow> gateway" where
  "hear dc m g =
     (case dispatch dc (fst m) (snd m) \<lparr>rv_hub = gw_hub g, rv_frames = []\<rparr> of
        (returned, rv) \<Rightarrow> fold (\<lambda>(u, frame). gw_deliver u frame) (rv_frames rv) (g\<lparr>gw_hub := rv_hub rv\<rparr>))"

text \<open>The frames that a sequence of messages is worth to one connection, in order.\<close>

definition frames_to :: "decoders \<Rightarrow> registry \<Rightarrow> int \<Rightarrow> message list \<Rightarrow> bytes list" where
  "frames_to dc r k ms = concat (map (\<lambda>m. map snd (filter (\<lambda>(u, frame). k \<in> set (for_user r u)) (user_frame dc m))) ms)"

subsection \<open>The picture\<close>

lemma finite_prefix_lift: "finite_prefix (map lift_item items) = (items, True)"
  by (induction items) (auto simp: lift_item_def)

lemma deliver_frame [simp]:
  "gw_hub (gw_deliver u frame g) = gw_hub g" "gw_registry (gw_deliver u frame g) = gw_registry g"
  by (simp_all add: gw_deliver_def on_conns_def)

lemma delivers_frame [simp]:
  "gw_hub (fold (\<lambda>(u, frame). gw_deliver u frame) fs g) = gw_hub g"
  "gw_registry (fold (\<lambda>(u, frame). gw_deliver u frame) fs g) = gw_registry g"
  by (induction fs arbitrary: g) auto

lemma hear_registry [simp]: "gw_registry (hear dc m g) = gw_registry g"
  by (simp add: hear_def split: prod.splits)

lemma hears_registry [simp]: "gw_registry (fold (hear dc) ms g) = gw_registry g"
  by (induction ms arbitrary: g) auto

lemma hear_hub: "\<exists>items. gw_hub (hear dc m g) = hub_apply items (gw_hub g)"
  by (auto simp: hear_def dispatch_def hub_apply_def intro: exI [of _ "[]"] split: prod.splits option.splits sum.splits)

lemma hear_positions:
  assumes "gives_back dumps (dc_loads dc) (JObj [(''items'', JList (map item_json items))])"
  shows "gw_hub (hear dc (POSITIONS_CHANNEL, encode_positions dumps items) g) = hub_apply items (gw_hub g)"
  using decode_encode_positions [of "dc_loads dc" dumps items] assms
  by (simp add: hear_def dispatch_def finite_prefix_lift gives_back_def encode_positions_def)

text \<open>What a replica shows of a device never gets older by hearing.\<close>

lemma hearing_keeps:
  assumes "shown_ms (gw_hub g) d = Some t"
  shows "\<exists>u. shown_ms (gw_hub (fold (hear dc) ms g)) d = Some u \<and> t \<le> u"
  using assms
proof (induction ms arbitrary: g t)
  case (Cons m ms)
  obtain items where "gw_hub (hear dc m g) = foldl apply_item (gw_hub g) items" using hear_hub [of dc m g] by (auto simp: hub_apply_def)
  with hub_newest.look_keeps [OF Cons.prems, of items] obtain u where "shown_ms (gw_hub (hear dc m g)) d = Some u" "t \<le> u" by auto
  with Cons.IH [of "hear dc m g" u] show ?case by fastforce
qed simp

lemma heard_position_is_shown:
  assumes "gives_back dumps (dc_loads dc) (JObj [(''items'', JList (map item_json items))])"
    "(POSITIONS_CHANNEL, encode_positions dumps items) \<in> set ms" "item \<in> set items"
  shows "\<exists>t. shown_ms (gw_hub (fold (hear dc) ms g)) (fst item) = Some t \<and> item_ms item \<le> t"
proof -
  obtain before after where ms: "ms = before @ (POSITIONS_CHANNEL, encode_positions dumps items) # after" using assms(2) by (metis split_list)
  define g1 where "g1 = hear dc (POSITIONS_CHANNEL, encode_positions dumps items) (fold (hear dc) before g)"
  have "gw_hub g1 = foldl apply_item (gw_hub (fold (hear dc) before g)) items"
    using hear_positions [OF assms(1)] by (simp add: g1_def hub_apply_def)
  with hub_newest.look_foldl_covers [OF assms(3)] obtain t where t: "shown_ms (gw_hub g1) (fst item) = Some t" "item_ms item \<le> t" by auto
  from hearing_keeps [OF t(1), of dc after] t(2) show ?thesis by (auto simp: ms g1_def)
qed

subsection \<open>The clients\<close>

lemma send_control_cases:
  "cn_closing (send_control f c) \<or> \<not> cn_closing (send_control f c) \<and> cn_control (send_control f c) = cn_control c @ [f]"
  by (simp add: send_control_def request_close_def)

lemma send_controls_closing: "cn_closing c \<Longrightarrow> fold send_control fs c = c"
  by (induction fs) (simp_all add: send_control_def)

lemma send_controls:
  "cn_closing (fold send_control fs c) \<or> cn_control (fold send_control fs c) = cn_control c @ fs"
proof (induction fs arbitrary: c)
  case (Cons f fs)
  show ?case using send_control_cases [of f c] send_controls_closing [of "send_control f c" fs] Cons.IH [of "send_control f c"] by auto
qed simp

lemma map_of_deliver:
  "map_of (gw_conns (gw_deliver u frame g)) k =
     map_option (if k \<in> set (for_user (gw_registry g) u) then send_control frame else id) (map_of (gw_conns g) k)"
proof -
  have "map_of (map (\<lambda>(k, c). (k, if k \<in> S then f c else c)) xs) k = map_option (if k \<in> S then f else id) (map_of xs k)"
    for S and f :: "connection \<Rightarrow> connection" and xs
    by (induction xs) auto
  then show ?thesis by (simp add: gw_deliver_def on_conns_def)
qed

lemma map_of_delivers:
  "map_of (gw_conns (fold (\<lambda>(u, frame). gw_deliver u frame) fs g)) k =
     map_option (fold send_control (map snd (filter (\<lambda>(u, frame). k \<in> set (for_user (gw_registry g) u)) fs))) (map_of (gw_conns g) k)"
  by (induction fs arbitrary: g) (auto simp: map_of_deliver option.map_comp o_def option.map_id split: prod.splits)

lemma map_of_hears:
  "map_of (gw_conns (fold (hear dc) ms g)) k = map_option (fold send_control (frames_to dc (gw_registry g) k ms)) (map_of (gw_conns g) k)"
proof (induction ms arbitrary: g)
  case (Cons m ms)
  have "rv_frames (snd (dispatch dc (fst m) (snd m) \<lparr>rv_hub = gw_hub g, rv_frames = []\<rparr>)) = user_frame dc m"
    by (simp add: dispatch_frames)
  then have "map_of (gw_conns (hear dc m g)) k = map_option (fold send_control (frames_to dc (gw_registry g) k [m])) (map_of (gw_conns g) k)"
    by (auto simp: hear_def map_of_delivers frames_to_def split: prod.splits)
  then show ?case by (simp add: Cons.IH option.map_comp o_def frames_to_def)
qed (simp add: frames_to_def option.map_id)

subsection \<open>From the batch to the dashboards\<close>

text \<open>What a replica hears of a batch whose fan-out met no error: the messages of the batch are among what it hears.\<close>

lemma published_messages:
  assumes "\<And>i. i < length (fan_out dumps isofmt res) \<Longrightarrow> outcome i = None"
  shows "publish dumps isofmt outcome res = intended dumps isofmt res"
proof (cases "is_empty res")
  case True
  then show ?thesis by (simp add: publish_def is_empty_def intended_def alert_messages_def)
next
  case False
  have "flush_all outcome 0 (fan_out dumps isofmt res) = concat (fan_out dumps isofmt res)" using assms by (intro flush_all_ok) simp
  with False show ?thesis by (simp add: publish_def fan_out_def intended_def fan_out_alerts_concat)
qed

text \<open>(C8) An accepted position is on every dashboard's map: once a replica has heard the messages of a batch, with anything
  published before, in between and after, it shows every device of the batch at least as new as the batch accepted it.\<close>

theorem accepted_positions_are_shown:
  assumes "\<And>i. i < length (fan_out dumps isofmt res) \<Longrightarrow> outcome i = None" "set (publish dumps isofmt outcome res) \<subseteq> set ms"
    "gives_back dumps (dc_loads dc) (JObj [(''items'', JList (map item_json (br_accepted res)))])" "item \<in> set (br_accepted res)"
  shows "\<exists>t. shown_ms (gw_hub (fold (hear dc) ms g)) (fst item) = Some t \<and> item_ms item \<le> t"
proof -
  have "publish dumps isofmt outcome res = intended dumps isofmt res" by (rule published_messages) (rule assms(1))
  with assms(2, 4) have "(POSITIONS_CHANNEL, encode_positions dumps (br_accepted res)) \<in> set ms" by (auto simp: intended_def split: if_splits)
  from heard_position_is_shown [OF assms(3) this assms(4)] show ?thesis .
qed

text \<open>(C7) A committed alert reaches every session of its owner: once a replica has heard the messages of a batch, each
  connection has got the frames for its user in the order of publication behind what was waiting, the
  alerts of the batch among them, unless the replica has given the connection up as too slow.\<close>

theorem committed_alerts_reach_their_owner:
  assumes "apply_batch bp pg shard now envs records db = (Inr res, db')"
    "\<And>i. i < length (fan_out dumps isofmt res) \<Longrightarrow> outcome i = None" "set (publish dumps isofmt outcome res) \<subseteq> set ms"
    "alert \<in> set (br_alerts res)" "dc_uuid_of dc (uuid_str (al_user_id alert)) = Some (al_user_id alert)"
    "dc_utf8 dc (user_channel (al_user_id alert))" "\<And>j. dc_utf8 dc (dumps j)"
    "k \<in> set (for_user (gw_registry g) (al_user_id alert))" "map_of (gw_conns g) k = Some c"
  shows "\<exists>c' frame. map_of (gw_conns (fold (hear dc) ms g)) k = Some c' \<and> frame_for dumps isofmt alert = Some frame \<and>
    frame \<in> set (frames_to dc (gw_registry g) k ms) \<and> (cn_closing c' \<or> cn_control c' = cn_control c @ frames_to dc (gw_registry g) k ms)"
proof -
  obtain frame where frame: "frame_for dumps isofmt alert = Some frame"
      "(user_channel (al_user_id alert), frame) \<in> set (intended dumps isofmt res)"
    using every_batch_alert_is_sent [OF assms(1, 4)] by blast
  have "publish dumps isofmt outcome res = intended dumps isofmt res" by (rule published_messages) (rule assms(2))
  then have heard: "(user_channel (al_user_id alert), frame) \<in> set ms" using frame(2) assms(3) by auto
  have "dc_utf8 dc frame" using frame(1) assms(7) by (auto simp: frame_for_def alert_frame_def)
  then have "user_frame dc (user_channel (al_user_id alert), frame) = [(al_user_id alert, frame)]"
    using assms(5, 6) user_id_round_trip [of "dc_uuid_of dc" "al_user_id alert"] by (simp add: user_frame_def)
  then have "frame \<in> set (frames_to dc (gw_registry g) k ms)" using heard assms(8) by (force simp: frames_to_def)
  with frame(1) assms(9) send_controls show ?thesis by (auto simp: map_of_hears)
qed

text \<open>A batch with one position and one alert, and a replica on which its owner has a session.\<close>

definition plain_decoders :: decoders where
  "plain_decoders =
     \<lparr>dc_loads = (\<lambda>b. Inr (JObj [(''items'', JList (map item_json (br_accepted sample_result)))])), dc_float_of = (\<lambda>_. None), dc_int_of = (\<lambda>_. None),
      dc_uuid_of = (\<lambda>s. if s = uuid_str 1 then Some 1 else None), dc_utf8 = (\<lambda>_. True)\<rparr>"

definition owner_online :: gateway where
  "owner_online = snd (admit 5 1 sample_dashboard (new_gateway default_settings))"

lemma owner_session: "for_user (gw_registry owner_online) 1 = [5]" "\<exists>c. map_of (gw_conns owner_online) 5 = Some c"
  by (simp_all add: owner_online_def admit_def new_gateway_def empty_registry_def add_connection_def for_user_def enter_sync_def default_settings_def Let_def)

theorem accepted_positions_are_shown_witness:
  "\<exists>t. shown_ms (gw_hub (fold (hear plain_decoders) (publish plain_dumps (\<lambda>_. ''now'') (\<lambda>_. None) sample_result) owner_online)) ''dev-1'' = Some t \<and> 3 \<le> t"
  using accepted_positions_are_shown [of plain_dumps "\<lambda>_. ''now''" sample_result "\<lambda>_. None"
      "publish plain_dumps (\<lambda>_. ''now'') (\<lambda>_. None) sample_result" plain_decoders "(''dev-1'', 1, 2, 3)" owner_online]
  by (simp add: plain_decoders_def gives_back_def sample_result_def item_ms_def)

theorem committed_alerts_reach_their_owner_witness:
  "\<exists>res db' c'. apply_batch sample_processor flat_earth 0 sample_now (\<lambda>_. sample_env) [sample_record] sample_db = (Inr res, db') \<and>
     map_of (gw_conns (fold (hear plain_decoders) (publish plain_dumps (\<lambda>_. ''now'') (\<lambda>_. None) res) owner_online)) 5 = Some c' \<and>
     (cn_closing c' \<or> cn_control c' \<noteq> [])"
proof -
  let ?run = "apply_batch sample_processor flat_earth 0 sample_now (\<lambda>_. sample_env) [sample_record] sample_db"
  obtain res db' where ok: "?run = (Inr res, db')" and owners: "map al_user_id (br_alerts res) = [1]" by (rule sample_batch)
  obtain a where a: "a \<in> set (br_alerts res)" and u: "al_user_id a = 1" using owners by (cases "br_alerts res") auto
  obtain c where c: "map_of (gw_conns owner_online) 5 = Some c" using owner_session(2) by blast
  from committed_alerts_reach_their_owner [OF ok, of plain_dumps "\<lambda>_. ''now''" "\<lambda>_. None" "publish plain_dumps (\<lambda>_. ''now'') (\<lambda>_. None) res" a
      plain_decoders 5 owner_online c] a u c owner_session(1)
  obtain c' frame where "map_of (gw_conns (fold (hear plain_decoders) (publish plain_dumps (\<lambda>_. ''now'') (\<lambda>_. None) res) owner_online)) 5 = Some c'"
      "frame \<in> set (frames_to plain_decoders (gw_registry owner_online) 5 (publish plain_dumps (\<lambda>_. ''now'') (\<lambda>_. None) res))"
      "cn_closing c' \<or> cn_control c' = cn_control c @ frames_to plain_decoders (gw_registry owner_online) 5 (publish plain_dumps (\<lambda>_. ''now'') (\<lambda>_. None) res)"
    by (auto simp: plain_decoders_def)
  with ok show ?thesis by fastforce
qed

end
