(* ===== verification/Ownership.thy ===== *)
theory Ownership
  imports Consumer
begin

text \<open>
  The consumers of one shard on several replicas, with the lease they renew before they write
  (\<^verbatim>\<open>ShardConsumer._still_leased\<close> in \<^verbatim>\<open>processor/consumer.py\<close>, over \<^verbatim>\<open>ShardLeaseManager.renew\<close> in \<^verbatim>\<open>processor/leases.py\<close>). They share the
  Redis store and the database. The effects of a turn are placed at the time of its renewal; a batch that outlives its
  lease is covered by the harmlessness of redelivery.
\<close>

subsection \<open>A turn under its lease\<close>

text \<open>The turn reaches the renewal when both reads succeeded and there is something to handle.\<close>

definition asks_for_lease :: "consumer_env \<Rightarrow> bool" where
  "asks_for_lease env = (case (ce_read env, ce_xlen env) of (Inr (e # es), Inr n) \<Rightarrow> True | _ \<Rightarrow> False)"

text \<open>
  \<^verbatim>\<open>_still_leased\<close>: a failure of the call is the \<open>Inl\<close> of \<open>ce_renew\<close>; the script may have run all the same (\<open>applied\<close>).
\<close>

definition still_leased :: "'s redis \<Rightarrow> lease_manager \<Rightarrow> int \<Rightarrow> millis \<Rightarrow> bool \<Rightarrow> consumer_env \<Rightarrow> 's \<Rightarrow> (redis_failure + bool) \<times> 's" where
  "still_leased r lm shard t applied env s =
     (case renew r lm shard t s of
        (held, s1) \<Rightarrow> (case ce_renew env of Inl e \<Rightarrow> (Inl e, if applied then s1 else s) | Inr _ \<Rightarrow> (Inr held, s1)))"

definition leased_turn :: "'s redis \<Rightarrow> lease_manager \<Rightarrow> consumer_config \<Rightarrow> millis \<Rightarrow> bool \<Rightarrow> consumer_env \<Rightarrow> consumer \<Rightarrow> 's \<Rightarrow> consumer \<times> 's" where
  "leased_turn r lm cfg t applied env c s =
     (if asks_for_lease env then
        (case still_leased r lm (cc_shard cfg) t applied env s of (answer, s1) \<Rightarrow> (consumer_step cfg (env\<lparr>ce_renew := answer\<rparr>) c, s1))
      else (consumer_step cfg env c, s))"

subsection \<open>The replicas of a shard\<close>

record 's cluster =
  cu_store :: 's
  cu_db :: db
  cu_consumers :: "consumer list"

datatype shard_act = ConsumerTurn nat bool consumer_env | LeaseAct lease_act

definition cluster_step :: "'s redis \<Rightarrow> lease_manager list \<Rightarrow> consumer_config \<Rightarrow> millis \<times> shard_act \<Rightarrow> 's cluster \<Rightarrow> 's cluster" where
  "cluster_step r members cfg ta cl =
     (case ta of
        (t, LeaseAct a) \<Rightarrow> cl\<lparr>cu_store := snd (lease_step r (cc_shard cfg) t a (cu_store cl))\<rparr>
      | (t, ConsumerTurn i applied env) \<Rightarrow>
          if i < length (cu_consumers cl) \<and> i < length members \<and> \<not> cs_stopping (cu_consumers cl ! i) then
            (case leased_turn r (members ! i) cfg t applied env ((cu_consumers cl ! i)\<lparr>cs_db := cu_db cl\<rparr>) (cu_store cl) of
               (c, s) \<Rightarrow> cl\<lparr>cu_store := s, cu_db := cs_db c, cu_consumers := (cu_consumers cl)[i := c]\<rparr>)
          else cl)"

definition by_member :: "lease_manager list \<Rightarrow> shard_act \<Rightarrow> string option" where
  "by_member members a =
     (case a of LeaseAct b \<Rightarrow> Some (act_by b)
      | ConsumerTurn i applied env \<Rightarrow> if i < length members then Some (lm_instance_id (members ! i)) else None)"

text \<open>What the world sees of the consumers: the tables, and the messages, acknowledgements and dead letters of each.\<close>

definition effects :: "consumer \<Rightarrow> message list \<times> bytes list \<times> dead_letter list" where
  "effects c = (cs_sent c, cs_acked c, cs_dead_letters c)"

definition written :: "'s cluster \<Rightarrow> db \<times> (message list \<times> bytes list \<times> dead_letter list) list" where
  "written cl = (cu_db cl, map effects (cu_consumers cl))"

subsection \<open>One writer\<close>

lemma idle_turn:
  assumes "\<not> (asks_for_lease env \<and> ce_renew env = Inr True)"
  shows "effects (consumer_step cfg env c) = effects c" "cs_db (consumer_step cfg env c) = cs_db c"
  using assms
  by (auto simp: consumer_step_def asks_for_lease_def effects_def sleep_backoff_def request_stop_def Let_def
      split: sum.splits list.splits redis_failure.splits bool.splits)

lemma writing_turn_is_leased:
  assumes "leased_turn r lm cfg t applied env c s = (c', s')" "effects c' \<noteq> effects c \<or> cs_db c' \<noteq> cs_db c"
  shows "renew r lm (cc_shard cfg) t s = (True, s')"
proof -
  have asks: "asks_for_lease env" using assms idle_turn [of env cfg c] by (auto simp: leased_turn_def split: if_splits)
  obtain answer where a: "still_leased r lm (cc_shard cfg) t applied env s = (answer, s')" "c' = consumer_step cfg (env\<lparr>ce_renew := answer\<rparr>) c"
    using assms(1) asks by (auto simp: leased_turn_def split: prod.splits)
  have "answer = Inr True" using assms(2) a(2) idle_turn [of "env\<lparr>ce_renew := answer\<rparr>" cfg c] by auto
  with a(1) show ?thesis by (auto simp: still_leased_def split: prod.splits sum.splits)
qed

lemma refused_turn:
  assumes "redis_laws r" "held_by r s t (cc_shard cfg) = Some me" "lm_instance_id lm \<noteq> me" "leased_turn r lm cfg t applied env c s = (c', s')"
  shows "effects c' = effects c" "cs_db c' = cs_db c" "s' = s"
proof -
  have no: "renew r lm (cc_shard cfg) t s = (False, s)"
    using lease_step_other [OF assms(2) _ assms(1), of "Renew lm"] assms(3) by simp
  then show "effects c' = effects c" "cs_db c' = cs_db c" using writing_turn_is_leased [OF assms(4)] by auto
  show "s' = s" using assms(4) no by (auto simp: leased_turn_def still_leased_def split: if_splits prod.splits sum.splits)
qed

lemma other_member_step:
  assumes "redis_laws r" "held_by r (cu_store cl) t (cc_shard cfg) = Some me" "by_member members a \<noteq> Some me"
  shows "written (cluster_step r members cfg (t, a) cl) = written cl \<and> cu_store (cluster_step r members cfg (t, a) cl) = cu_store cl"
proof (cases a)
  case (LeaseAct b)
  with assms lease_step_other [OF assms(2) _ assms(1), of b] show ?thesis by (simp add: cluster_step_def by_member_def written_def)
next
  case (ConsumerTurn i applied env)
  show ?thesis
  proof (cases "i < length (cu_consumers cl) \<and> i < length members \<and> \<not> cs_stopping (cu_consumers cl ! i)")
    case True
    obtain c s where turn: "leased_turn r (members ! i) cfg t applied env ((cu_consumers cl ! i)\<lparr>cs_db := cu_db cl\<rparr>) (cu_store cl) = (c, s)" by fastforce
    have "lm_instance_id (members ! i) \<noteq> me" using assms(3) True ConsumerTurn by (simp add: by_member_def)
    from refused_turn [OF assms(1, 2) this turn] have same: "effects c = effects (cu_consumers cl ! i)" "cs_db c = cu_db cl" "s = cu_store cl"
      by (simp_all add: effects_def)
    have "map effects ((cu_consumers cl)[i := c]) = map effects (cu_consumers cl)"
      using True same(1) by (simp add: map_update) (metis list_update_id nth_map)
    with True ConsumerTurn turn same show ?thesis by (simp add: cluster_step_def written_def)
  qed (auto simp: cluster_step_def ConsumerTurn)
qed


text \<open>Two replicas: the first holds the lease and sends an unreadable entry to the dead letters, the second tries everything.\<close>

definition garbage_turn :: consumer_env where
  "garbage_turn = sample_turn\<lparr>ce_read := Inr [(''2-0'', [(''r'', ''garbage'')])], ce_xackdel := None\<rparr>"

definition two_replicas :: "(string \<times> string \<times> millis) list cluster" where
  "two_replicas = \<lparr>cu_store = snd (acquire kv_redis replica_a 0 0 []), cu_db = sample_db, cu_consumers = [consumer_init sample_db, consumer_init sample_db]\<rparr>"

definition after_first :: "(string \<times> string \<times> millis) list cluster" where
  "after_first = cluster_step kv_redis [replica_a, replica_b] sample_config (10, ConsumerTurn 0 True garbage_turn) two_replicas"

lemma first_replica_writes: "written after_first \<noteq> written two_replicas"
proof -
  define s where "s = cu_store two_replicas"
  have held: "fst (renew kv_redis replica_a 0 10 s)"
    by (simp add: s_def two_replicas_def acquire_def renew_def RENEW_SCRIPT_def kv_redis_def replica_a_def lease_manager_init_def)
  have dec: "decode_entries (cc_loads sample_config) [(''2-0'', [(''r'', ''garbage'')])] =
      ([], [], [\<lparr>dl_entry_id = ''2-0'', dl_raw = ''garbage'', dl_error = ''invalid json: bad''\<rparr>])"
    by code_simp
  have "cs_acked (consumer_step sample_config (garbage_turn\<lparr>ce_renew := Inr True\<rparr>) (consumer_init sample_db)) = [''2-0'']"
    using dec by (simp add: consumer_step_def handle_def write_dead_letters_def acknowledge_def garbage_turn_def sample_turn_def consumer_init_def Let_def)
  moreover have "(consumer_init sample_db)\<lparr>cs_db := sample_db\<rparr> = consumer_init sample_db" by (simp add: consumer_init_def)
  moreover have "cc_shard sample_config = 0" "asks_for_lease garbage_turn" "ce_renew garbage_turn = Inr True" "\<not> cs_stopping (consumer_init sample_db)"
    by (simp_all add: sample_config_def asks_for_lease_def garbage_turn_def sample_turn_def consumer_init_def)
  ultimately have "cs_acked (cu_consumers after_first ! 0) = [''2-0'']"
    using held by (auto simp: after_first_def cluster_step_def leased_turn_def still_leased_def two_replicas_def s_def split: prod.splits)
  moreover have "cs_acked (cu_consumers two_replicas ! 0) = []" "length (cu_consumers two_replicas) = 2" by (simp_all add: two_replicas_def consumer_init_def)
  ultimately have "effects (cu_consumers after_first ! 0) \<noteq> effects (cu_consumers two_replicas ! 0)" by (simp add: effects_def)
  moreover have "length (cu_consumers after_first) = 2" by (simp add: after_first_def cluster_step_def two_replicas_def split: prod.splits)
  ultimately show ?thesis by (auto simp: written_def two_replicas_def dest!: arg_cong [of _ _ "\<lambda>xs. xs ! 0"])
qed


end
