(* ===== verification/ShardLife.thy ===== *)
theory ShardLife
  imports Service
begin

text \<open>
  The contract of the control plane for one shard: the states that a shard goes through on a replica, as a transition
  relation, and the proof that every step of \<^verbatim>\<open>processor/service.py\<close> (theory \<open>Service\<close>) moves every shard along it. The relation is
  what the comments of that module promise: the control plane never waits for a consumer, and a shard that winds down is
  not read again before its consumer has finished.
\<close>

subsection \<open>The life of a shard\<close>

text \<open>
  \<open>Reading\<close> says whether the consumer has ended without being asked to, \<open>WindingDown\<close> whether the lease is still the replica's to
  give back.
\<close>

datatype life = Idle | Acquiring | Reading bool | WindingDown bool

inductive moves :: "life \<Rightarrow> life \<Rightarrow> bool" where
  asks: "moves Idle Acquiring"
| is_refused: "moves Acquiring Idle"
| takes: "moves Acquiring (Reading False)"
| breaks: "moves (Reading False) (Reading True)"
| hands_back: "moves (Reading broken) (WindingDown True)"
| loses: "moves (Reading broken) (WindingDown False)"
| loses_late: "moves (WindingDown True) (WindingDown False)"
| finishes: "moves (WindingDown ours) Idle"

code_pred moves .

inductive_cases from_idle: "moves Idle x"
inductive_cases from_winding_down: "moves (WindingDown ours) x"
inductive_cases to_reading: "moves x (Reading broken)"
inductive_simps moves_simps:
  "moves Idle x" "moves Acquiring x" "moves (Reading b) x" "moves (WindingDown b) x"

definition life_of :: "service \<Rightarrow> int \<Rightarrow> life" where
  "life_of s shard =
     (case map_of (sv_consumers s) shard of
        Some broken \<Rightarrow> Reading broken
      | None \<Rightarrow>
          (case map_of (sv_draining s) shard of
             Some ours \<Rightarrow> WindingDown ours
           | None \<Rightarrow> if sv_acquiring s = Some shard then Acquiring else Idle))"

subsection \<open>What the operations do to a life\<close>

lemma life_frame [simp]:
  "life_of (s\<lparr>sv_asked := a\<rparr>) = life_of s" "life_of (s\<lparr>sv_candidates := cs\<rparr>) = life_of s" "life_of (s\<lparr>sv_target := n\<rparr>) = life_of s"
  "life_of (s\<lparr>sv_last_heartbeat_ms := t\<rparr>) = life_of s" "life_of (s\<lparr>sv_released := r\<rparr>) = life_of s"
  by (auto simp: life_of_def fun_eq_iff split: option.splits)

lemma life_begin_drain:
  "life_of (begin_drain ours x s) shard =
     (case life_of s shard of Reading broken \<Rightarrow> if shard = x then WindingDown ours else Reading broken | l \<Rightarrow> l)"
  by (auto simp: life_of_def begin_drain_def update_conv' delete_conv' split: option.splits)

lemma life_fold_drain:
  "life_of (fold (begin_drain ours) xs s) shard =
     (case life_of s shard of Reading broken \<Rightarrow> if shard \<in> set xs then WindingDown ours else Reading broken | l \<Rightarrow> l)"
  by (induction xs arbitrary: s) (auto simp: life_begin_drain split: life.splits)

lemma life_lose_lease:
  assumes "service_inv s"
  shows "life_of (lose_lease x s) shard =
     (case life_of s shard of
        Reading broken \<Rightarrow> if shard = x then WindingDown False else Reading broken
      | WindingDown ours \<Rightarrow> if shard = x then WindingDown False else WindingDown ours
      | l \<Rightarrow> l)"
proof (cases "map_of (sv_draining s) x")
  case None
  then have "life_of s x \<noteq> WindingDown b" for b by (auto simp: life_of_def split: option.splits)
  then show ?thesis using None by (auto simp: lose_lease_def life_begin_drain split: life.splits)
next
  case (Some ours)
  then have "x \<in> set (keys (sv_draining s))" by (force dest: map_of_SomeD)
  then have "x \<notin> set (keys (sv_consumers s))" using assms by (auto simp: service_inv_def roles_ok_def)
  then have "map_of (sv_consumers s) x = None" by (simp add: map_of_None_keys)
  with Some show ?thesis by (auto simp: lose_lease_def life_of_def update_conv' split: option.splits)
qed

lemma life_fold_lose:
  "service_inv s \<Longrightarrow> life_of (fold lose_lease xs s) shard =
     (case life_of s shard of
        Reading broken \<Rightarrow> if shard \<in> set xs then WindingDown False else Reading broken
      | WindingDown ours \<Rightarrow> if shard \<in> set xs then WindingDown False else WindingDown ours
      | l \<Rightarrow> l)"
proof (induction xs arbitrary: s)
  case (Cons x xs)
  show ?case using Cons.IH [OF service_inv_lose_lease [OF Cons.prems, of x]] life_lose_lease [OF Cons.prems, of x shard]
    by (auto split: life.splits)
qed (auto split: life.splits)

lemma life_drain_ends:
  assumes "service_inv s"
  shows "life_of (drain_ends x s) shard = (case life_of s shard of WindingDown ours \<Rightarrow> if shard = x then Idle else WindingDown ours | l \<Rightarrow> l)"
proof -
  have "sv_acquiring s \<noteq> Some shard" if "map_of (sv_draining s) shard = Some b" for b
  proof -
    have "shard \<in> set (keys (sv_draining s))" using that by (force dest: map_of_SomeD)
    then show ?thesis using assms by (auto simp: service_inv_def roles_ok_def)
  qed
  then show ?thesis by (auto simp: drain_ends_def life_of_def delete_conv' split: option.splits)
qed

lemma life_task_ends:
  "life_of (task_ends x s) shard = (case life_of s shard of Reading broken \<Rightarrow> if shard = x then Reading True else Reading broken | l \<Rightarrow> l)"
  by (auto simp: task_ends_def life_of_def update_conv' split: option.splits)

lemma life_try_candidate:
  assumes "service_inv s"
  shows "life_of (try_candidate s) shard = life_of s shard \<or> life_of s shard = Idle \<and> life_of (try_candidate s) shard = Acquiring"
  by (auto simp: try_candidate_def life_of_def split: list.splits option.splits)

lemma life_acquire_arrives:
  assumes "service_inv s"
  shows "life_of (acquire_arrives taken s) shard = (case life_of s shard of Acquiring \<Rightarrow> if taken then Reading False else Idle | l \<Rightarrow> l)"
proof (cases "sv_acquiring s")
  case (Some x)
  then have "x \<notin> set (keys (sv_consumers s))" "x \<notin> set (keys (sv_draining s))" using assms by (auto simp: service_inv_def roles_ok_def)
  then have "map_of (sv_consumers s) x = None" "map_of (sv_draining s) x = None" by (simp_all add: map_of_None_keys)
  with Some show ?thesis
    by (auto simp: acquire_arrives_def start_consumer_def life_of_def update_conv' Let_def split: option.splits)
qed (auto simp: acquire_arrives_def life_of_def split: option.splits)

lemma life_round_fails:
  "life_of (round_fails s) shard = (case life_of s shard of Acquiring \<Rightarrow> Idle | l \<Rightarrow> l)"
  by (auto simp: round_fails_def life_of_def split: option.splits)

lemma life_begin_round: "life_of (begin_round s) shard = life_of s shard \<or> (\<exists>b. life_of s shard = Reading b \<and> life_of (begin_round s) shard = WindingDown True)"
  by (auto simp: begin_round_def reap_finished_consumers_def Let_def life_fold_drain split: life.splits)

lemma life_plan_arrives:
  "life_of (plan_arrives now results s) shard = life_of s shard \<or> (\<exists>b. life_of s shard = Reading b \<and> life_of (plan_arrives now results s) shard = WindingDown True)"
  by (auto simp: plan_arrives_def Let_def life_fold_drain split: life.splits option.splits)

subsection \<open>Refinement\<close>

lemma step_moves:
  assumes "service_inv s"
  shows "life_of (service_step e s) shard = life_of s shard \<or> moves (life_of s shard) (life_of (service_step e s) shard)"
proof (cases e)
  case BeginRound
  then show ?thesis using life_begin_round [of s shard] by (auto simp: moves_simps)
next
  case (PlanArrives now results)
  then show ?thesis using life_plan_arrives [of now results s shard] by (auto simp: moves_simps)
next
  case TryCandidate
  then show ?thesis using life_try_candidate [OF assms, of shard] by (auto simp: moves_simps)
next
  case (AcquireArrives taken)
  then show ?thesis using life_acquire_arrives [OF assms, of taken shard] by (auto simp: moves_simps split: life.splits)
next
  case RoundFails
  then show ?thesis using life_round_fails [of s shard] by (auto simp: moves_simps split: life.splits)
next
  case (LeasesAnswered shards held)
  then show ?thesis by (auto simp: renew_leases_def life_fold_lose [OF assms] moves_simps split: life.splits)
next
  case (DrainEnds x)
  then show ?thesis using life_drain_ends [OF assms, of x shard] by (auto simp: moves_simps split: life.splits)
next
  case (TaskEnds x)
  then show ?thesis using life_task_ends [of x s shard] by (auto simp: moves_simps split: life.splits)
qed

lemma run_moves: "service_inv s \<Longrightarrow> moves\<^sup>*\<^sup>* (life_of s shard) (life_of (fold service_step es s) shard)"
proof (induction es arbitrary: s)
  case (Cons e es)
  have "moves\<^sup>*\<^sup>* (life_of s shard) (life_of (service_step e s) shard)" using step_moves [OF Cons.prems, of e shard] by auto
  with Cons.IH [OF control.step_keeps [OF Cons.prems, of e]] show ?case by simp
qed simp

text \<open>The lease is handed back exactly when a shard that was still the replica's has wound down.\<close>

lemma fold_drain_released [simp]: "sv_released (fold (begin_drain ours) xs s) = sv_released s"
  by (induction xs arbitrary: s) simp_all

lemma fold_lose_released [simp]: "sv_released (fold lose_lease xs s) = sv_released s"
proof (induction xs arbitrary: s)
  case (Cons x xs)
  have "sv_released (lose_lease x s) = sv_released s" by (simp add: lose_lease_def split: option.splits)
  with Cons show ?case by simp
qed simp

lemma released_frame:
  "sv_released (begin_round s) = sv_released s" "sv_released (plan_arrives now results s) = sv_released s" "sv_released (try_candidate s) = sv_released s"
  "sv_released (acquire_arrives taken s) = sv_released s" "sv_released (round_fails s) = sv_released s"
  "sv_released (renew_leases shards held s) = sv_released s" "sv_released (task_ends x s) = sv_released s"
  by (simp_all add: begin_round_def reap_finished_consumers_def plan_arrives_def try_candidate_def acquire_arrives_def start_consumer_def
      round_fails_def renew_leases_def task_ends_def Let_def split: option.splits list.splits)

lemma step_releases:
  assumes "service_inv s"
  shows "count_list (sv_released (service_step e s)) shard =
    count_list (sv_released s) shard + (if life_of s shard = WindingDown True \<and> life_of (service_step e s) shard = Idle then 1 else 0)"
proof (cases "\<exists>x. e = DrainEnds x")
  case True
  then obtain x where e: "e = DrainEnds x" by blast
  have "map_of (sv_draining s) shard = Some True \<longleftrightarrow> life_of s shard = WindingDown True"
  proof -
    have "map_of (sv_consumers s) shard = None" if "map_of (sv_draining s) shard = Some True"
    proof -
      have "shard \<in> set (keys (sv_draining s))" using that by (force dest: map_of_SomeD)
      then have "shard \<notin> set (keys (sv_consumers s))" using assms by (auto simp: service_inv_def roles_ok_def)
      then show ?thesis by (simp add: map_of_None_keys)
    qed
    then show ?thesis by (auto simp: life_of_def split: option.splits)
  qed
  then show ?thesis using life_drain_ends [OF assms, of x shard]
    by (auto simp: e drain_ends_def count_list_append split: option.splits life.splits)
next
  case False
  have "sv_released (service_step e s) = sv_released s" using False by (cases e) (simp_all add: released_frame)
  moreover have "\<not> (life_of s shard = WindingDown True \<and> life_of (service_step e s) shard = Idle)"
    using False life_begin_round [of s shard] life_plan_arrives [of _ _ s shard] life_try_candidate [OF assms, of shard]
      life_acquire_arrives [OF assms, of _ shard] life_round_fails [of s shard] life_fold_lose [OF assms, of _ shard] life_task_ends [of _ s shard]
    by (cases e) (auto simp: renew_leases_def split: if_splits)
  ultimately show ?thesis by simp
qed

text \<open>(C9) The control plane keeps its contract for every shard: whatever plans, answers, errors, lost leases and finished
  drains come, in any order, every shard is in a state of its life that can be reached from idle, every event leaves it
  there or moves it by one allowed transition, and the lease is handed back exactly when a shard that was still the
  replica's has finished winding down. In particular a shard that winds down is idle before it is read again.\<close>

theorem control_plane_follows_the_shard_life:
  "let s = fold service_step es (service_init cfg instance_id); before = life_of s shard; after = life_of (service_step e s) shard
   in moves\<^sup>*\<^sup>* Idle before \<and> (after = before \<or> moves before after) \<and>
      count_list (sv_released (service_step e s)) shard =
        count_list (sv_released s) shard + (if before = WindingDown True \<and> after = Idle then 1 else 0)"
proof -
  have init: "life_of (service_init cfg instance_id) shard = Idle" by (simp add: life_of_def service_init_def)
  have inv: "service_inv (fold service_step es (service_init cfg instance_id))" by (rule control.run_keeps [OF service_init_inv])
  show ?thesis
    using run_moves [OF service_init_inv [of cfg instance_id], of shard es] step_moves [OF inv, of e shard] step_releases [OF inv, of e shard]
    by (simp add: init Let_def)
qed

end
