(* ===== verification/Loops.thy ===== *)
theory Loops
  imports Lifecycle Ownership
begin

text \<open>
  The loops a processor replica runs beside its consumers (\<^verbatim>\<open>_renew_loop\<close> and \<^verbatim>\<open>_maintenance_loop\<close> in
  \<^verbatim>\<open>processor/service.py\<close>), the name a replica gives itself (\<^verbatim>\<open>_default_instance_id\<close>) and the lifespan of its application (\<^verbatim>\<open>create_processor_app\<close>). The
  renewals of one turn are placed at one time of the Redis server.
\<close>

subsection \<open>The renewal loop\<close>

text \<open>What becomes of one renewal: answered, run by the server with the answer lost, or never delivered.\<close>

datatype renewal = Answered | Unheard | NotDelivered

fun renew_all :: "'s redis \<Rightarrow> lease_manager \<Rightarrow> millis \<Rightarrow> (int \<Rightarrow> renewal) \<Rightarrow> int list \<Rightarrow> 's \<Rightarrow> bool list \<times> 's" where
  "renew_all r lm t fate [] s = ([], s)"
| "renew_all r lm t fate (shard # rest) s =
     (case renew r lm shard t s of (held, s1) \<Rightarrow>
        (case renew_all r lm t fate rest (if fate shard = NotDelivered then s else s1) of (helds, s2) \<Rightarrow> (held # helds, s2)))"

text \<open>
  One turn: all renewals are sent together. When one of them raises, the error ends the turn and is logged, although the
  others have run; otherwise the shards whose renewal was refused are given up.
\<close>

definition renew_turn :: "'s redis \<Rightarrow> millis \<Rightarrow> (int \<Rightarrow> renewal) \<Rightarrow> service \<Rightarrow> 's \<Rightarrow> service \<times> 's" where
  "renew_turn r t fate sv s =
     (let shards = shards_to_renew sv in
      case renew_all r (sv_lease sv) t fate shards s of (held, s1) \<Rightarrow>
        (if list_all (\<lambda>shard. fate shard = Answered) shards then renew_leases shards held sv else sv, s1))"

definition renew_interval_ms :: "settings \<Rightarrow> rat" where
  "renew_interval_ms cfg = 1000 * fl (of_int (processor_lease_ttl_ms cfg) / 3000)"

text \<open>A turn of the loop with what other replicas did to leases since the turn before.\<close>

type_synonym loop_turn = "(millis \<times> int \<times> lease_act) list \<times> millis \<times> (int \<Rightarrow> renewal)"

definition elsewhere :: "'s redis \<Rightarrow> millis \<times> int \<times> lease_act \<Rightarrow> 's \<Rightarrow> 's" where
  "elsewhere r x s = (case x of (u, shard, a) \<Rightarrow> snd (lease_step r shard u a s))"

fun renew_loop :: "'s redis \<Rightarrow> loop_turn list \<Rightarrow> service \<times> 's \<Rightarrow> service \<times> 's" where
  "renew_loop r [] x = x"
| "renew_loop r ((others, t, fate) # turns) (sv, s) = renew_loop r turns (renew_turn r t fate sv (fold (elsewhere r) others s))"

text \<open>The pace: a turn begins one interval after the end of the one before; \<open>slack\<close> bounds the calls and the timers.\<close>

fun on_schedule :: "rat \<Rightarrow> rat \<Rightarrow> millis \<Rightarrow> loop_turn list \<Rightarrow> bool" where
  "on_schedule gap slack t0 [] = True"
| "on_schedule gap slack t0 ((others, t, fate) # turns) =
     (gap \<le> of_int (t - t0) \<and> of_int (t - t0) \<le> gap + slack \<and> list_all (\<lambda>(u, _). t0 \<le> u \<and> u \<le> t) others \<and>
      on_schedule gap slack t turns)"

fun never_twice :: "int \<Rightarrow> bool \<Rightarrow> loop_turn list \<Rightarrow> bool" where
  "never_twice shard lost [] = True"
| "never_twice shard lost ((others, t, fate) # turns) =
     (\<not> (lost \<and> fate shard = NotDelivered) \<and> never_twice shard (fate shard = NotDelivered) turns)"

definition by_others :: "string \<Rightarrow> loop_turn \<Rightarrow> bool" where
  "by_others me x = list_all (\<lambda>(u, shard, a). act_by a \<noteq> me) (fst x)"

definition last_turn_at :: "millis \<Rightarrow> loop_turn list \<Rightarrow> millis" where
  "last_turn_at t0 turns = (if turns = [] then t0 else fst (snd (last turns)))"

definition held_until :: "'s redis \<Rightarrow> 's \<Rightarrow> string \<Rightarrow> millis \<Rightarrow> millis \<Rightarrow> int \<Rightarrow> bool" where
  "held_until r s me t e shard \<longleftrightarrow> (\<forall>u. t \<le> u \<and> u < e \<longrightarrow> held_by r s u shard = Some me)"

lemma str_int_eq: "str_int a = str_int b \<longleftrightarrow> a = b"
proof -
  have "digits n \<noteq> CHR ''-'' # ds" for n ds using digits_chars [of "CHR ''-''" n] by auto
  then show ?thesis by (auto simp: str_int_def dest: digits_inj split: if_splits) (metis digits_inj nat_eq_iff)+
qed

lemma lease_step_other_shard:
  assumes "redis_laws r" "shard \<noteq> shard'"
  shows "held_by r (snd (lease_step r shard t a s)) u shard' = held_by r s u shard'"
proof -
  have "shard_lease_key shard' \<noteq> shard_lease_key shard" using assms(2) by (auto simp: shard_lease_key_def str_int_eq)
  then have "r_get r (snd (r_set_nx_px r (shard_lease_key shard) v ttl t s)) u (shard_lease_key shard') = r_get r s u (shard_lease_key shard')"
    "r_get r (snd (r_pexpire r (shard_lease_key shard) ttl t s)) u (shard_lease_key shard') = r_get r s u (shard_lease_key shard')"
    "r_get r (snd (r_del r (shard_lease_key shard) t s)) u (shard_lease_key shard') = r_get r s u (shard_lease_key shard')" for v ttl
    using assms(1) unfolding redis_laws_def by blast+
  then show ?thesis
    by (cases a) (simp_all add: held_by_def acquire_def renew_def release_def RENEW_SCRIPT_def RELEASE_SCRIPT_def split_beta)
qed

lemma renew_other_shard: "redis_laws r \<Longrightarrow> shard \<noteq> shard' \<Longrightarrow> held_by r (snd (renew r lm shard t s)) u shard' = held_by r s u shard'"
  using lease_step_other_shard [of r shard shard' t "Renew lm" s u] by simp

lemma renew_answer: "redis_laws r \<Longrightarrow> fst (renew r lm shard t s) \<longleftrightarrow> held_by r s t shard = Some (lm_instance_id lm)"
  using pexpire_live [of r s t "shard_lease_key shard" "lm_instance_id lm" "lm_ttl_ms lm"]
  by (auto simp: renew_def RENEW_SCRIPT_def held_by_def split: prod.splits)

lemma renew_refused: "redis_laws r \<Longrightarrow> held_by r s t shard \<noteq> Some (lm_instance_id lm) \<Longrightarrow> snd (renew r lm shard t s) = s"
  by (simp add: renew_def RENEW_SCRIPT_def held_by_def)

lemma renew_keeps_holding:
  assumes "redis_laws r" "0 < lm_ttl_ms lm"
  shows "held_by r (snd (renew r lm x t s)) t y = Some (lm_instance_id lm) \<longleftrightarrow> held_by r s t y = Some (lm_instance_id lm)"
proof (cases "held_by r s t x = Some (lm_instance_id lm)")
  case True
  then have "renew r lm x t s = (True, snd (renew r lm x t s))" using renew_answer [OF assms(1)] by (metis prod.collapse)
  from renew_holds [OF assms(1) this, of t] assms(2) True renew_other_shard [OF assms(1), of x y] show ?thesis by (cases "x = y") simp_all
qed (simp add: renew_refused [OF assms(1)])

lemma renew_all_answers:
  assumes "redis_laws r" "0 < lm_ttl_ms lm"
  shows "fst (renew_all r lm t fate shards s) = map (\<lambda>x. held_by r s t x = Some (lm_instance_id lm)) shards"
proof (induction shards arbitrary: s)
  case (Cons x xs)
  obtain held s1 where one: "renew r lm x t s = (held, s1)" by fastforce
  have "held_by r s1 t y = Some (lm_instance_id lm) \<longleftrightarrow> held_by r s t y = Some (lm_instance_id lm)" for y
    using renew_keeps_holding [OF assms, of x t s y] one by simp
  then have same: "fst (renew_all r lm t fate xs (if fate x = NotDelivered then s else s1)) = map (\<lambda>x. held_by r s t x = Some (lm_instance_id lm)) xs"
    using Cons by simp
  from renew_answer [OF assms(1), of lm x t s] one have "held \<longleftrightarrow> held_by r s t x = Some (lm_instance_id lm)" by simp
  with same one show ?case by (simp add: split_beta)
qed simp

lemma renew_all_store:
  assumes "redis_laws r" "0 < lm_ttl_ms lm" "t \<le> u"
  shows "held_by r (snd (renew_all r lm t fate shards s)) u y =
    (if y \<in> set shards \<and> fate y \<noteq> NotDelivered \<and> held_by r s t y = Some (lm_instance_id lm)
     then if u < t + lm_ttl_ms lm then Some (lm_instance_id lm) else None else held_by r s u y)"
proof (induction shards arbitrary: s)
  case (Cons x xs)
  define s1 where "s1 = (if fate x = NotDelivered then s else snd (renew r lm x t s))"
  have step: "snd (renew_all r lm t fate (x # xs) s) = snd (renew_all r lm t fate xs s1)" by (simp add: s1_def split_beta)
  have same: "held_by r s1 t y = Some (lm_instance_id lm) \<longleftrightarrow> held_by r s t y = Some (lm_instance_id lm)"
    using renew_keeps_holding [OF assms(1, 2)] by (simp add: s1_def)
  have new: "held_by r s1 u y = (if u < t + lm_ttl_ms lm then Some (lm_instance_id lm) else None)"
    if "y = x" "fate x \<noteq> NotDelivered" "held_by r s t x = Some (lm_instance_id lm)"
    using renew_holds [OF assms(1) _ assms(3), of lm x s "snd (renew r lm x t s)"] renew_answer [OF assms(1), of lm x t s] that
    by (simp add: s1_def) (metis prod.collapse)
  have old: "held_by r s1 u y = held_by r s u y" if "\<not> (y = x \<and> fate x \<noteq> NotDelivered \<and> held_by r s t x = Some (lm_instance_id lm))"
    using that renew_other_shard [OF assms(1), of x y] renew_refused [OF assms(1), of s t x lm] by (cases "y = x") (auto simp: s1_def)
  show ?case unfolding step Cons same using new old by auto
qed simp

lemma renew_turn_all_held:
  assumes "redis_laws r" "0 < lm_ttl_ms (sv_lease sv)"
    "\<forall>shard \<in> set (shards_to_renew sv). held_by r s t shard = Some (lm_instance_id (sv_lease sv))"
  shows "renew_turn r t fate sv s = (sv, snd (renew_all r (sv_lease sv) t fate (shards_to_renew sv) s))"
proof -
  have "map (\<lambda>x. held_by r s t x = Some (lm_instance_id (sv_lease sv))) (shards_to_renew sv) = replicate (length (shards_to_renew sv)) True"
    using assms(3) by (simp add: map_replicate_const [symmetric])
  then have "fst (renew_all r (sv_lease sv) t fate (shards_to_renew sv) s) = replicate (length (shards_to_renew sv)) True"
    by (simp add: renew_all_answers [OF assms(1, 2)])
  moreover have "filter (\<lambda>p. \<not> snd p) (zip xs (replicate (length xs) True)) = []" for xs :: "int list" by (induction xs) simp_all
  ultimately show ?thesis by (simp add: renew_turn_def Let_def renew_leases_def split_beta)
qed

lemma elsewhere_keeps:
  assumes "redis_laws r" "held_until r s me t0 e shard" "t0 \<le> u" "u < e" "act_by a \<noteq> me"
  shows "held_until r (elsewhere r (u, x, a) s) me t0 e shard"
proof (cases "x = shard")
  case True
  have "held_by r s u shard = Some me" using assms(2-4) by (simp add: held_until_def)
  from lease_step_other [OF this assms(5, 1)] assms(2) True show ?thesis by (simp add: elsewhere_def)
next
  case False
  then have "held_by r (elsewhere r (u, x, a) s) v shard = held_by r s v shard" for v
    using lease_step_other_shard [OF assms(1)] by (simp add: elsewhere_def)
  with assms(2) show ?thesis by (simp add: held_until_def)
qed

lemma others_keep:
  assumes "redis_laws r" "held_until r s me t0 e shard" "list_all (\<lambda>(u, _). t0 \<le> u \<and> u < e) others"
    "list_all (\<lambda>(u, x, a). act_by a \<noteq> me) others"
  shows "held_until r (fold (elsewhere r) others s) me t0 e shard"
  using assms(2-4)
proof (induction others arbitrary: s)
  case (Cons x xs)
  then show ?case using elsewhere_keeps [OF assms(1)] by (cases x) auto
qed simp

text \<open>How long the lease of a shard lasts after a turn at \<open>t0\<close> in which its renewal was or was not delivered.\<close>

definition good_for :: "'s redis \<Rightarrow> service \<Rightarrow> rat \<Rightarrow> 's \<Rightarrow> millis \<Rightarrow> (int \<Rightarrow> bool) \<Rightarrow> int \<Rightarrow> bool" where
  "good_for r sv late s t0 lost shard \<longleftrightarrow>
     (\<exists>e. of_int (t0 + lm_ttl_ms (sv_lease sv)) - (if lost shard then late else 0) \<le> (of_int e :: rat) \<and>
        held_until r s (lm_instance_id (sv_lease sv)) t0 e shard)"

lemma good_for_a_while:
  assumes "good_for r sv late s t0 lost shard" "2 * late < of_int (lm_ttl_ms (sv_lease sv))" "of_int (t - t0) \<le> late" "t0 \<le> t"
  obtains e where "t < e" "\<not> lost shard \<longrightarrow> of_int (t + lm_ttl_ms (sv_lease sv)) - late \<le> (of_int e :: rat)"
    "held_until r s (lm_instance_id (sv_lease sv)) t0 e shard"
proof -
  obtain e where e: "of_int (t0 + lm_ttl_ms (sv_lease sv)) - (if lost shard then late else 0) \<le> (of_int e :: rat)"
      "held_until r s (lm_instance_id (sv_lease sv)) t0 e shard" using assms(1) by (auto simp: good_for_def)
  have late: "(0::rat) \<le> late" using assms(3, 4) of_int_0_le_iff [of "t - t0", where 'a = rat] by simp
  have "(of_int t :: rat) < of_int e" using e(1) assms(2, 3) late by (auto split: if_splits)
  moreover have "\<not> lost shard \<Longrightarrow> of_int (t + lm_ttl_ms (sv_lease sv)) - late \<le> (of_int e :: rat)" using e(1) assms(3) by auto
  ultimately show thesis using e(2) by (intro that) simp_all
qed

lemma renew_turn_good_for:
  assumes "redis_laws r" "0 < lm_ttl_ms (sv_lease sv)" "2 * late < of_int (lm_ttl_ms (sv_lease sv))" "of_int (t - t0) \<le> late" "t0 \<le> t"
    "\<And>shard. shard \<in> set (shards_to_renew sv) \<Longrightarrow> good_for r sv late s t0 lost shard \<and> \<not> (lost shard \<and> fate shard = NotDelivered)"
  shows "fst (renew_turn r t fate sv s) = sv"
    "shard \<in> set (shards_to_renew sv) \<Longrightarrow> good_for r sv late (snd (renew_turn r t fate sv s)) t (\<lambda>x. fate x = NotDelivered) shard"
proof -
  let ?me = "lm_instance_id (sv_lease sv)" and ?s' = "snd (renew_all r (sv_lease sv) t fate (shards_to_renew sv) s)"
  have held: "held_by r s t x = Some ?me" if "x \<in> set (shards_to_renew sv)" for x
  proof -
    from assms(6) [OF that] have "good_for r sv late s t0 lost x" ..
    then obtain e where "t < e" "held_until r s ?me t0 e x" by (rule good_for_a_while [OF _ assms(3-5)])
    with assms(5) show ?thesis by (simp add: held_until_def)
  qed
  then have turn: "renew_turn r t fate sv s = (sv, ?s')" by (intro renew_turn_all_held [OF assms(1, 2)]) simp
  then show "fst (renew_turn r t fate sv s) = sv" by simp
  assume shard: "shard \<in> set (shards_to_renew sv)"
  obtain e where e: "t < e" "\<not> lost shard \<longrightarrow> of_int (t + lm_ttl_ms (sv_lease sv)) - late \<le> (of_int e :: rat)" "held_until r s ?me t0 e shard"
    using good_for_a_while [OF _ assms(3-5), of r s lost shard] assms(6) [OF shard] by blast
  have "held_until r ?s' ?me t (if fate shard = NotDelivered then e else t + lm_ttl_ms (sv_lease sv)) shard"
    using e(3) assms(5) shard held [OF shard] by (auto simp: held_until_def renew_all_store [OF assms(1, 2)])
  moreover have "of_int (t + lm_ttl_ms (sv_lease sv)) - (if fate shard = NotDelivered then late else 0) \<le>
      (of_int (if fate shard = NotDelivered then e else t + lm_ttl_ms (sv_lease sv)) :: rat)"
    using e(2) assms(6) [OF shard] by auto
  ultimately show "good_for r sv late (snd (renew_turn r t fate sv s)) t (\<lambda>x. fate x = NotDelivered) shard"
    unfolding turn good_for_def snd_conv by blast
qed

lemma others_good_for:
  assumes "redis_laws r" "2 * late < of_int (lm_ttl_ms (sv_lease sv))" "of_int (t - t0) \<le> late" "t0 \<le> t"
    "list_all (\<lambda>(u, _). t0 \<le> u \<and> u \<le> t) others" "by_others (lm_instance_id (sv_lease sv)) (others, t, fate)"
    "good_for r sv late s t0 lost shard"
  shows "good_for r sv late (fold (elsewhere r) others s) t0 lost shard"
proof -
  obtain e where e: "of_int (t0 + lm_ttl_ms (sv_lease sv)) - (if lost shard then late else 0) \<le> (of_int e :: rat)"
      "held_until r s (lm_instance_id (sv_lease sv)) t0 e shard" using assms(7) by (auto simp: good_for_def)
  have late: "(0::rat) \<le> late" using assms(3, 4) of_int_0_le_iff [of "t - t0", where 'a = rat] by simp
  have "(of_int t :: rat) < of_int e" using e(1) assms(2, 3) late by (auto split: if_splits)
  then have "list_all (\<lambda>(u, _). t0 \<le> u \<and> u < e) others" using assms(5) by (auto simp: list_all_iff)
  from others_keep [OF assms(1) e(2) this] assms(6) e(1) show ?thesis unfolding good_for_def by (auto simp: by_others_def)
qed

lemma renew_loop_keeps:
  assumes "redis_laws r" "0 < lm_ttl_ms (sv_lease sv)" "0 \<le> gap" "2 * (gap + slack) < of_int (lm_ttl_ms (sv_lease sv))"
    "on_schedule gap slack t0 turns" "list_all (by_others (lm_instance_id (sv_lease sv))) turns"
    "\<And>shard. shard \<in> set (shards_to_renew sv) \<Longrightarrow> never_twice shard (lost shard) turns \<and> good_for r sv (gap + slack) s t0 lost shard"
    "turns \<noteq> []"
  shows "fst (renew_loop r turns (sv, s)) = sv \<and>
    (\<forall>shard \<in> set (shards_to_renew sv). \<exists>lost. good_for r sv (gap + slack) (snd (renew_loop r turns (sv, s))) (last_turn_at t0 turns) lost shard)"
  using assms(5-8)
proof (induction turns arbitrary: s t0 lost)
  case (Cons x turns)
  obtain others t fate where x: "x = (others, t, fate)" by (cases x)
  let ?s1 = "fold (elsewhere r) others s"
  have sched: "gap \<le> of_int (t - t0)" "of_int (t - t0) \<le> gap + slack" "list_all (\<lambda>(u, _). t0 \<le> u \<and> u \<le> t) others" "on_schedule gap slack t turns"
    using Cons.prems(1) x by auto
  have "(0::rat) \<le> of_int (t - t0)" using sched(1) assms(3) by linarith
  then have t0t: "t0 \<le> t" by simp
  have "good_for r sv (gap + slack) ?s1 t0 lost shard" if "shard \<in> set (shards_to_renew sv)" for shard
    using others_good_for [OF assms(1, 4) sched(2) t0t sched(3)] Cons.prems(2, 3) that x by auto
  with renew_turn_good_for [OF assms(1, 2, 4) sched(2) t0t, of ?s1 lost fate] Cons.prems(3) x
  have turn: "fst (renew_turn r t fate sv ?s1) = sv"
    "\<And>shard. shard \<in> set (shards_to_renew sv) \<Longrightarrow> good_for r sv (gap + slack) (snd (renew_turn r t fate sv ?s1)) t (\<lambda>x. fate x = NotDelivered) shard"
    by auto
  then obtain s2 where s2: "renew_turn r t fate sv ?s1 = (sv, s2)" by (cases "renew_turn r t fate sv ?s1") simp
  show ?case
  proof (cases "turns = []")
    case True
    with turn s2 x show ?thesis by (auto simp: last_turn_at_def)
  next
    case False
    moreover have "never_twice shard (fate shard = NotDelivered) turns" if "shard \<in> set (shards_to_renew sv)" for shard
      using Cons.prems(3) [OF that] x by simp
    moreover have "last_turn_at t0 (x # turns) = last_turn_at t turns" using False by (simp add: last_turn_at_def)
    ultimately show ?thesis using Cons.IH [of t "\<lambda>x. fate x = NotDelivered" s2] turn(2) s2 sched(4) Cons.prems(2) x by auto
  qed
qed simp

text \<open>(C10) The loop keeps the leases: with calls and timers that are late by less than a sixth of the lease altogether, and at most
  every other renewal of a shard undelivered, no shard is given up and after each turn the replica still holds every
  lease, whatever other replicas try on them in between.\<close>

theorem leases_survive_a_lost_renewal:
  assumes "redis_laws r" "lm_ttl_ms (sv_lease sv) = processor_lease_ttl_ms cfg" "0 < processor_lease_ttl_ms cfg"
    "2 * (renew_interval_ms cfg + slack) < of_int (processor_lease_ttl_ms cfg)" "on_schedule (renew_interval_ms cfg) slack t0 turns"
    "list_all (by_others (lm_instance_id (sv_lease sv))) turns" "list_all (\<lambda>shard. never_twice shard False turns) (shards_to_renew sv)"
    "list_all (held_until r s (lm_instance_id (sv_lease sv)) t0 (t0 + processor_lease_ttl_ms cfg)) (shards_to_renew sv)"
    "renew_loop r turns (sv, s) = (sv', s')"
  shows "sv' = sv \<and> list_all (\<lambda>shard. held_by r s' (last_turn_at t0 turns) shard = Some (lm_instance_id (sv_lease sv))) (shards_to_renew sv)"
proof (cases turns)
  case Nil
  with assms(3, 8, 9) show ?thesis by (auto simp: list_all_iff held_until_def last_turn_at_def)
next
  case (Cons x rest)
  let ?gap = "renew_interval_ms cfg"
  have gap: "0 \<le> ?gap" using fl_ge_int [of 0 "of_int (processor_lease_ttl_ms cfg) / 3000"] assms(3) by (simp add: renew_interval_ms_def)
  have start: "good_for r sv (?gap + slack) s t0 (\<lambda>_. False) shard" if "shard \<in> set (shards_to_renew sv)" for shard
    using assms(2, 8) that unfolding good_for_def by (intro exI [of _ "t0 + processor_lease_ttl_ms cfg"]) (simp add: list_all_iff)
  have late: "0 \<le> ?gap + slack" using assms(5) gap Cons by (cases x) auto
  have "fst (renew_loop r turns (sv, s)) = sv \<and> (\<forall>shard \<in> set (shards_to_renew sv).
      \<exists>lost. good_for r sv (?gap + slack) (snd (renew_loop r turns (sv, s))) (last_turn_at t0 turns) lost shard)"
    using assms(1-7) start gap Cons by (intro renew_loop_keeps [where lost = "\<lambda>_. False"]) (auto simp: list_all_iff)
  then have kept: "sv' = sv" "\<And>shard. shard \<in> set (shards_to_renew sv) \<Longrightarrow> \<exists>lost. good_for r sv (?gap + slack) s' (last_turn_at t0 turns) lost shard"
    using assms(9) by auto
  have "held_by r s' (last_turn_at t0 turns) shard = Some (lm_instance_id (sv_lease sv))" if shard: "shard \<in> set (shards_to_renew sv)" for shard
  proof -
    obtain lost where "good_for r sv (?gap + slack) s' (last_turn_at t0 turns) lost shard" using kept(2) [OF shard] by blast
    then obtain e where "last_turn_at t0 turns < e" "held_until r s' (lm_instance_id (sv_lease sv)) (last_turn_at t0 turns) e shard"
      using late assms(2, 4) by (elim good_for_a_while [where t = "last_turn_at t0 turns"]) auto
    then show ?thesis by (simp add: held_until_def)
  qed
  with kept(1) show ?thesis by (simp add: list_all_iff)
qed

definition replica_with_shard :: service where
  "replica_with_shard = (service_init default_settings ''proc-a'')\<lparr>sv_consumers := [(3, False)]\<rparr>"

lemma replica_with_shard [simp]:
  "lm_ttl_ms (sv_lease replica_with_shard) = 15000" "lm_instance_id (sv_lease replica_with_shard) = ''proc-a''"
  "shards_to_renew replica_with_shard = [3]" "processor_lease_ttl_ms default_settings = 15000" "sv_consumers replica_with_shard = [(3, False)]"
  by (simp_all add: replica_with_shard_def service_init_def lease_manager_init_def default_settings_def shards_to_renew_def CONTROL_INTERVAL_S_def)

lemma default_renew_interval [simp]: "renew_interval_ms default_settings = 5000"
  using fl_of_int [of 5] by (simp add: renew_interval_ms_def)

theorem leases_survive_a_lost_renewal_witness:
  "held_by kv_redis (snd (renew_loop kv_redis [([(3000, 3, Acquire replica_b)], 5100, \<lambda>_. NotDelivered), ([], 10150, \<lambda>_. Answered)]
     (replica_with_shard, snd (acquire kv_redis (sv_lease replica_with_shard) 3 0 [])))) 10150 3 = Some ''proc-a''"
proof -
  have "acquire kv_redis (sv_lease replica_with_shard) 3 0 [] = (True, snd (acquire kv_redis (sv_lease replica_with_shard) 3 0 []))"
    by (simp add: acquire_def kv_redis_def)
  from acquire_holds [OF kv_redis_laws this]
  have "held_until kv_redis (snd (acquire kv_redis (sv_lease replica_with_shard) 3 0 [])) ''proc-a'' 0 15000 3" by (simp add: held_until_def)
  then show ?thesis
    using leases_survive_a_lost_renewal [OF kv_redis_laws, of replica_with_shard default_settings 200 0
        "[([(3000, 3, Acquire replica_b)], 5100, \<lambda>_. NotDelivered), ([], 10150, \<lambda>_. Answered)]" _ _ _, OF _ _ _ _ _ _ _ prod.collapse [symmetric]]
    by (simp add: last_turn_at_def by_others_def replica_b_def lease_manager_init_def)
qed

text \<open>
  No more than that: the third turn comes when the whole lease has passed, so a shard whose renewal is lost twice in a row and
  that nothing else renews is given up, even if nobody else wants it.
\<close>

theorem two_lost_renewals_cost_the_shard:
  assumes "redis_laws r" "lm_ttl_ms (sv_lease sv) = processor_lease_ttl_ms cfg" "0 < processor_lease_ttl_ms cfg"
    "of_int (processor_lease_ttl_ms cfg) \<le> 3 * renew_interval_ms cfg" "service_inv sv" "shard \<in> set (owned_shards sv)"
    "renew r (sv_lease sv) shard t0 s0 = (True, s)"
    "on_schedule (renew_interval_ms cfg) slack t0 [([], t1, f1), ([], t2, f2), ([], t3, f3)]"
    "f1 shard = NotDelivered" "f2 shard = NotDelivered" "list_all (\<lambda>x. f3 x = Answered) (shards_to_renew sv)"
  shows "shard \<notin> set (owned_shards (fst (renew_loop r [([], t1, f1), ([], t2, f2), ([], t3, f3)] (sv, s))))"
proof -
  let ?gap = "renew_interval_ms cfg" and ?me = "lm_instance_id (sv_lease sv)" and ?all = "renew_all r (sv_lease sv)"
  have ttl: "0 < lm_ttl_ms (sv_lease sv)" using assms(2, 3) by simp
  have mem: "shard \<in> set (shards_to_renew sv)" using assms(6) by (simp add: shards_to_renew_def owned_shards_def)
  have "(0::rat) < of_int (processor_lease_ttl_ms cfg)" using assms(3) by simp
  with assms(4) have "0 \<le> ?gap" by linarith
  with assms(8) have "(0::rat) \<le> of_int (t1 - t0)" "(0::rat) \<le> of_int (t2 - t1)" "(0::rat) \<le> of_int (t3 - t2)" by auto
  then have order: "t0 \<le> t1" "t1 \<le> t2" "t2 \<le> t3" by simp_all
  have "of_int (processor_lease_ttl_ms cfg) \<le> (of_int (t1 - t0) + of_int (t2 - t1) + of_int (t3 - t2) :: rat)" using assms(4, 8) by simp
  then have "(of_int (processor_lease_ttl_ms cfg) :: rat) \<le> of_int (t3 - t0)" by simp
  then have past: "t0 + lm_ttl_ms (sv_lease sv) \<le> t3" using assms(2) by simp
  define s1 where "s1 = snd (?all t1 f1 (shards_to_renew sv) s)"
  define s2 where "s2 = snd (?all t2 f2 (shards_to_renew sv) s1)"
  have idle: "renew_turn r t f sv x = (sv, snd (?all t f (shards_to_renew sv) x))" if "f shard = NotDelivered" for t f x
    using that mem by (auto simp: renew_turn_def Let_def split_beta list_all_iff)
  have "held_by r s2 t3 shard = held_by r s t3 shard"
    using order assms(9, 10) by (simp add: s1_def s2_def renew_all_store [OF assms(1) ttl])
  also have "\<dots> = None" using renew_holds [OF assms(1, 7), of t3] past order by simp
  finally have gone: "held_by r s2 t3 shard = None" .
  let ?shards = "shards_to_renew sv" and ?held = "map (\<lambda>x. held_by r s2 t3 x = Some ?me) (shards_to_renew sv)"
  have "(shard, False) \<in> set (zip ?shards ?held)" using mem gone by (auto simp: zip_map2 zip_same_conv_map)
  then have "shard \<in> set (map fst (filter (\<lambda>p. \<not> snd p) (zip ?shards ?held)))" by force
  from fold_lose_lease [OF assms(5) this] have "not_ours shard (renew_leases ?shards ?held sv)" by (simp add: renew_leases_def)
  moreover have "fst (renew_turn r t3 f3 sv s2) = renew_leases ?shards ?held sv"
    using assms(11) by (simp add: renew_turn_def Let_def split_beta renew_all_answers [OF assms(1) ttl])
  ultimately show ?thesis
    using idle [of f1 t1 s, OF assms(9)] idle [of f2 t2 s1, OF assms(10)]
    by (simp add: s1_def [symmetric] s2_def [symmetric] not_ours_def owned_shards_def)
qed

subsection \<open>The maintenance loop\<close>

text \<open>One turn: a round that raises, at the election or in the transaction, is logged; \<open>elects = False\<close> is a failed election call.\<close>

definition maintenance_turn ::
  "'s redis \<Rightarrow> partition_maintenance \<Rightarrow> bool \<Rightarrow> millis \<Rightarrow> millis \<Rightarrow> micros \<Rightarrow> bool \<Rightarrow> bool \<Rightarrow> 's \<times> db \<Rightarrow> 's \<times> db" where
  "maintenance_turn r pm elects t t' now fails reachable x =
     (if elects then snd (run_once r pm t t' now fails reachable (fst x) (snd x)) else x)"

text \<open>No turn removes a partition or a report inside the retention window, and none touches another table.\<close>

lemma maintenance_turn_keeps_the_window:
  assumes "maintenance_turn r pm elects t t' now fails reachable (s, db) = (s', db')" "day_of now - pm_retention_days pm \<le> day"
  shows "day \<in> set (history_partitions db) \<Longrightarrow> day \<in> set (history_partitions db')"
    "db'\<lparr>history_partitions := [], location_history := []\<rparr> = db\<lparr>history_partitions := [], location_history := []\<rparr>"
  using assms
  by (auto simp: maintenance_turn_def run_once_def ensure_history_partitions_def drop_history_partitions_def Let_def
      split: if_splits prod.splits bool.splits)

subsection \<open>The name of a replica\<close>

text \<open>\<^verbatim>\<open>_default_instance_id\<close>: the host, the process and the last six digits of a new UUID.\<close>

definition default_instance_id :: "string \<Rightarrow> int \<Rightarrow> uuid \<Rightarrow> string" where
  "default_instance_id hostname pid u = hostname @ ''-'' @ str_int pid @ ''-'' @ drop 26 (hex 32 u)"

lemma instance_ids_differ:
  assumes "pid \<noteq> pid'"
  shows "default_instance_id hostname pid u \<noteq> default_instance_id hostname pid' v"
proof
  assume "default_instance_id hostname pid u = default_instance_id hostname pid' v"
  then have "(str_int pid @ ''-'') @ drop 26 (hex 32 u) = (str_int pid' @ ''-'') @ drop 26 (hex 32 v)" by (simp add: default_instance_id_def)
  then have "str_int pid @ ''-'' = str_int pid' @ ''-''" by (subst (asm) append_eq_append_conv) simp_all
  with assms show False by (simp add: str_int_eq)
qed

subsection \<open>The lifespan of the application\<close>

text \<open>
  \<^verbatim>\<open>create_processor_app\<close>: the replica starts, serves while the events of its control plane happen, and stops. A start that
  raises has cleaned up after itself and the lifespan ends there.
\<close>

definition processor_lifespan ::
  "'s redis \<Rightarrow> start_env \<Rightarrow> service_event list \<Rightarrow> int list \<Rightarrow> processor \<Rightarrow> 's \<Rightarrow> db \<Rightarrow> (start_failure + maintenance_outcome) \<times> processor" where
  "processor_lifespan r env happens finished p s db =
     (case processor_start r env p s db of
        (Inl e, p1, _) \<Rightarrow> (Inl e, p1)
      | (Inr outcome, p1, _) \<Rightarrow> (Inr outcome, processor_stop finished (p1\<lparr>po_service := fold service_step happens (po_service p1)\<rparr>)))"

lemma lifespan_leaves_nothing:
  assumes "processor_lifespan r env happens finished (new_processor cfg name) s db = (res, p)"
  shows "po_resources p = None \<and> po_tasks p = [] \<and> \<not> po_loop_lag p \<and> sv_consumers (po_service p) = [] \<and> sv_draining (po_service p) = []"
proof -
  have "sv_consumers (stop finished x) = [] \<and> sv_draining (stop finished x) = []" for finished x using stop_releases_every_shard by simp
  with assms show ?thesis
    by (auto simp: processor_lifespan_def processor_start_def processor_stop_def Let_def split: option.splits sum.splits if_splits prod.splits)
qed

end
