(* ===== verification/EdgeAnswers.thy ===== *)
theory EdgeAnswers
  imports DeviceSocket
begin

text \<open>
  What the edge says to a device: the texts of \<^verbatim>\<open>schemas/ingest.py\<close>'s exceptions, \<^verbatim>\<open>readable_errors\<close> and \<^verbatim>\<open>describe_errors\<close>
  (\<^verbatim>\<open>api/routes/ingest.py\<close>), the payload of a websocket message (\<^verbatim>\<open>api/routes/ws_ingest.py\<close>), and the device session with these
  texts in place. The session itself is in \<open>DeviceSocket\<close>.
\<close>

subsection \<open>Texts\<close>

text \<open>\<^verbatim>\<open>str(timedelta)\<close> for a whole number of seconds.\<close>

definition two_digits :: "int \<Rightarrow> string" where
  "two_digits n = (if n < 10 then ''0'' else []) @ str_int n"

definition timedelta_str :: "int \<Rightarrow> string" where
  "timedelta_str seconds =
     (let days = seconds div 86400; rest = seconds mod 86400
      in (if days = 0 then [] else str_int days @ '' day'' @ (if \<bar>days\<bar> = 1 then [] else ''s'') @ '', '') @
         str_int (rest div 3600) @ '':'' @ two_digits (rest mod 3600 div 60) @ '':'' @ two_digits (rest mod 60))"

text \<open>One violation as it is shown: where, what, and of which kind.\<close>

definition readable_errors :: "validation_error list \<Rightarrow> json" where
  "readable_errors errors =
     JList (map (\<lambda>e. JObj [(''loc'', JList (map JStr (ve_loc e))), (''msg'', JStr (ve_msg e)), (''type'', JStr (ve_type e))]) errors)"

definition described :: "validation_error \<Rightarrow> string" where
  "described e = (let location = join ''.'' (ve_loc e) in if location = [] then ve_msg e else location @ '': '' @ ve_msg e)"

definition describe_errors :: "validation_error list \<Rightarrow> string" where
  "describe_errors errors = join ''; '' (map described errors)"

definition parse_error_text :: "parse_error \<Rightarrow> string" where
  "parse_error_text err =
     (case err of
        EmptyPayload \<Rightarrow> ''empty payload''
      | NoReports \<Rightarrow> ''payload contains no reports''
      | BatchTooLarge offered limit \<Rightarrow> ''payload contains '' @ str_int offered @ '' reports, the limit is '' @ str_int limit
      | Invalid errors \<Rightarrow> describe_errors errors)"

definition window_error_text :: "settings \<Rightarrow> window_error \<Rightarrow> string" where
  "window_error_text s err =
     (case err of
        TooOld i \<Rightarrow> ''items['' @ str_int (int i) @ '']: timestamp is older than '' @ timedelta_str (history_retention_days s * 86400)
      | TooNew i \<Rightarrow> ''items['' @ str_int (int i) @ '']: timestamp is more than '' @ timedelta_str (ingest_max_future_skew_s s) @ '' in the future'')"

text \<open>The body of a 422: the errors are there only when pydantic listed some.\<close>

definition validation_extra :: "parse_error \<Rightarrow> (string \<times> json) list" where
  "validation_extra err =
     (case err of Invalid errors \<Rightarrow> if errors = [] then [] else [(''errors'', readable_errors errors)] | _ \<Rightarrow> [])"

definition validation_detail :: "parse_error \<Rightarrow> string" where
  "validation_detail err = (case err of Invalid errors \<Rightarrow> ''One or more reports did not pass validation.'' | _ \<Rightarrow> parse_error_text err)"

subsection \<open>A device session\<close>

text \<open>A message of the socket; text is its UTF-8.\<close>

datatype ws_message = Disconnect | Received "bytes option" "bytes option"

definition payload_of :: "ws_message \<Rightarrow> bytes option" where
  "payload_of m =
     (case m of
        Disconnect \<Rightarrow> None
      | Received (Some t) data \<Rightarrow> Some t
      | Received None (Some data) \<Rightarrow> Some data
      | Received None None \<Rightarrow> Some [])"

definition with_texts :: "settings \<Rightarrow> socket_env \<Rightarrow> socket_env" where
  "with_texts s env = env\<lparr>we_describe := parse_error_text, we_describe_window := window_error_text s\<rparr>"

definition device_turn :: "socket_env \<Rightarrow> settings \<Rightarrow> backlog \<Rightarrow> ws_message \<Rightarrow> device_session \<Rightarrow> verdict \<times> device_session" where
  "device_turn env s b m d = session_turn (with_texts s env) s b (payload_of m) d"

subsection \<open>Properties\<close>

definition error_code :: "parse_error \<Rightarrow> string" where
  "error_code err = (case err of BatchTooLarge offered limit \<Rightarrow> ''payload_too_large'' | _ \<Rightarrow> ''validation_error'')"

definition reports_lost :: "parse_error \<Rightarrow> int" where
  "reports_lost err = (case err of BatchTooLarge offered limit \<Rightarrow> offered | _ \<Rightarrow> 1)"



lemma describe_one: "describe_errors [e] = described e"
  by (simp add: describe_errors_def)

text \<open>The two texts that the default settings give to a report outside the window.\<close>

lemma window_texts:
  "window_error_text default_settings (TooOld 3) = ''items[3]: timestamp is older than 7 days, 0:00:00''"
  "window_error_text default_settings (TooNew 0) = ''items[0]: timestamp is more than 0:05:00 in the future''"
  by code_simp+

end
