(* ===== verification/Smoke.thy ===== *)
theory Smoke
  imports Publisher
begin

text \<open>
  \<^verbatim>\<open>scripts/smoke.py\<close>: the end-to-end check of a running deployment, as a function of what the deployment answers. A list of
  clock readings with answers stands for a loop; \<open>None\<close> means that the loop is still waiting when the list ends. The
  script is a client of the alert frames of \<open>Publisher\<close>, and the theorem is that the two agree on their shape.
\<close>

subsection \<open>Waiting\<close>

datatype probe = Unreachable string | Status int

fun wait_until_ready :: "rat \<Rightarrow> string \<Rightarrow> (rat \<times> probe) list \<Rightarrow> (string + unit) option" where
  "wait_until_ready deadline latest [] = None"
| "wait_until_ready deadline latest ((now, p) # rest) =
     (if now < deadline then
        (case p of
           Unreachable e \<Rightarrow> wait_until_ready deadline e rest
         | Status n \<Rightarrow> if n = 200 then Some (Inr ()) else wait_until_ready deadline (''HTTP '' @ str_int n) rest)
      else Some (Inl (''stack never became ready: '' @ latest)))"

text \<open>\<^verbatim>\<open>d[key]\<close> on a decoded frame; \<open>None\<close> is the \<^verbatim>\<open>KeyError\<close> or the \<^verbatim>\<open>TypeError\<close>.\<close>

definition member :: "json \<Rightarrow> string \<Rightarrow> json option" where
  "member j key = (case j of JObj kvs \<Rightarrow> map_of kvs key | _ \<Rightarrow> None)"

text \<open>How the script ends without a result: an exit with its text, or any other exception, which the last lines report.\<close>

datatype smoke_end = Exits string | Fails

datatype heard = Silence | Frame bytes

text \<open>The verdict on one frame: skip it, fail, or take its alert.\<close>

datatype frame_verdict = Skip | Broken | Take json

definition judge :: "loads \<Rightarrow> string \<Rightarrow> string \<Rightarrow> bytes \<Rightarrow> frame_verdict" where
  "judge loads device_id zone_id raw =
     (case loads raw of
        Inr (JObj kvs) \<Rightarrow>
          if map_of kvs ''type'' \<noteq> Some (JStr ''alert'') then Skip
          else (case map_of kvs ''alert'' of
                  None \<Rightarrow> Broken
                | Some alert \<Rightarrow>
                    (case member alert ''device_id'' of
                       None \<Rightarrow> Broken
                     | Some d \<Rightarrow>
                         if d \<noteq> JStr device_id then Skip
                         else (case Option.bind (member alert ''zone'') (\<lambda>z. member z ''id'') of
                                 None \<Rightarrow> Broken
                               | Some zid \<Rightarrow> if zid = JStr zone_id then Take alert else Skip)))
      | _ \<Rightarrow> Broken)"

text \<open>\<open>Silence\<close> is a receive that ran into its timeout, which raises.\<close>

fun expect_alert :: "loads \<Rightarrow> string \<Rightarrow> rat \<Rightarrow> string \<Rightarrow> string \<Rightarrow> (rat \<times> heard) list \<Rightarrow> (smoke_end + json) option" where
  "expect_alert loads waited deadline device_id zone_id [] = None"
| "expect_alert loads waited deadline device_id zone_id ((now, h) # rest) =
     (if fl (deadline - now) \<le> 0 then Some (Inl (Exits (''no alert for '' @ device_id @ '' within '' @ waited @ ''s'')))
      else (case h of
              Silence \<Rightarrow> Some (Inl Fails)
            | Frame raw \<Rightarrow>
                (case judge loads device_id zone_id raw of
                   Skip \<Rightarrow> expect_alert loads waited deadline device_id zone_id rest
                 | Broken \<Rightarrow> Some (Inl Fails)
                 | Take alert \<Rightarrow> Some (Inr alert))))"

subsection \<open>The script\<close>

definition is_success :: "int \<Rightarrow> bool" where
  "is_success status \<longleftrightarrow> 200 \<le> status \<and> status \<le> 299"

text \<open>
  A response is its status and the member of its body that the script reads, if it is there. \<open>alert\<close> is how the wait for
  the alert ends, given the identifier of the zone.
\<close>

record deployment =
  sm_ready :: "string + unit"
  sm_login :: "int \<times> string option"
  sm_hello :: "json option"
  sm_create :: "int \<times> string option"
  sm_report :: int
  sm_alert :: "string \<Rightarrow> smoke_end + json"
  sm_delete :: int

definition smoke :: "string \<Rightarrow> deployment \<Rightarrow> smoke_end + unit" where
  "smoke ingest_key w =
     (if ingest_key = [] then Inl (Exits ''INGEST_API_KEY is not set; run this through scripts/smoke.sh'')
      else (case sm_ready w of
        Inl text \<Rightarrow> Inl (Exits text)
      | Inr _ \<Rightarrow>
          if \<not> is_success (fst (sm_login w)) \<or> snd (sm_login w) = None then Inl Fails
          else if Option.bind (sm_hello w) (\<lambda>j. member j ''type'') \<noteq> Some (JStr ''hello'') then Inl Fails
          else if \<not> is_success (fst (sm_create w)) then Inl Fails
          else (case snd (sm_create w) of
             None \<Rightarrow> Inl Fails
           | Some zone_id \<Rightarrow>
               if \<not> is_success (sm_report w) then Inl Fails
               else (case sm_alert w zone_id of
                  Inl e \<Rightarrow> Inl e
                | Inr alert \<Rightarrow>
                    if member alert ''kind'' \<noteq> Some (JStr ''enter'') then Inl Fails
                    else if is_success (sm_delete w) then Inr () else Inl Fails))))"

definition exit_code :: "smoke_end + unit \<Rightarrow> int" where
  "exit_code r = (case r of Inl e \<Rightarrow> 1 | Inr _ \<Rightarrow> 0)"

subsection \<open>Properties\<close>

text \<open>What the frame of a committed alert looks like to the script.\<close>

lemma judge_alert_frame:
  assumes "frame_for dumps isofmt alert = Some frame"
    "\<And>payload. alert_payload isofmt alert = Some payload \<Longrightarrow> gives_back dumps loads (JObj [(''type'', JStr ''alert''), (''alert'', payload)])"
  shows "judge loads device_id zone_id frame =
    (if al_device_id alert = device_id \<and> (\<exists>z. al_zone_id alert = Some z \<and> uuid_str z = zone_id) then Take (the (alert_payload isofmt alert)) else Skip)"
proof -
  obtain payload where p: "alert_payload isofmt alert = Some payload" "frame = alert_frame dumps payload"
    using assms(1) by (auto simp: frame_for_def)
  have "loads frame = Inr (JObj [(''type'', JStr ''alert''), (''alert'', payload)])"
    using assms(2) [OF p(1)] by (simp add: p(2) alert_frame_def gives_back_def)
  with p(1) show ?thesis
    by (auto simp: judge_def alert_payload_def member_def split: if_splits option.splits)
qed

text \<open>The check finds what the processor sends: while the deadline has not passed, the script skips every frame that is not
  an alert and every alert of another device or zone, and the frame that the publisher builds for an alert of the
  device in the zone ends its wait with exactly that alert; the script passes only with an alert of kind enter.\<close>

theorem smoke_hears_the_committed_alert:
  assumes "frame_for dumps isofmt alert = Some frame"
    "\<And>payload. alert_payload isofmt alert = Some payload \<Longrightarrow> gives_back dumps loads (JObj [(''type'', JStr ''alert''), (''alert'', payload)])"
    "al_device_id alert = device_id" "al_zone_id alert = Some z"
    "list_all (\<lambda>(t, h). 0 < fl (deadline - t) \<and> (\<exists>raw. h = Frame raw \<and> judge loads device_id (uuid_str z) raw = Skip)) before"
    "0 < fl (deadline - now)"
  shows "expect_alert loads waited deadline device_id (uuid_str z) (before @ (now, Frame frame) # rest) = Some (Inr (the (alert_payload isofmt alert))) \<and>
    member (the (alert_payload isofmt alert)) ''kind'' = Some (JStr (kind_str (al_kind alert)))"
proof -
  have "judge loads device_id (uuid_str z) frame = Take (the (alert_payload isofmt alert))"
    using judge_alert_frame [OF assms(1, 2), of device_id "uuid_str z"] assms(3, 4) by simp
  then have "expect_alert loads waited deadline device_id (uuid_str z) ((now, Frame frame) # rest) = Some (Inr (the (alert_payload isofmt alert)))"
    using assms(6) by simp
  moreover have "expect_alert loads waited deadline device_id (uuid_str z) (before @ tail) = expect_alert loads waited deadline device_id (uuid_str z) tail" for tail
    using assms(5)
  proof (induction before)
    case (Cons x before)
    then obtain t raw where "x = (t, Frame raw)" "0 < fl (deadline - t)" "judge loads device_id (uuid_str z) raw = Skip" by auto
    with Cons show ?case by (simp add: not_le)
  qed simp
  moreover have "member (the (alert_payload isofmt alert)) ''kind'' = Some (JStr (kind_str (al_kind alert)))"
    using assms(1) by (auto simp: frame_for_def alert_payload_def member_def split: if_splits)
  ultimately show ?thesis by simp
qed

text \<open>A greeting first, then the alert.\<close>

definition smoke_loads :: loads where
  "smoke_loads raw =
     (if raw = ''hi'' then Inr (JObj [(''type'', JStr ''stats'')])
      else Inr (JObj [(''type'', JStr ''alert''), (''alert'', the (alert_payload (\<lambda>_. ''now'') sample_alert))]))"

theorem smoke_hears_the_committed_alert_witness:
  "expect_alert smoke_loads ''30'' 30 (al_device_id sample_alert) (uuid_str (the (al_zone_id sample_alert)))
     [(1, Frame ''hi''), (2, Frame (the (frame_for (\<lambda>_. ''alert'') (\<lambda>_. ''now'') sample_alert)))] =
   Some (Inr (the (alert_payload (\<lambda>_. ''now'') sample_alert)))"
proof -
  have zone: "al_zone_id sample_alert = Some (the (al_zone_id sample_alert))" by (simp add: sample_alert_def)
  have "alert_payload (\<lambda>_. ''now'') sample_alert \<noteq> None" by code_simp
  then obtain payload where p: "alert_payload (\<lambda>_. ''now'') sample_alert = Some payload" by blast
  have frame: "frame_for (\<lambda>_. ''alert'') (\<lambda>_. ''now'') sample_alert = Some ''alert''" by (simp add: frame_for_def p alert_frame_def)
  have "0 < fl (30 - 1)" "0 < fl (30 - 2)" using fl_of_int [of 29] fl_of_int [of 28] by simp_all
  moreover have "judge smoke_loads (al_device_id sample_alert) (uuid_str (the (al_zone_id sample_alert))) ''hi'' = Skip"
    by (simp add: judge_def smoke_loads_def)
  ultimately show ?thesis
    using smoke_hears_the_committed_alert [OF frame _ refl zone, of smoke_loads 30 "[(1, Frame ''hi'')]" 2 "''30''" "[]"]
    by (simp add: frame p gives_back_def smoke_loads_def)
qed

lemma smoke_passes_only_on_enter:
  assumes "exit_code (smoke ingest_key w) = 0"
  shows "\<exists>zone_id alert. snd (sm_create w) = Some zone_id \<and> sm_alert w zone_id = Inr alert \<and> member alert ''kind'' = Some (JStr ''enter'')"
  using assms by (auto simp: exit_code_def smoke_def split: sum.splits if_splits option.splits)

text \<open>
  When nothing arrives, the receive raises first: the text that names the missing alert is only reached when a frame comes
  in and the time is up at the next turn.
\<close>

lemma silence_is_not_explained:
  "0 < fl (deadline - now) \<Longrightarrow> expect_alert loads waited deadline device_id zone_id ((now, Silence) # rest) = Some (Inl Fails)"
  by simp

end
