(* ===== verification/Spec2Isabelle.thy ===== *)
theory Spec2Isabelle
  imports Clock Geo Grid Codec Sharding Settings Database Batch Geofence Processing Batch_Properties Leases Protocol Publisher Consumer Maintenance Service
    Hub Connection Registry Bridge Sessions Budget Gateway Ingest DeviceSocket Geozones Queries Accounts
    Fleet LoadConfig FleetDrive LoadStats LoadRun LoadHttp LoadMain Schema Lifecycle Application Delivery Ownership ShardLife Loops EdgeAnswers Smoke
begin

text \<open>
  GeoTrack takes position reports from devices, keeps the newest position and the history of every device, raises an
  alert when a device enters, leaves or stays in a geozone, and shows the fleet live on dashboards. This development
  models the Python implementation and proves what makes it correct.

  \<^bold>\<open>The program.\<close> Devices report over HTTP or a websocket to an API replica, which validates a batch and appends each report
  to the Redis stream of its shard. Processor replicas own shards by leases; the consumer of a shard reads its stream,
  applies batches to PostgreSQL with one set-based statement, publishes the accepted positions and the alerts, and
  acknowledges the entries. API replicas listen to the published messages: a hub keeps the picture of the fleet, and every
  dashboard connection gets a snapshot of its viewport and then the changes. Users log in, keep zones and read alerts
  through a REST interface. A load generator simulates a fleet.

  \<^bold>\<open>Theories and sources.\<close> Paths are below \<^verbatim>\<open>src/geotrack\<close> unless they name another directory. Every theory follows the
  order of its sources: state as a record, one definition per operation, then the invariant and the properties.

  \<^item> \<open>Prelude\<close>: names of the basic types, facts on association lists, and the contracts that several components implement
    (\<open>newest_wins\<close>, \<open>step_system\<close>). \<open>PyFloat\<close>: doubles. A finite double is the rational number it denotes, and \<open>fl\<close> rounds
    to nearest, ties to even, with gradual underflow; the exponent has no upper bound, so overflow to infinity is outside
    the model except where a theory says otherwise.
  \<^item> \<open>Clock\<close> (\<^verbatim>\<open>clock.py\<close>), \<open>Geo\<close> (\<^verbatim>\<open>geo.py\<close>), \<open>Grid\<close> (\<^verbatim>\<open>realtime/grid.py\<close>), \<open>Codec\<close> (\<^verbatim>\<open>messaging/codec.py\<close>), \<open>Sharding\<close>
    (\<^verbatim>\<open>sharding.py\<close>, \<^verbatim>\<open>messaging/keys.py\<close>), \<open>Settings\<close> (\<^verbatim>\<open>settings.py\<close>): the leaf modules, with exactness of the
    timestamp conversions, the cover of a viewport by cells, the round trip of a record, and CRC-32 on 32-bit words.
  \<^item> \<open>Database\<close> (\<^verbatim>\<open>db/models.py\<close>, \<^verbatim>\<open>db/errors.py\<close>) and \<open>Schema\<close> (migration 0001, \<^verbatim>\<open>GeozonePatch\<close>): the tables as association
    lists, their invariant \<open>wf_db\<close>, the column constraints, the partition functions and the state after the upgrade.
  \<^item> \<open>Batch\<close> (\<^verbatim>\<open>processor/batch.py\<close>), \<open>Geofence\<close>, \<open>Processing\<close>, \<open>Batch_Properties\<close>: the statement clause by clause, the
    abstract geofence that it refines report by report, and the transaction with its lock, its retries and its faults.
  \<^item> \<open>Leases\<close>, \<open>Publisher\<close>, \<open>Consumer\<close>, \<open>Maintenance\<close>, \<open>Service\<close> (\<^verbatim>\<open>processor/\<close>): ownership of shards over Redis, the fan-out,
    the read loop, the partitions and the control plane of a replica. \<open>Lifecycle\<close> (\<^verbatim>\<open>processor/service.py\<close>,
    \<^verbatim>\<open>realtime/gateway.py\<close>): how a processor and a gateway start and stop, and one client from its admission to its departure.
    \<open>Ownership\<close> (\<^verbatim>\<open>processor/consumer.py\<close> over \<^verbatim>\<open>processor/leases.py\<close>): the consumers of one shard on several replicas, sharing Redis and
    the database. \<open>ShardLife\<close>: the life of a shard on a replica as a transition relation, which \<open>Service\<close> refines. \<open>Loops\<close>
    (\<^verbatim>\<open>processor/service.py\<close>): the renewal loop over the Redis store with its pace, the maintenance loop, the name of a replica and
    the lifespan of its application.
  \<^item> \<open>Protocol\<close>, \<open>Hub\<close>, \<open>Connection\<close>, \<open>Registry\<close>, \<open>Bridge\<close>, \<open>Sessions\<close>, \<open>Budget\<close>, \<open>Gateway\<close> (\<^verbatim>\<open>realtime/\<close>,
    \<^verbatim>\<open>api/routes/ws_client.py\<close>): frames, the picture of the fleet, a client with its buffers and its sender, the sessions of a
    replica and of all replicas, and the gateway that composes them. \<open>Delivery\<close>: the messages of the publisher as bridge and
    gateway hear them.
  \<^item> \<open>Ingest\<close> (\<^verbatim>\<open>schemas/ingest.py\<close>, \<^verbatim>\<open>ingest/\<close>, \<^verbatim>\<open>api/routes/ingest.py\<close>) and \<open>DeviceSocket\<close> (\<^verbatim>\<open>api/routes/ws_ingest.py\<close>): the edge,
    with the texts of its answers in \<open>EdgeAnswers\<close>.
  \<^item> \<open>Geozones\<close>, \<open>Queries\<close>, \<open>Accounts\<close> (\<^verbatim>\<open>schemas/\<close>, \<^verbatim>\<open>db/repositories/\<close>, \<^verbatim>\<open>api/\<close>): zones with their version guard, alert and
    device queries, accounts, tokens, problems and readiness.
  \<^item> \<open>Fleet\<close>, \<open>LoadConfig\<close>, \<open>FleetDrive\<close>, \<open>LoadStats\<close>, \<open>LoadRun\<close>, \<open>LoadHttp\<close>, \<open>LoadMain\<close> (\<^verbatim>\<open>generator.py\<close>): the load generator
    from its configuration to the ledgers of its two transports, its summary and its exit codes.
  \<^item> \<open>Application\<close> (\<^verbatim>\<open>api/app.py\<close>, \<^verbatim>\<open>api/resources.py\<close>, \<^verbatim>\<open>api/problems.py\<close>, \<^verbatim>\<open>observability/loop_lag.py\<close>): start and shutdown of an
    API replica, the middleware and the exception handlers, and the agreement of edge and processors on the shards.
  \<^item> \<open>Smoke\<close> (\<^verbatim>\<open>scripts/smoke.py\<close>): the end-to-end check, as a client of the alert frames.
  \<^item> This theory: the way of a report from an accepted request to the tables, across edge, codec, consumer and processor.

  \<^bold>\<open>How the code is modelled.\<close> A \<^verbatim>\<open>dict\<close> or a table is an association list, a set a list without repetition, a datetime its
  microseconds, a UUID a number. A coroutine is cut at its \<^verbatim>\<open>await\<close> points; between two of them the event loop runs it alone,
  so a handler is a function on the state, and interleavings are sequences of such steps (\<open>step_system\<close> carries an
  invariant over all of them). What a call to Redis, PostgreSQL, the clock or the network answers is an input of the step;
  errors are values of sums, and every raise and early return of the code is a branch. Code outside the repository is a
  parameter: the JSON functions, PostGIS, Redis (with the laws of the commands that are used), pydantic's parsing, the JWT
  package, number parsing, the random generator and the trigonometric functions. A theorem that needs one of their
  documented properties names it as a hypothesis, and its witness instantiates the parameter.

  \<^bold>\<open>What is shown.\<close> For the pipeline: a batch does to the tables what processing its reports one by one would do, redelivery
  changes nothing, alerts follow presence, an entry is acknowledged only when it is settled, and an accepted report that is
  acknowledged in time is durable; its position is on the map of every replica that hears the batch, and its alerts are with
  every session of their owner. For ownership: two replicas never hold one shard, one replica never reads a shard
  twice, only the holder of the lease writes, and every shard follows its life. For the realtime side: a client that applies its frames sees exactly the devices in its window, its memory is
  bounded, sessions stay within the cap across replicas, and a replica hears exactly its users. For the API: no lost updates,
  no difference between a foreign zone and a missing one, tables well-formed under any requests, and paging that sees every
  alert once. For the generator: the seed fixes every trajectory, and the counters account for every report. Theorems
  that end in a failure (\<open>unbounded_skew_wedges_a_shard\<close>, \<open>moved_twice_is_shown_as_gone\<close>, \<open>stray_frame_ends_the_sender\<close>)
  show where the code does not do what it means to.

  \<^bold>\<open>Bounds and fuel.\<close> Retry loops run over the attempts the code allows. The batching loop of the generator has one unit of
  fuel per waiting report, the sender of a connection one per waiting frame, and the client that pages through alerts one per
  page; each is proved to be enough. The timestamp conversions are exact between \<open>epoch_lo\<close> (2004) and \<open>epoch_hi\<close> (2038).

  \<^bold>\<open>Not modelled.\<close> Construction of pools, clients and identifiers (\<^verbatim>\<open>db/engine.py\<close>, \<^verbatim>\<open>messaging/redis.py\<close>, \<^verbatim>\<open>ids.py\<close>,
  \<^verbatim>\<open>processor/__main__.py\<close>) and the driver of the migrations: calls into libraries without logic of their own. Metrics and logs:
  output. Reading settings from the environment: done by a library. The dashboard is
  JavaScript.
\<close>

section \<open>From the request to the tables\<close>

text \<open>The edge and the processor read the same rule for device identifiers.\<close>

lemma device_chars_agree: "device_id_char c = device_char c"
  by (simp add: device_id_char_def device_char_def Let_def less_eq_char_def)

lemma device_rules_agree: "DeviceId_ok d = DEVICE_ID_RE d"
  by (simp add: DeviceId_ok_def DEVICE_ID_RE_def MIN_DEVICE_ID_LENGTH_def MAX_DEVICE_ID_LENGTH_def device_chars_agree [abs_def])

text \<open>What the route queues is what its body parsed to.\<close>

lemma accepted_body_is_queued:
  assumes "valid_settings s" "ingest_locations env s b rq e = (Inr n, e')"
    "read_bounded_body (ie_int_of env) (ingest_max_batch s) rq = Inr body"
    "parse_ingest_payload (ie_pydantic env) body (ingest_max_batch s) = Inr (seq, reports)" "r \<in> set reports"
  shows "queued_entry (ie_dumps env) s (se_now_ms (ie_submit env)) r \<in> set (ed_queue e')" "report_ok r"
    "re_timestamp r \<le> ie_now env + snd (report_window s)" "ie_now env - fst (report_window s) \<le> re_timestamp r"
proof -
  have bounds: "1 \<le> ingest_shards s" "1 \<le> ingest_max_batch s" using valid_ingest_settings [OF assms(1)] by auto
  note ok = parse_ingest_payload_ok [OF assms(4) bounds(2)]
  have "accept_reports env s b reports e = (Inr n, e')"
    using assms(2) by (simp add: ingest_locations_def assms(3, 4) split: if_splits)
  from accept_reports_accepted [OF this _ bounds(1)] ok assms(5)
  show "queued_entry (ie_dumps env) s (se_now_ms (ie_submit env)) r \<in> set (ed_queue e')" "report_ok r"
    "re_timestamp r \<le> ie_now env + snd (report_window s)" "ie_now env - fst (report_window s) \<le> re_timestamp r" by auto
qed

text \<open>The consumer reads back from a stream entry what the edge has written into it.\<close>

lemma entry_decodes:
  assumes "gives_back dumps loads (record_json r)" "wf_record r"
  shows "decode_record loads (entry_raw (entry, [(STREAM_FIELD, encode_record dumps r)])) = Inr r"
  using assms by (simp add: entry_raw_def gives_back_def encode_record_def decode_record_def record_json_def decode_fields_def wf_record_def is_double_def)

text \<open>An acknowledged entry with a storable record is durable, whatever the dead letters say.\<close>

lemma handled_record_is_durable:
  assumes "handle cfg env entries c = (ok, c')" "cs_acked c' \<noteq> cs_acked c" "x \<in> set entries"
    "decode_record (cc_loads cfg) (entry_raw x) = Inr r"
    "unstorable_reason r (history_oldest (bp_settings (cc_processor cfg)) (ce_now env)) (history_newest (bp_settings (cc_processor cfg)) (ce_now env)) = None"
  shows "durable (cs_db c') r"
proof -
  obtain records sources dead where dec: "decode_entries (cc_loads cfg) entries = (records, sources, dead)"
    by (cases "decode_entries (cc_loads cfg) entries")
  obtain i where i: "i < length records" "records ! i = r" using decode_entries_entry [OF dec assms(3)] assms(4) by auto
  then have ne: "records \<noteq> []" by auto
  obtain out db' where applied: "apply_batch (cc_processor cfg) (cc_postgis cfg) (cc_shard cfg) (ce_now env) (ce_attempts env) records (cs_db c) = (out, db')"
    by fastforce
  obtain res where out: "out = Inr res" using assms(1, 2) applied ne by (cases out) (auto simp: handle_def dec)
  have db: "cs_db c' = db'"
    using assms(1) applied ne unfolding out
    by (auto simp: handle_def dec Let_def write_dead_letters_def split: if_splits option.splits dest!: acknowledge_frame)
  have "br_rejected res = snd (split_storable (bp_settings (cc_processor cfg)) (ce_now env) records)"
    using applied unfolding out by (auto simp: apply_batch_def split: if_splits prod.splits sum.splits)
  then have "\<lparr>rj_index = int i, rj_record = records ! i, rj_reason = why\<rparr> \<notin> set (br_rejected res)" for why
    using assms(5) i by (auto simp: rejected_iff)
  with apply_batch_settles [OF applied [unfolded out] i(1)] show ?thesis by (auto simp: db i(2))
qed

lemma step_handles:
  assumes "cs_acked (consumer_step cfg env c) \<noteq> cs_acked c" "ce_read env = Inr entries"
  obtains ok c1 c2 where "handle cfg env entries c1 = (ok, c2)" "cs_acked c1 = cs_acked c" "cs_acked c2 = cs_acked (consumer_step cfg env c)"
    "cs_db c2 = cs_db (consumer_step cfg env c)"
proof -
  obtain backlog where rd: "ce_xlen env = Inr backlog" "entries \<noteq> []" "ce_renew env = Inr True"
    using assms by (auto simp: consumer_step_def Let_def sleep_backoff_def request_stop_def
        split: sum.splits redis_failure.splits if_splits bool.splits)
  obtain ok c2 where h: "handle cfg env entries (c\<lparr>cs_backlog := backlog\<rparr>) = (ok, c2)" by fastforce
  show thesis
    using rd h assms(2) by (intro that [OF h]) (auto simp: consumer_step_def Let_def sleep_backoff_def split: bool.splits)
qed

text \<open>(C5) An acknowledged request is kept: when the route answers with success, every report of its body has been
  queued for the shard of its device; and when the consumer of that shard later acknowledges a turn that read the
  entry, and the report has not aged out of the retention window in the meantime, then the report is in the archive and
  the position of its device is at least as new. It is not sent to the dead letters on the way: what the edge lets in,
  the codec can read and the processor can store. The clock of the processor may not be behind that of the edge, and
  both lie in the years in which millisecond timestamps are exact.\<close>

theorem accepted_report_becomes_durable:
  assumes "valid_settings s" "ingest_locations env s b rq e = (Inr n, e')"
    "read_bounded_body (ie_int_of env) (ingest_max_batch s) rq = Inr body"
    "parse_ingest_payload (ie_pydantic env) body (ingest_max_batch s) = Inr (seq, reports)" "r \<in> set reports"
    "is_double (re_latitude r)" "is_double (re_longitude r)"
    "epoch_lo * 1000 \<le> ie_now env - fst (report_window s)" "ie_now env + snd (report_window s) < epoch_hi * 1000"
    "gives_back (ie_dumps env) (cc_loads cfg) (record_json (report_record (se_now_ms (ie_submit env)) r))"
    "bp_settings (cc_processor cfg) = s" "ie_now env div 1000 \<le> ce_now turn"
    "history_oldest s (ce_now turn) \<le> to_epoch_ms (re_timestamp r)"
    "ce_read turn = Inr entries" "(entry, [(STREAM_FIELD, encode_record (ie_dumps env) (report_record (se_now_ms (ie_submit env)) r))]) \<in> set entries"
    "cs_acked (consumer_step cfg turn c) \<noteq> cs_acked c"
  shows "(ingest_stream (shard_index s r), encode_record (ie_dumps env) (report_record (se_now_ms (ie_submit env)) r)) \<in> set (ed_queue e') \<and>
    durable (cs_db (consumer_step cfg turn c)) (report_record (se_now_ms (ie_submit env)) r)"
proof
  note acc = accepted_body_is_queued [OF assms(1-5)]
  show "(ingest_stream (shard_index s r), encode_record (ie_dumps env) (report_record (se_now_ms (ie_submit env)) r)) \<in> set (ed_queue e')"
    using acc(1) by (simp add: queued_entry_def)
  define rec where "rec = report_record (se_now_ms (ie_submit env)) r"
  have wf: "wf_record rec" using acc(2) assms(6, 7) by (auto simp: rec_def wf_record_def report_ok_def report_record_def DeviceId_ok_def)
  have decodes: "decode_record (cc_loads cfg) (entry_raw (entry, [(STREAM_FIELD, encode_record (ie_dumps env) rec)])) = Inr rec"
    by (rule entry_decodes [OF assms(10) [folded rec_def] wf])
  have ms: "to_epoch_ms (re_timestamp r) = re_timestamp r div 1000"
    by (rule to_epoch_ms_window) (use acc(3, 4) assms(8, 9) in linarith)+
  have "re_timestamp r div 1000 \<le> (ie_now env + 1000 * (ingest_max_future_skew_s s * 1000)) div 1000"
    using acc(3) by (intro zdiv_mono1) (simp_all add: report_window_def)
  then have "to_epoch_ms (re_timestamp r) \<le> history_newest s (ce_now turn)" using assms(12) ms by (simp add: history_newest_def)
  then have storable: "unstorable_reason rec (history_oldest s (ce_now turn)) (history_newest s (ce_now turn)) = None"
    using acc(2) assms(13) by (simp add: unstorable_reason_def rec_def report_record_def report_ok_def device_rules_agree)
  obtain ok c1 c2 where h: "handle cfg turn entries c1 = (ok, c2)" "cs_acked c1 = cs_acked c" "cs_acked c2 = cs_acked (consumer_step cfg turn c)"
      "cs_db c2 = cs_db (consumer_step cfg turn c)" using step_handles [OF assms(16, 14)] .
  have "durable (cs_db c2) rec"
    using handled_record_is_durable [OF h(1) _ assms(15) [folded rec_def] decodes] h(2, 3) assms(16) storable by (simp add: assms(11))
  then show "durable (cs_db (consumer_step cfg turn c)) (report_record (se_now_ms (ie_submit env)) r)" by (simp add: h(4) rec_def)
qed

definition through_config :: consumer_config where
  "through_config = sample_config\<lparr>cc_loads := (\<lambda>_. Inr (record_json
     \<lparr>lr_device_id = ''dev-1'', lr_lat = 50, lr_lon = 30, lr_reported_ms = 1700000000000, lr_received_ms = 1700000001000\<rparr>))\<rparr>"

definition through_turn :: consumer_env where
  "through_turn = sample_turn\<lparr>ce_read := Inr [(''1-0'', [(STREAM_FIELD, ''[]'')])], ce_xackdel := None\<rparr>"

definition quiet_db :: db where
  "quiet_db = sample_db\<lparr>geozones := []\<rparr>"

definition through_report :: location_report where
  "through_report = \<lparr>re_device_id = ''dev-1'', re_latitude = 50, re_longitude = 30, re_timestamp = 1700000000000000\<rparr>"

lemma through_record: "report_record 1700000001000 through_report =
    \<lparr>lr_device_id = ''dev-1'', lr_lat = 50, lr_lon = 30, lr_reported_ms = 1700000000000, lr_received_ms = 1700000001000\<rparr>"
  by (simp add: report_record_def through_report_def to_epoch_ms_window epoch_lo_def epoch_hi_def)

lemma through_apply:
  "\<not> isl (fst (apply_batch sample_processor flat_earth 0 sample_now (\<lambda>_. sample_env)
     [\<lparr>lr_device_id = ''dev-1'', lr_lat = 50, lr_lon = 30, lr_reported_ms = 1700000000000, lr_received_ms = 1700000001000\<rparr>] quiet_db))"
  by code_simp

lemma through_decodes: "decode_record (cc_loads through_config) (entry_raw (''1-0'', [(STREAM_FIELD, ''[]'')])) =
    Inr \<lparr>lr_device_id = ''dev-1'', lr_lat = 50, lr_lon = 30, lr_reported_ms = 1700000000000, lr_received_ms = 1700000001000\<rparr>"
  (is "_ = Inr ?rec")
proof -
  have "wf_record ?rec" using fl_of_int [of 50] fl_of_int [of 30] by (simp add: wf_record_def is_double_def)
  then show ?thesis
    using entry_decodes [of "\<lambda>_. ''[]''" "cc_loads through_config" ?rec "''1-0''"]
    by (simp add: gives_back_def through_config_def encode_record_def)
qed

lemma through_acks: "cs_acked (consumer_step through_config through_turn (consumer_init quiet_db)) = [''1-0'']"
proof -
  have dec: "decode_entries (cc_loads through_config) [(''1-0'', [(STREAM_FIELD, ''[]'')])] =
      ([\<lparr>lr_device_id = ''dev-1'', lr_lat = 50, lr_lon = 30, lr_reported_ms = 1700000000000, lr_received_ms = 1700000001000\<rparr>], [''1-0''], [])"
    using through_decodes by simp
  obtain res db' where "apply_batch sample_processor flat_earth 0 sample_now (\<lambda>_. sample_env)
      [\<lparr>lr_device_id = ''dev-1'', lr_lat = 50, lr_lon = 30, lr_reported_ms = 1700000000000, lr_received_ms = 1700000001000\<rparr>] quiet_db = (Inr res, db')"
    using through_apply by (metis isl_def sum.exhaust prod.collapse)
  with dec show ?thesis
    unfolding consumer_step_def handle_def Let_def write_dead_letters_def acknowledge_def
    by (simp add: through_turn_def sample_turn_def consumer_init_def through_config_def sample_config_def)
qed

lemma through_request:
  "read_bounded_body (ie_int_of sample_ingest) (ingest_max_batch default_settings) sample_request = Inr ''{}''"
  "parse_ingest_payload (ie_pydantic sample_ingest) ''{}'' (ingest_max_batch default_settings) = Inr (None, [through_report])"
  "\<exists>e'. ingest_locations sample_ingest default_settings sample_gate sample_request fresh_edge = (Inr 1, e')"
proof -
  show raw: "read_bounded_body (ie_int_of sample_ingest) (ingest_max_batch default_settings) sample_request = Inr ''{}''" by code_simp
  show parse: "parse_ingest_payload (ie_pydantic sample_ingest) ''{}'' (ingest_max_batch default_settings) = Inr (None, [through_report])" by code_simp
  have key: "verify_ingest_key default_settings (rq_key sample_request)" by code_simp
  have win: "check_report_window [through_report] (ie_now sample_ingest) (fst (report_window default_settings)) (snd (report_window default_settings)) = None"
    by code_simp
  have "fst (submit_to sample_ingest default_settings sample_gate [through_report] fresh_edge) = Inr 1"
    using valid_ingest_settings [OF default_settings_valid]
    by (simp add: submit_to_def submit_def xadds_all sample_gate_def sample_ingest_def del: xadds.simps)
  then have "fst (accept_reports sample_ingest default_settings sample_gate [through_report] fresh_edge) = Inr 1"
    using win by (auto simp: accept_reports_def split: prod.splits)
  then have "fst (ingest_locations sample_ingest default_settings sample_gate sample_request fresh_edge) = Inr 1"
    using key raw parse by (simp add: ingest_locations_def sample_gate_def)
  then show "\<exists>e'. ingest_locations sample_ingest default_settings sample_gate sample_request fresh_edge = (Inr 1, e')"
    by (metis prod.collapse)
qed

theorem accepted_report_becomes_durable_witness:
  "durable (cs_db (consumer_step through_config through_turn (consumer_init quiet_db))) (report_record 1700000001000 through_report)"
proof -
  have env: "ie_dumps sample_ingest = (\<lambda>_. ''[]'')" "se_now_ms (ie_submit sample_ingest) = 1700000001000" "ie_now sample_ingest = 1700000001000000"
    by (simp_all add: sample_ingest_def)
  have win: "report_window default_settings = (604800000000, 300000000)" by code_simp
  have dbl: "is_double 50" "is_double 30" using fl_of_int [of 50] fl_of_int [of 30] by (simp_all add: is_double_def)
  obtain e' where run: "ingest_locations sample_ingest default_settings sample_gate sample_request fresh_edge = (Inr 1, e')"
    using through_request(3) by blast
  show ?thesis
  proof (rule accepted_report_becomes_durable [OF default_settings_valid run through_request(1, 2), THEN conjunct2, unfolded env(2)])
    show "is_double (re_latitude through_report)" "is_double (re_longitude through_report)" using dbl by (simp_all add: through_report_def)
    show "gives_back (ie_dumps sample_ingest) (cc_loads through_config) (record_json (report_record 1700000001000 through_report))"
      unfolding through_record by (simp add: gives_back_def through_config_def)
    show "bp_settings (cc_processor through_config) = default_settings"
      by (simp add: through_config_def sample_config_def sample_processor_def batch_processor_init_def)
    show "history_oldest default_settings (ce_now through_turn) \<le> to_epoch_ms (re_timestamp through_report)"
      using through_record by (simp add: report_record_def through_turn_def sample_turn_def sample_now_def history_oldest_def default_settings_def)
    show "ce_read through_turn = Inr [(''1-0'', [(STREAM_FIELD, ''[]'')])]" by (simp add: through_turn_def)
    show "(''1-0'', [(STREAM_FIELD, encode_record (ie_dumps sample_ingest) (report_record 1700000001000 through_report))])
        \<in> set [(''1-0'', [(STREAM_FIELD, ''[]'')])]" by (simp add: encode_record_def env)
    show "cs_acked (consumer_step through_config through_turn (consumer_init quiet_db)) \<noteq> cs_acked (consumer_init quiet_db)"
      unfolding through_acks by (simp add: consumer_init_def)
  qed (simp_all add: env win through_turn_def sample_turn_def sample_now_def epoch_lo_def epoch_hi_def)
qed

end
